(* ===== verification/Prelude.thy ===== *)
theory Prelude imports
  Complex_Main
  "HOL-Library.Multiset"
begin

text \<open>
  Shared material: the collections of hints the other theories fill, the error values of the
  program, the effect combinators every operation is written with, and generic lemmas on lists.

  An operation of the program takes the state of the world and returns a result together with
  the new state: \<open>'s \<Rightarrow> (error + 'a) \<times> 's\<close>. Go's \<open>if err != nil { return err }\<close> is
  \<open>and_then\<close>: a failing step ends the operation and keeps every effect made so far. Rolling
  effects back is the business of a database transaction only (theory Store).
\<close>

named_theorems run_simps \<open>how an operation runs: result and state of each combinator\<close>
named_theorems frame_intros \<open>rules that an operation keeps a predicate on the state\<close>
named_theorems table_simps \<open>facts on rows of tables\<close>

section \<open>Errors\<close>

text \<open>
  \<open>ErrNotFound\<close> is \<open>repository.ErrNotFound\<close> (kitchen_repo.go). \<open>Errorf\<close> is an error made by
  the program with \<open>fmt.Errorf\<close>, \<open>DatabaseError\<close> one that a statement of the program provokes in
  the database (a constraint or a range of a column), \<open>DriverError\<close> one that the environment
  hands in (a lost connection, an unreachable broker).
\<close>

datatype error = ErrNotFound | Errorf string | DatabaseError string | DriverError string

fun error_text :: "error \<Rightarrow> string" where
  "error_text ErrNotFound = ''not found''"
| "error_text (Errorf s) = s"
| "error_text (DatabaseError s) = s"
| "error_text (DriverError s) = s"

section \<open>Operations\<close>

type_synonym ('s, 'a) act = "'s \<Rightarrow> (error + 'a) \<times> 's"

definition ok :: "'a \<Rightarrow> ('s, 'a) act" where
  "ok x = (\<lambda>s. (Inr x, s))"

definition fail :: "error \<Rightarrow> ('s, 'a) act" where
  "fail e = (\<lambda>s. (Inl e, s))"

definition and_then :: "('s, 'a) act \<Rightarrow> ('a \<Rightarrow> ('s, 'b) act) \<Rightarrow> ('s, 'b) act" where
  "and_then m f = (\<lambda>s. case m s of (Inl e, s') \<Rightarrow> (Inl e, s') | (Inr x, s') \<Rightarrow> f x s')"

definition attempt :: "('s, 'a) act \<Rightarrow> ('s, error + 'a) act" where
  "attempt m = (\<lambda>s. case m s of (r, s') \<Rightarrow> (Inr r, s'))"

definition lift_result :: "error + 'a \<Rightarrow> ('s, 'a) act" where
  "lift_result r = (\<lambda>s. (r, s))"

text \<open>A Go loop over a slice whose body may return an error, and one that also builds a value.\<close>

fun for_each :: "('b \<Rightarrow> ('s, unit) act) \<Rightarrow> 'b list \<Rightarrow> ('s, unit) act" where
  "for_each f [] = ok ()"
| "for_each f (x # xs) = and_then (f x) (\<lambda>_. for_each f xs)"

fun fold_act :: "('b \<Rightarrow> 'a \<Rightarrow> ('s, 'a) act) \<Rightarrow> 'b list \<Rightarrow> 'a \<Rightarrow> ('s, 'a) act" where
  "fold_act f [] a = ok a"
| "fold_act f (x # xs) a = and_then (f x a) (fold_act f xs)"

lemma ok_run [simp]: "ok x s = (r, s') \<longleftrightarrow> r = Inr x \<and> s' = s"
  by (auto simp: ok_def)

lemma fail_run [simp]: "fail e s = (r, s') \<longleftrightarrow> r = Inl e \<and> s' = s"
  by (auto simp: fail_def)

lemma lift_result_run [simp]: "lift_result q s = (r, s') \<longleftrightarrow> r = q \<and> s' = s"
  by (auto simp: lift_result_def)

lemma and_then_Inr [run_simps]:
  "and_then m f s = (Inr y, t) \<longleftrightarrow> (\<exists>x s'. m s = (Inr x, s') \<and> f x s' = (Inr y, t))"
  by (auto simp: and_then_def split: prod.splits sum.splits)

lemma and_then_Inl [run_simps]:
  "and_then m f s = (Inl e, t) \<longleftrightarrow>
     m s = (Inl e, t) \<or> (\<exists>x s'. m s = (Inr x, s') \<and> f x s' = (Inl e, t))"
  by (auto simp: and_then_def split: prod.splits sum.splits)

lemma attempt_run [run_simps]:
  "attempt m s = (Inr r, t) \<longleftrightarrow> m s = (r, t)"
  "attempt m s \<noteq> (Inl e, t)"
  by (auto simp: attempt_def split: prod.splits)

lemma and_then_ok [simp]: "and_then (ok x) f = f x"
  by (rule ext) (simp add: and_then_def ok_def)

lemma and_then_fail [simp]: "and_then (fail e) f = fail e"
  by (rule ext) (simp add: and_then_def fail_def)

lemma and_then_assoc: "and_then (and_then m f) g = and_then m (\<lambda>x. and_then (f x) g)"
  by (rule ext) (auto simp: and_then_def split: prod.splits sum.splits)

lemma for_each_append: "for_each f (xs @ ys) = and_then (for_each f xs) (\<lambda>_. for_each f ys)"
  by (induction xs) (auto simp: and_then_assoc)

section \<open>What an operation keeps\<close>

text \<open>\<open>keeps P m\<close>: whatever the outcome of \<open>m\<close>, a state with \<open>P\<close> is followed by one with \<open>P\<close>.\<close>

definition keeps :: "('s \<Rightarrow> bool) \<Rightarrow> ('s, 'a) act \<Rightarrow> bool" where
  "keeps P m \<longleftrightarrow> (\<forall>s. P s \<longrightarrow> P (snd (m s)))"

lemma keepsI: "(\<And>s r s'. P s \<Longrightarrow> m s = (r, s') \<Longrightarrow> P s') \<Longrightarrow> keeps P m"
  by (simp add: keeps_def) (metis prod.collapse)

lemma keepsD: "keeps P m \<Longrightarrow> P s \<Longrightarrow> m s = (r, s') \<Longrightarrow> P s'"
  by (auto simp: keeps_def dest: spec [of _ s])

lemma keeps_ok [frame_intros]: "keeps P (ok x)"
  by (simp add: keeps_def ok_def)

lemma keeps_fail [frame_intros]: "keeps P (fail e)"
  by (simp add: keeps_def fail_def)

lemma keeps_lift_result [frame_intros]: "keeps P (lift_result r)"
  by (simp add: keeps_def lift_result_def)

lemma keeps_and_then [frame_intros]: "keeps P m \<Longrightarrow> (\<And>x. keeps P (f x)) \<Longrightarrow> keeps P (and_then m f)"
  by (auto simp: keeps_def and_then_def split: prod.splits sum.splits)

lemma keeps_attempt [frame_intros]: "keeps P m \<Longrightarrow> keeps P (attempt m)"
  by (auto simp: keeps_def attempt_def split: prod.splits)

lemma keeps_if [frame_intros]: "(b \<Longrightarrow> keeps P m) \<Longrightarrow> (\<not> b \<Longrightarrow> keeps P n) \<Longrightarrow> keeps P (if b then m else n)"
  by simp

lemma keeps_case_option [frame_intros]:
  "(x = None \<Longrightarrow> keeps P m) \<Longrightarrow> (\<And>y. x = Some y \<Longrightarrow> keeps P (f y)) \<Longrightarrow>
   keeps P (case x of None \<Rightarrow> m | Some y \<Rightarrow> f y)"
  by (cases x) auto

lemma keeps_case_sum [frame_intros]:
  "(\<And>e. x = Inl e \<Longrightarrow> keeps P (g e)) \<Longrightarrow> (\<And>y. x = Inr y \<Longrightarrow> keeps P (f y)) \<Longrightarrow>
   keeps P (case x of Inl e \<Rightarrow> g e | Inr y \<Rightarrow> f y)"
  by (cases x) auto

lemma keeps_for_each [frame_intros]:
  assumes "\<And>x. x \<in> set xs \<Longrightarrow> keeps P (f x)"
  shows "keeps P (for_each f xs)"
  using assms by (induction xs) (auto intro!: frame_intros)

lemma keeps_fold_act [frame_intros]:
  assumes "\<And>x a. x \<in> set xs \<Longrightarrow> keeps P (f x a)"
  shows "keeps P (fold_act f xs a)"
  using assms by (induction xs arbitrary: a) (auto intro!: frame_intros)

section \<open>Rows\<close>

text \<open>
  \<open>map_result\<close> applies a fallible function to every element and stops at the first error, as a
  multi-row SQL statement does.
\<close>

fun map_result :: "('a \<Rightarrow> error + 'b) \<Rightarrow> 'a list \<Rightarrow> error + 'b list" where
  "map_result f [] = Inr []"
| "map_result f (x # xs) =
     (case f x of Inl e \<Rightarrow> Inl e
      | Inr y \<Rightarrow> (case map_result f xs of Inl e \<Rightarrow> Inl e | Inr ys \<Rightarrow> Inr (y # ys)))"

lemma map_result_Inr_iff:
  "map_result f xs = Inr ys \<longleftrightarrow> list_all2 (\<lambda>x y. f x = Inr y) xs ys"
proof (induction xs arbitrary: ys)
  case Nil
  then show ?case by auto
next
  case (Cons x xs)
  then show ?case
    by (cases ys) (auto simp flip: Cons.IH split: sum.splits)
qed

lemma map_result_total:
  "(\<And>x. x \<in> set xs \<Longrightarrow> f x = Inr (g x)) \<Longrightarrow> map_result f xs = Inr (map g xs)"
  by (induction xs) auto

lemma sort_key_in_set [simp]: "x \<in> set (sort_key k xs) \<longleftrightarrow> x \<in> set xs"
  by simp

lemma list_all2_source: "list_all2 R xs ys \<Longrightarrow> y \<in> set ys \<Longrightarrow> \<exists>x \<in> set xs. R x y"
  by (induction rule: list_all2_induct) auto

text \<open>The rows of an inner join, seen from its left side.\<close>

lemma set_join: "set (concat (map (\<lambda>x. map (\<lambda>_. x) (filter (R x) ys)) xs)) = {x \<in> set xs. \<exists>y \<in> set ys. R x y}"
  by (induction xs) (auto simp: image_constant_conv split: if_splits)

lemma filter_unique_key:
  assumes "distinct (map k xs)" and "x \<in> set xs"
  shows "filter (\<lambda>y. k y = k x) xs = [x]"
  using assms
proof (induction xs)
  case (Cons y ys)
  then show ?case
    by (cases "x = y") (auto simp: filter_empty_conv image_iff intro: filter_False)
qed simp

lemma distinct_key_eq:
  "distinct (map k xs) \<Longrightarrow> x \<in> set xs \<Longrightarrow> y \<in> set xs \<Longrightarrow> k x = k y \<Longrightarrow> x = y"
  by (induction xs) (auto simp: image_iff)

end
