(* ===== verification/GoLib.thy ===== *)
theory GoLib imports
  Prelude
  "HOL-Library.Sublist"
  "HOL-Library.Word"
begin

text \<open>
  The parts of the Go language and of its standard library that the program uses: 64-bit signed
  arithmetic, \<open>strings\<close>, \<open>strconv\<close> and \<open>time\<close>. Strings are lists of bytes; the functions that
  classify characters are those of ASCII, which is what the program feeds them (task ids,
  environment values, recipe descriptions in ASCII). Instants are nanoseconds since the Unix
  epoch and durations are nanoseconds, both as integers; an operation of Go that can wrap around
  is written with \<open>int64\<close>.
\<close>

section \<open>Integers\<close>

definition int64 :: "int \<Rightarrow> int" where
  "int64 x = (x + 2 ^ 63) mod 2 ^ 64 - 2 ^ 63"

lemma int64_range: "- (2 ^ 63) \<le> int64 x \<and> int64 x < 2 ^ 63"
proof -
  have "0 \<le> (x + 2 ^ 63) mod 2 ^ 64" and "(x + 2 ^ 63) mod 2 ^ 64 < (2 ^ 64 :: int)"
    by (rule pos_mod_sign, simp) (rule pos_mod_bound, simp)
  then show ?thesis by (simp add: int64_def)
qed

lemma int64_id: "- (2 ^ 63) \<le> x \<Longrightarrow> x < 2 ^ 63 \<Longrightarrow> int64 x = x"
  by (simp add: int64_def)

text \<open>\<open>int64\<close> is the two's complement reading of a 64-bit word.\<close>

lemma int64_word: "int64 x = sint (word_of_int x :: 64 word)"
  by (simp add: int64_def sint_sbintrunc' signed_take_bit_eq_take_bit_shift take_bit_eq_mod)

text \<open>Division of Go truncates toward zero.\<close>

definition quo :: "int \<Rightarrow> int \<Rightarrow> int" where
  "quo a b = sgn a * sgn b * (\<bar>a\<bar> div \<bar>b\<bar>)"

definition rem :: "int \<Rightarrow> int \<Rightarrow> int" where
  "rem a b = a - b * quo a b"

lemma quo_nonneg: "0 \<le> a \<Longrightarrow> 0 < b \<Longrightarrow> quo a b = a div b"
  by (cases "a = 0") (auto simp: quo_def)

lemma rem_nonneg: "0 \<le> a \<Longrightarrow> 0 < b \<Longrightarrow> rem a b = a mod b"
  by (simp add: rem_def quo_nonneg minus_mult_div_eq_mod)

section \<open>Package strings\<close>

definition is_space :: "char \<Rightarrow> bool" where
  "is_space c \<longleftrightarrow> c \<in> {CHR 0x09, CHR 0x0A, CHR 0x0B, CHR 0x0C, CHR 0x0D, CHR 0x20}"

definition TrimSpace :: "string \<Rightarrow> string" where
  "TrimSpace s = rev (dropWhile is_space (rev (dropWhile is_space s)))"

definition to_lower :: "char \<Rightarrow> char" where
  "to_lower c = (let n = (of_char c :: nat) in if 65 \<le> n \<and> n \<le> 90 then char_of (n + 32) else c)"

definition ToLower :: "string \<Rightarrow> string" where
  "ToLower s = map to_lower s"

fun Contains :: "string \<Rightarrow> string \<Rightarrow> bool" where
  "Contains [] sub \<longleftrightarrow> sub = []"
| "Contains (c # cs) sub \<longleftrightarrow> prefix sub (c # cs) \<or> Contains cs sub"

fun Split :: "string \<Rightarrow> char \<Rightarrow> string list" where
  "Split [] sep = [[]]"
| "Split (c # cs) sep =
     (case Split cs sep of
        [] \<Rightarrow> [[c]]
      | p # ps \<Rightarrow> if c = sep then [] # p # ps else (c # p) # ps)"

lemma Contains_sublist: "Contains s sub \<longleftrightarrow> sublist sub s"
  by (induction s) (auto simp: sublist_Cons_right)

lemma Contains_append: "Contains (xs @ sub @ ys) sub"
  by (auto simp: Contains_sublist sublist_def)

lemma TrimSpace_no_leading: "TrimSpace s = c # cs \<Longrightarrow> \<not> is_space c"
proof -
  assume eq: "TrimSpace s = c # cs"
  let ?t = "dropWhile is_space s"
  have "prefix (TrimSpace s) ?t"
    unfolding TrimSpace_def prefix_def
    by (metis rev_append rev_rev_ident takeWhile_dropWhile_id)
  with eq obtain u where "?t = c # cs @ u" by (auto simp: prefix_def)
  then have "hd ?t = c" "?t \<noteq> []" by auto
  then show ?thesis using hd_dropWhile by blast
qed

lemma TrimSpace_no_trailing: "TrimSpace s = cs @ [c] \<Longrightarrow> \<not> is_space c"
proof -
  assume eq: "TrimSpace s = cs @ [c]"
  let ?t = "dropWhile is_space (rev (dropWhile is_space s))"
  from eq have "?t = c # rev cs"
    unfolding TrimSpace_def by (metis rev_eq_append_conv rev_rev_ident rev.simps(2) rev_append append_Cons append_Nil)
  then show ?thesis using hd_dropWhile [of is_space "rev (dropWhile is_space s)"] by auto
qed

lemma TrimSpace_id:
  "s = [] \<or> (\<not> is_space (hd s) \<and> \<not> is_space (last s)) \<Longrightarrow> TrimSpace s = s"
proof (cases s)
  case (Cons a t)
  assume "s = [] \<or> (\<not> is_space (hd s) \<and> \<not> is_space (last s))"
  with Cons have "\<not> is_space (hd s)" "\<not> is_space (last s)" "s \<noteq> []" by auto
  then show ?thesis
    by (metis TrimSpace_def dropWhile_eq_self_iff hd_rev rev_is_Nil_conv rev_rev_ident)
qed (simp add: TrimSpace_def)

lemma TrimSpace_idem [simp]: "TrimSpace (TrimSpace s) = TrimSpace s"
  by (rule TrimSpace_id)
    (metis TrimSpace_no_leading TrimSpace_no_trailing append_butlast_last_id hd_Cons_tl)

section \<open>Package strconv\<close>

definition digit_char :: "nat \<Rightarrow> char" where
  "digit_char d = char_of (48 + d)"

definition is_digit :: "char \<Rightarrow> bool" where
  "is_digit c \<longleftrightarrow> 48 \<le> (of_char c :: nat) \<and> (of_char c :: nat) \<le> 57"

definition digit_value :: "char \<Rightarrow> nat" where
  "digit_value c = of_char c - 48"

fun FormatUint :: "nat \<Rightarrow> string" where
  "FormatUint n = (if n < 10 then [digit_char n] else FormatUint (n div 10) @ [digit_char (n mod 10)])"

declare FormatUint.simps [simp del]

definition FormatInt :: "int \<Rightarrow> string" where
  "FormatInt i = (if i < 0 then CHR ''-'' # FormatUint (nat (- i)) else FormatUint (nat i))"

text \<open>
  \<open>strconv.Quote\<close> on bytes: the named escapes, two hexadecimal digits for the other bytes outside
  the printable range of ASCII.
\<close>

definition hex_char :: "nat \<Rightarrow> char" where
  "hex_char d = (if d < 10 then digit_char d else char_of (87 + d))"

definition quote_char :: "char \<Rightarrow> string" where
  "quote_char c =
     (let n = (of_char c :: nat)
      in if n = 34 \<or> n = 92 then [CHR 0x5C, c]
         else if 32 \<le> n \<and> n \<le> 126 then [c]
         else if n = 7 then [CHR 0x5C, CHR ''a''] else if n = 8 then [CHR 0x5C, CHR ''b'']
         else if n = 9 then [CHR 0x5C, CHR ''t''] else if n = 10 then [CHR 0x5C, CHR ''n'']
         else if n = 11 then [CHR 0x5C, CHR ''v''] else if n = 12 then [CHR 0x5C, CHR ''f'']
         else if n = 13 then [CHR 0x5C, CHR ''r'']
         else [CHR 0x5C, CHR ''x'', hex_char (n div 16), hex_char (n mod 16)])"

definition Quote :: "string \<Rightarrow> string" where
  "Quote s = CHR 0x22 # concat (map quote_char s) @ [CHR 0x22]"

definition max_uint64 :: nat where "max_uint64 = 2 ^ 64 - 1"

fun parse_uint_from :: "nat \<Rightarrow> nat \<Rightarrow> string \<Rightarrow> string + nat" where
  "parse_uint_from limit n [] = Inr n"
| "parse_uint_from limit n (c # cs) =
     (if \<not> is_digit c then Inl ''invalid syntax''
      else if limit < n * 10 + digit_value c then Inl ''value out of range''
      else parse_uint_from limit (n * 10 + digit_value c) cs)"

text \<open>\<open>strconv.ParseUint(s, 10, 64)\<close>.\<close>

definition ParseUint :: "string \<Rightarrow> error + nat" where
  "ParseUint s =
     (case (if s = [] then Inl ''invalid syntax'' else parse_uint_from max_uint64 0 s) of
        Inl e \<Rightarrow> Inl (Errorf (''strconv.ParseUint: parsing '' @ Quote s @ '': '' @ e))
      | Inr n \<Rightarrow> Inr n)"

text \<open>\<open>strconv.Atoi\<close> for the 64-bit \<open>int\<close>: an optional sign and decimal digits.\<close>

definition Atoi :: "string \<Rightarrow> error + int" where
  "Atoi s =
     (let neg = (case s of c # _ \<Rightarrow> c = CHR ''-'' | [] \<Rightarrow> False);
          ds = (case s of c # cs \<Rightarrow> if c = CHR ''-'' \<or> c = CHR ''+'' then cs else s | [] \<Rightarrow> [])
      in case (if ds = [] then Inl ''invalid syntax''
               else parse_uint_from (if neg then 2 ^ 63 else 2 ^ 63 - 1) 0 ds) of
           Inl e \<Rightarrow> Inl (Errorf (''strconv.Atoi: parsing '' @ Quote s @ '': '' @ e))
         | Inr n \<Rightarrow> Inr (if neg then - int n else int n))"

lemma digit_char [simp]:
  assumes "d < 10"
  shows "is_digit (digit_char d)" and "digit_value (digit_char d) = d"
  using assms by (auto simp: is_digit_def digit_char_def digit_value_def of_char_of take_bit_eq_mod)

lemma FormatUint_nonempty [simp]: "FormatUint n \<noteq> []"
  by (subst FormatUint.simps) auto

lemma FormatUint_digits: "c \<in> set (FormatUint n) \<Longrightarrow> is_digit c"
proof (induction n rule: FormatUint.induct)
  case (1 n)
  then show ?case
    by (subst (asm) (2) FormatUint.simps) (auto split: if_splits)
qed

lemma parse_uint_from_append:
  "parse_uint_from l n (xs @ ys) =
     (case parse_uint_from l n xs of Inl e \<Rightarrow> Inl e | Inr m \<Rightarrow> parse_uint_from l m ys)"
  by (induction xs arbitrary: n) auto

lemma parse_FormatUint: "n \<le> limit \<Longrightarrow> parse_uint_from limit 0 (FormatUint n) = Inr n"
proof (induction n rule: FormatUint.induct)
  case (1 n)
  show ?case
  proof (cases "n < 10")
    case True
    with 1 show ?thesis by (subst FormatUint.simps) simp
  next
    case False
    with 1 have "parse_uint_from limit 0 (FormatUint (n div 10)) = Inr (n div 10)" by simp
    moreover have "n div 10 * 10 + n mod 10 = n" by simp
    ultimately show ?thesis
      using False 1(2) by (subst FormatUint.simps) (simp add: parse_uint_from_append)
  qed
qed

lemma ParseUint_FormatUint: "n < 2 ^ 64 \<Longrightarrow> ParseUint (FormatUint n) = Inr n"
  by (simp add: ParseUint_def parse_FormatUint max_uint64_def)

lemma parse_uint_from_mono:
  "parse_uint_from l n s = Inr m \<Longrightarrow> l \<le> l' \<Longrightarrow> parse_uint_from l' n s = Inr m"
  by (induction s arbitrary: n) (auto split: if_splits)

lemma ParseUint_FormatUint_eq: "ParseUint (FormatUint n) = Inr m \<Longrightarrow> m = n"
proof -
  assume "ParseUint (FormatUint n) = Inr m"
  then have "parse_uint_from max_uint64 0 (FormatUint n) = Inr m"
    by (auto simp: ParseUint_def split: sum.splits if_splits)
  then have "parse_uint_from (max n max_uint64) 0 (FormatUint n) = Inr m"
    by (rule parse_uint_from_mono) simp
  then show ?thesis by (simp add: parse_FormatUint)
qed

lemma FormatUint_inj [simp]: "FormatUint m = FormatUint n \<longleftrightarrow> m = n"
proof
  assume eq: "FormatUint m = FormatUint n"
  have "parse_uint_from (max m n) 0 (FormatUint m) = Inr m" by (rule parse_FormatUint) simp
  moreover have "parse_uint_from (max m n) 0 (FormatUint n) = Inr n" by (rule parse_FormatUint) simp
  ultimately show "m = n" using eq by (metis sum.inject(2))
qed simp

lemma parse_uint_from_bound: "parse_uint_from l n s = Inr m \<Longrightarrow> n \<le> l \<Longrightarrow> m \<le> l"
  by (induction s arbitrary: n) (auto split: if_splits)

lemma ParseUint_bound: "ParseUint s = Inr n \<Longrightarrow> n < 2 ^ 64"
  using parse_uint_from_bound [of max_uint64 0 s n]
  by (auto simp: ParseUint_def max_uint64_def split: sum.splits if_splits)

lemma parse_uint_from_digits: "parse_uint_from l n s = Inr m \<Longrightarrow> c \<in> set s \<Longrightarrow> is_digit c"
  by (induction s arbitrary: n) (auto split: if_splits)

lemma FormatUint_no_space: "TrimSpace (FormatUint n) = FormatUint n"
proof (rule TrimSpace_id, rule disjI2)
  have d: "\<not> is_space c" if "is_digit c" for c
    using that by (auto simp: is_digit_def is_space_def)
  show "\<not> is_space (hd (FormatUint n)) \<and> \<not> is_space (last (FormatUint n))"
    by (metis FormatUint_nonempty FormatUint_digits d hd_in_set last_in_set)
qed

text \<open>A decimal rendering never holds a separator, so two of them joined by one are uniquely split.\<close>

lemma FormatInt_inj [simp]: "FormatInt a = FormatInt b \<longleftrightarrow> a = b"
proof -
  have neg: "CHR ''-'' # FormatUint m \<noteq> FormatUint n" for m n
  proof
    assume "CHR ''-'' # FormatUint m = FormatUint n"
    then have "CHR ''-'' \<in> set (FormatUint n)" by (metis list.set_intros(1))
    then have "is_digit (CHR ''-'')" by (rule FormatUint_digits)
    then show False by (simp add: is_digit_def)
  qed
  show ?thesis
    using neg neg [symmetric] by (auto simp: FormatInt_def split: if_splits)
qed

lemma FormatInt_no_colon: "CHR '':'' \<notin> set (FormatInt i)"
  by (auto simp: FormatInt_def is_digit_def dest!: FormatUint_digits)

lemma FormatUint_no_colon: "CHR '':'' \<notin> set (FormatUint i)"
  by (auto simp: is_digit_def dest!: FormatUint_digits)

lemma join_inj:
  assumes "x \<notin> set a" and "x \<notin> set c"
  shows "a @ x # b = c @ x # d \<longleftrightarrow> a = c \<and> b = d"
  using assms
proof (induction a arbitrary: c)
  case Nil
  then show ?case by (cases c) auto
next
  case (Cons y a)
  then show ?case by (cases c) auto
qed

section \<open>Package time\<close>

definition Second :: int where "Second = 1000000000"
definition Millisecond :: int where "Millisecond = 1000000"
definition Minute :: int where "Minute = 60 * Second"

definition minDuration :: int where "minDuration = - (2 ^ 63)"
definition maxDuration :: int where "maxDuration = 2 ^ 63 - 1"

text \<open>\<open>t.Sub(u)\<close> saturates, \<open>t.Unix()\<close> is the floor of the seconds, \<open>t.Add(d)\<close> is exact.\<close>

definition Sub :: "int \<Rightarrow> int \<Rightarrow> int" where
  "Sub t u = max minDuration (min maxDuration (t - u))"

definition Unix :: "int \<Rightarrow> int" where
  "Unix t = t div Second"

definition UnixNano :: "int \<Rightarrow> int" where
  "UnixNano t = int64 t"

lemma Sub_mono: "t \<le> t' \<Longrightarrow> Sub t u \<le> Sub t' u"
  by (auto simp: Sub_def)

lemma Sub_antimono: "u \<le> u' \<Longrightarrow> Sub t u' \<le> Sub t u"
  by (auto simp: Sub_def)

end
