(* ===== verification/Float64.thy ===== *)
theory Float64 imports
  GoLib
  "HOL-Library.Log_Nat"
begin

text \<open>
  Go's \<open>float64\<close>: IEEE 754 binary64 with round to nearest, ties to even. A finite float is the
  rational it stands for; \<open>f64\<close> rounds a rational to the nearest float (subnormals included), and
  each arithmetic operation is the exact one followed by \<open>f64\<close>, one rounding per operation (no
  fused multiply-add, as on amd64). Overflow to an infinity is outside the model: every value of
  the program is many orders of magnitude below \<open>2 ^ 1024\<close> (columns of at most ten digits, seconds
  of a 64-bit duration). Signed zeros and NaN do not occur.
\<close>

section \<open>Rounding\<close>

definition exponent :: "rat \<Rightarrow> int" where
  "exponent x =
     (let (n, d) = quotient_of \<bar>x\<bar>; k = bitlen n - bitlen d
      in if 2 powi k \<le> \<bar>x\<bar> then k else k - 1)"

definition round_even :: "rat \<Rightarrow> int" where
  "round_even x =
     (let f = \<lfloor>x\<rfloor>; r = x - of_int f
      in if r < 1 / 2 then f else if 1 / 2 < r then f + 1 else if even f then f else f + 1)"

definition ulp :: "rat \<Rightarrow> rat" where
  "ulp x = 2 powi (max (exponent x - 52) (- 1074))"

definition f64 :: "rat \<Rightarrow> rat" where
  "f64 x = (if x = 0 then 0 else of_int (round_even (x / ulp x)) * ulp x)"

definition fadd :: "rat \<Rightarrow> rat \<Rightarrow> rat" where "fadd x y = f64 (x + y)"
definition fsub :: "rat \<Rightarrow> rat \<Rightarrow> rat" where "fsub x y = f64 (x - y)"
definition fmul :: "rat \<Rightarrow> rat \<Rightarrow> rat" where "fmul x y = f64 (x * y)"
definition fdiv :: "rat \<Rightarrow> rat \<Rightarrow> rat" where "fdiv x y = f64 (x / y)"

text \<open>\<open>float64(i)\<close> and \<open>int(x)\<close>, which truncates toward zero.\<close>

definition float_of_int :: "int \<Rightarrow> rat" where "float_of_int i = f64 (of_int i)"
definition int_of_float :: "rat \<Rightarrow> int" where "int_of_float x = (if 0 \<le> x then \<lfloor>x\<rfloor> else \<lceil>x\<rceil>)"

section \<open>Rounding to an integer\<close>

lemma round_even_of_int [simp]: "round_even (of_int i) = i"
  by (simp add: round_even_def)

lemma round_even_cases: "round_even x = \<lfloor>x\<rfloor> \<or> round_even x = \<lfloor>x\<rfloor> + 1"
  by (auto simp: round_even_def Let_def)

lemma round_even_mono: "x \<le> y \<Longrightarrow> round_even x \<le> round_even y"
proof -
  assume le: "x \<le> y"
  then have fl: "\<lfloor>x\<rfloor> \<le> \<lfloor>y\<rfloor>" by (rule floor_mono)
  show ?thesis
  proof (cases "\<lfloor>x\<rfloor> = \<lfloor>y\<rfloor>")
    case True
    with le show ?thesis by (auto simp: round_even_def Let_def)
  next
    case False
    with fl have "\<lfloor>x\<rfloor> + 1 \<le> \<lfloor>y\<rfloor>" by simp
    then show ?thesis using round_even_cases [of x] round_even_cases [of y] by auto
  qed
qed

lemma round_even_uminus: "round_even (- x) = - round_even x"
proof (cases "x \<in> \<int>")
  case True
  then obtain i where "x = of_int i" by (auto elim: Ints_cases)
  then have "- x = of_int (- i)" by simp
  then show ?thesis using \<open>x = of_int i\<close> by (metis round_even_of_int)
next
  case False
  have c: "\<lceil>x\<rceil> = \<lfloor>x\<rfloor> + 1" using False by (simp add: ceiling_altdef Ints_def)
     (metis False Ints_of_int)
  then have "\<lfloor>- x\<rfloor> = - \<lfloor>x\<rfloor> - 1" by (simp add: floor_minus)
  then show ?thesis
    by (auto simp: round_even_def Let_def)
qed

lemma round_even_le: "x \<le> of_int i \<Longrightarrow> round_even x \<le> i"
  using round_even_mono [of x "of_int i"] by simp

lemma round_even_ge: "of_int i \<le> x \<Longrightarrow> i \<le> round_even x"
  using round_even_mono [of "of_int i" x] by simp

section \<open>The exponent\<close>

lemma bitlen_powi:
  assumes "0 < n"
  shows "2 powi (bitlen n - 1) \<le> (of_int n :: rat)" and "(of_int n :: rat) < 2 powi (bitlen n)"
proof -
  have pos: "0 < bitlen n"
    using assms bitlen_nonneg [of n] bitlen_eq_zero_iff [of n] by linarith
  have b: "2 ^ nat (bitlen n - 1) \<le> n" "n < 2 ^ nat (bitlen n)"
    using bitlen_bounds [OF assms] by auto
  have "(of_int (2 ^ nat (bitlen n - 1)) :: rat) \<le> of_int n"
    using b(1) by (simp only: of_int_le_iff)
  then show "2 powi (bitlen n - 1) \<le> (of_int n :: rat)"
    using pos by (simp add: power_int_def)
  have "(of_int n :: rat) < of_int (2 ^ nat (bitlen n))"
    using b(2) by (simp only: of_int_less_iff)
  then show "(of_int n :: rat) < 2 powi (bitlen n)"
    using pos by (simp add: power_int_def)
qed

lemma exponent_bounds:
  assumes "x \<noteq> 0"
  shows "2 powi exponent x \<le> \<bar>x\<bar>" and "\<bar>x\<bar> < 2 powi (exponent x + 1)"
proof -
  obtain n d where q: "quotient_of \<bar>x\<bar> = (n, d)" by force
  have d: "0 < d" using q by (rule quotient_of_denom_pos)
  have x: "\<bar>x\<bar> = of_int n / of_int d" using q by (rule quotient_of_div)
  with assms d have n: "0 < n"
    by (metis abs_ge_zero abs_0_eq divide_eq_0_iff of_int_0_le_iff of_int_pos of_int_0_eq_iff
        order_le_less zero_le_divide_iff not_less)
  let ?k = "bitlen n - bitlen d"
  note bn = bitlen_powi [OF n] and bd = bitlen_powi [OF d]
  have two: "(2::rat) powi a / 2 powi b = 2 powi (a - b)" for a b
    by (simp add: power_int_diff)
  have "2 powi (bitlen n - 1) / 2 powi (bitlen d) \<le> of_int n / (of_int d :: rat)"
    using bn bd d n by (intro frac_le) auto
  then have lo: "2 powi (?k - 1) \<le> \<bar>x\<bar>" by (simp add: two x algebra_simps)
  have "of_int n / (of_int d :: rat) < 2 powi (bitlen n) / 2 powi (bitlen d - 1)"
    using bn bd d by (intro frac_less) (auto simp: n less_imp_le)
  then have hi: "\<bar>x\<bar> < 2 powi (?k + 1)" by (simp add: two x algebra_simps)
  show "2 powi exponent x \<le> \<bar>x\<bar>" and "\<bar>x\<bar> < 2 powi (exponent x + 1)"
    using lo hi by (auto simp: exponent_def q Let_def)
qed

lemma pow2_less: "(2::rat) powi m < 2 powi n \<Longrightarrow> m < n"
  using power_int_increasing [of n m "2::rat"] by (cases "m < n") auto

lemma exponent_unique:
  assumes "2 powi e \<le> \<bar>x\<bar>" and "\<bar>x\<bar> < 2 powi (e + 1)"
  shows "exponent x = e"
proof -
  have "0 < (2::rat) powi e" by (rule zero_less_power_int) simp
  with assms(1) have "0 < \<bar>x\<bar>" by (rule less_le_trans [rotated])
  then have "x \<noteq> 0" by simp
  note b = exponent_bounds [OF this]
  have "(2::rat) powi exponent x < 2 powi (e + 1)" "(2::rat) powi e < 2 powi (exponent x + 1)"
    using b assms by linarith+
  then have "exponent x < e + 1" "e < exponent x + 1"
    by (simp_all only: pow2_less)
  then show ?thesis by simp
qed

lemma exponent_mono:
  assumes "x \<noteq> 0" and "\<bar>x\<bar> \<le> \<bar>y\<bar>"
  shows "exponent x \<le> exponent y"
proof -
  from assms have "y \<noteq> 0" by auto
  have "(2::rat) powi exponent x < 2 powi (exponent y + 1)"
    using exponent_bounds(1) [OF assms(1)] exponent_bounds(2) [OF \<open>y \<noteq> 0\<close>] assms(2) by linarith
  then have "exponent x < exponent y + 1" by (rule pow2_less)
  then show ?thesis by simp
qed

lemma exponent_uminus [simp]: "exponent (- x) = exponent x"
  by (simp add: exponent_def)

lemma ulp_uminus [simp]: "ulp (- x) = ulp x"
  by (simp add: ulp_def)

lemma ulp_pos: "0 < ulp x"
  by (simp add: ulp_def)

section \<open>Rounding to a float\<close>

lemma f64_zero [simp]: "f64 0 = 0"
  by (simp add: f64_def)

lemma f64_uminus: "f64 (- x) = - f64 x"
  by (simp add: f64_def round_even_uminus)

lemma f64_exact: "x = of_int i * ulp x \<Longrightarrow> f64 x = x"
  using ulp_pos [of x] by (auto simp: f64_def) (metis less_irrefl nonzero_mult_div_cancel_right round_even_of_int)

lemma f64_nonneg: "0 \<le> x \<Longrightarrow> 0 \<le> f64 x"
  using ulp_pos [of x] round_even_ge [of 0 "x / ulp x"] by (simp add: f64_def)

text \<open>A power of two that is a multiple of the unit in the last place separates roundings.\<close>

lemma pow2_multiple:
  assumes "max (exponent x - 52) (- 1074) \<le> e"
  obtains i where "(2::rat) powi e / ulp x = of_int i"
proof
  let ?m = "max (exponent x - 52) (- 1074)"
  have "(2::rat) powi e / ulp x = 2 powi (e - ?m)"
    by (simp add: ulp_def power_int_diff)
  also have "\<dots> = of_int (2 ^ nat (e - ?m))"
    using assms by (simp add: power_int_def)
  finally show "(2::rat) powi e / ulp x = of_int (2 ^ nat (e - ?m))" .
qed

lemma f64_le_pow2:
  assumes "0 < x" and "x \<le> 2 powi e" and "max (exponent x - 52) (- 1074) \<le> e"
  shows "f64 x \<le> 2 powi e"
proof -
  obtain i where i: "(2::rat) powi e / ulp x = of_int i" using assms(3) by (rule pow2_multiple)
  have "x / ulp x \<le> of_int i"
    using assms(2) ulp_pos [of x] by (simp flip: i add: divide_right_mono)
  then have "(of_int (round_even (x / ulp x)) :: rat) \<le> of_int i" by (simp add: round_even_le)
  then have "of_int (round_even (x / ulp x)) * ulp x \<le> of_int i * ulp x"
    using ulp_pos [of x] by (intro mult_right_mono) auto
  then show ?thesis using assms(1) ulp_pos [of x] by (simp add: f64_def flip: i)
qed

lemma f64_ge_pow2:
  assumes "0 < x" and "2 powi e \<le> x" and "max (exponent x - 52) (- 1074) \<le> e"
  shows "2 powi e \<le> f64 x"
proof -
  obtain i where i: "(2::rat) powi e / ulp x = of_int i" using assms(3) by (rule pow2_multiple)
  have "of_int i \<le> x / ulp x"
    using assms(2) ulp_pos [of x] by (simp flip: i add: divide_right_mono)
  then have "(of_int i :: rat) \<le> of_int (round_even (x / ulp x))" by (simp add: round_even_ge)
  then have "of_int i * ulp x \<le> of_int (round_even (x / ulp x)) * ulp x"
    using ulp_pos [of x] by (intro mult_right_mono) auto
  then show ?thesis using assms(1) ulp_pos [of x] by (simp add: f64_def flip: i)
qed

lemma f64_mono_pos:
  assumes "0 < x" and "x \<le> y"
  shows "f64 x \<le> f64 y"
proof -
  have e: "exponent x \<le> exponent y" using assms by (intro exponent_mono) auto
  show ?thesis
  proof (cases "ulp x = ulp y")
    case True
    have "round_even (x / ulp x) \<le> round_even (y / ulp x)"
      using assms ulp_pos [of x] by (intro round_even_mono divide_right_mono) auto
    then show ?thesis
      using assms ulp_pos [of x] True by (simp add: f64_def mult_right_mono)
  next
    case False
    then have less: "max (exponent x - 52) (- 1074) < exponent y - 52"
      using e by (cases "exponent x = exponent y") (auto simp: ulp_def max_def split: if_splits)
    have "x \<le> 2 powi (exponent x + 1)" using exponent_bounds(2) [of x] assms by simp
    also have "\<dots> \<le> 2 powi exponent y" using less e by (intro power_int_increasing) auto
    finally have "x \<le> 2 powi exponent y" .
    then have "f64 x \<le> 2 powi exponent y" using assms less by (intro f64_le_pow2) auto
    moreover have "2 powi exponent y \<le> f64 y"
      using assms less exponent_bounds(1) [of y] by (intro f64_ge_pow2) auto
    ultimately show ?thesis by simp
  qed
qed

lemma f64_mono: "x \<le> y \<Longrightarrow> f64 x \<le> f64 y"
proof -
  assume le: "x \<le> y"
  consider "0 < x" | "x \<le> 0" "0 \<le> y" | "y < 0" by linarith
  then show ?thesis
  proof cases
    case 1
    with le show ?thesis by (rule f64_mono_pos [rotated])
  next
    case 2
    then have "f64 x \<le> 0" "0 \<le> f64 y"
      using f64_nonneg [of "- x"] f64_nonneg [of y] by (auto simp: f64_uminus)
    then show ?thesis by simp
  next
    case 3
    with le have "f64 (- y) \<le> f64 (- x)" by (intro f64_mono_pos) auto
    then show ?thesis by (simp add: f64_uminus)
  qed
qed

text \<open>Integers of at most 53 bits are floats.\<close>

lemma f64_of_int:
  assumes "\<bar>i\<bar> < 2 ^ 53"
  shows "f64 (of_int i) = of_int i"
proof (cases "i = 0")
  case False
  let ?x = "of_int i :: rat" and ?m = "max (exponent (of_int i) - 52) (- 1074)"
  have "(2::rat) powi exponent ?x \<le> \<bar>?x\<bar>" using False by (intro exponent_bounds) simp
  also have "\<dots> < 2 powi 53" using assms by simp
  finally have "exponent ?x < 53" by (rule pow2_less)
  then have le: "?m \<le> 0" by simp
  then have "ulp ?x = inverse (2 ^ nat (- ?m))"
    by (auto simp: ulp_def power_int_def power_one_over inverse_eq_divide)
  then have "?x = of_int (i * 2 ^ nat (- ?m)) * ulp ?x" by simp
  then show ?thesis by (rule f64_exact)
qed simp

lemma float_of_int_small: "\<bar>i\<bar> < 2 ^ 53 \<Longrightarrow> float_of_int i = of_int i"
  by (simp add: float_of_int_def f64_of_int)

lemma float_of_int_mono: "i \<le> j \<Longrightarrow> float_of_int i \<le> float_of_int j"
  by (simp add: float_of_int_def f64_mono)

lemma float_ops_mono:
  "x \<le> x' \<Longrightarrow> y \<le> y' \<Longrightarrow> fadd x y \<le> fadd x' y'"
  "x \<le> x' \<Longrightarrow> y' \<le> y \<Longrightarrow> fsub x y \<le> fsub x' y'"
  "0 \<le> c \<Longrightarrow> x \<le> x' \<Longrightarrow> fmul c x \<le> fmul c x'"
  "0 \<le> c \<Longrightarrow> x \<le> x' \<Longrightarrow> fmul x c \<le> fmul x' c"
  "0 < c \<Longrightarrow> x \<le> x' \<Longrightarrow> fdiv x c \<le> fdiv x' c"
  by (auto simp: fadd_def fsub_def fmul_def fdiv_def intro!: f64_mono mult_left_mono
      mult_right_mono divide_right_mono)

lemma int_of_float_of_int [simp]: "int_of_float (of_int i) = i"
  by (simp add: int_of_float_def)

lemma int_of_float_mono: "x \<le> y \<Longrightarrow> int_of_float x \<le> int_of_float y"
proof -
  assume le: "x \<le> y"
  have "\<lceil>x\<rceil> \<le> \<lfloor>y\<rfloor>" if "x < 0" "0 \<le> y"
  proof -
    have "\<lceil>x\<rceil> \<le> 0" "0 \<le> \<lfloor>y\<rfloor>" using that by (auto simp: ceiling_le_iff)
    then show ?thesis by linarith
  qed
  then show ?thesis using le
    by (auto simp: int_of_float_def intro: floor_mono ceiling_mono)
qed

section \<open>Durations and floats\<close>

text \<open>\<open>Duration.Seconds()\<close>: the whole seconds plus the remaining nanoseconds over \<open>1e9\<close>.\<close>

definition Seconds :: "int \<Rightarrow> rat" where
  "Seconds d = fadd (float_of_int (quo d Second)) (fdiv (float_of_int (rem d Second)) (f64 1000000000))"

end
