(* ===== verification/Models.thy ===== *)
theory Models imports
  Float64
  "HOL-Library.Multiset"
begin

text \<open>
  The rows and messages of the program (package \<open>internal/models\<close>, and the column ranges of
  \<open>db/schema.sql\<close>). A field \<open>F\<close> of a Go struct is the record field \<open>x_F\<close>, with \<open>x\<close> the initial of
  the struct, because Isabelle has one name space for the fields of all records. Pointers that
  may be nil are options, instants are nanoseconds, identifiers are natural numbers (the code
  never computes with one). Statuses are the constants the code stores; event types stay
  strings, since a consumer may receive any.
\<close>

section \<open>Statuses and events\<close>

datatype TaskStatus = TaskUnassigned | TaskAssigned | TaskStarted | TaskCompleted

datatype OrderStatus = OrderConfirmed | OrderInProgress | OrderPartCompleted | OrderCompleted

fun task_status_text :: "TaskStatus \<Rightarrow> string" where
  "task_status_text TaskUnassigned = ''UNASSIGNED''"
| "task_status_text TaskAssigned = ''ASSIGNED''"
| "task_status_text TaskStarted = ''STARTED''"
| "task_status_text TaskCompleted = ''COMPLETED''"

fun order_status_text :: "OrderStatus \<Rightarrow> string" where
  "order_status_text OrderConfirmed = ''CONFIRMED''"
| "order_status_text OrderInProgress = ''IN_PROGRESS''"
| "order_status_text OrderPartCompleted = ''PART_COMPLETED''"
| "order_status_text OrderCompleted = ''COMPLETED''"

definition EventTaskCreated :: string where "EventTaskCreated = ''TASK_CREATED''"
definition EventTaskReady :: string where "EventTaskReady = ''TASK_READY''"
definition EventTaskAssigned :: string where "EventTaskAssigned = ''TASK_ASSIGNED''"
definition EventTaskStarted :: string where "EventTaskStarted = ''TASK_STARTED''"
definition EventTaskCompleted :: string where "EventTaskCompleted = ''TASK_COMPLETED''"
definition EventTaskRequeued :: string where "EventTaskRequeued = ''TASK_REQUEUED''"

lemmas event_types = EventTaskCreated_def EventTaskReady_def EventTaskAssigned_def
  EventTaskStarted_def EventTaskCompleted_def EventTaskRequeued_def

record DomainEvent =
  Type :: string
  Timestamp :: int
  Payload :: string

section \<open>Rows\<close>

record OrderModel =
  o_ID :: nat
  o_ExternalOrderID :: string
  o_Status :: OrderStatus
  o_CreatedAt :: int

record CounterModel =
  c_ID :: nat
  c_Name :: string
  c_Capacity :: int
  c_InUse :: int
  c_UpdatedAt :: int

record MachineModel =
  m_ID :: nat
  m_Name :: string
  m_CounterID :: nat
  m_MachineType :: string
  m_Capacity :: int
  m_InUse :: int
  m_IsUp :: bool
  m_UpdatedAt :: int

record StaffModel =
  s_ID :: nat
  s_Name :: string
  s_ShiftStart :: int
  s_ShiftEnd :: int
  s_MaxParallel :: int
  s_EfficiencyMultiplier :: rat
  s_ActiveTasks :: int
  s_ActiveSeconds :: int
  s_OnBreak :: bool
  s_CreatedAt :: int

record StaffSkillModel =
  k_StaffID :: nat
  k_CounterID :: nat

record RecipeStepModel =
  r_ID :: nat
  r_ItemKey :: string
  r_StepOrder :: int
  r_Description :: string
  r_CounterID :: nat
  r_MachineID :: "nat option"
  r_EstimateSecs :: int
  r_BasePriority :: rat
  r_IsActive :: bool
  r_CreatedAt :: int

record RecipeStepDependencyModel =
  rd_ItemKey :: string
  rd_StepOrder :: int
  rd_DependsOnStepOrder :: int

record TaskModel =
  t_ID :: nat
  t_OrderID :: nat
  t_Description :: string
  t_CounterID :: nat
  t_MachineID :: "nat option"
  t_EstimateSecs :: int
  t_BasePriority :: rat
  t_PendingDeps :: int
  t_AssignedStaffID :: "nat option"
  t_AssignedMachineID :: "nat option"
  t_Status :: TaskStatus
  t_AssignmentVersion :: int
  t_ClaimedBy :: "string option"
  t_ClaimedUntil :: "int option"
  t_AssignedAt :: "int option"
  t_StartedAt :: "int option"
  t_CompletedAt :: "int option"
  t_CreatedAt :: int

record TaskDependencyModel =
  td_TaskID :: nat
  td_DependsOnTaskID :: nat

text \<open>The zero value of a recipe step, which Go's map lookup gives for a missing key.\<close>

definition zero_RecipeStepModel :: RecipeStepModel where
  "zero_RecipeStepModel = \<lparr>r_ID = 0, r_ItemKey = [], r_StepOrder = 0, r_Description = [],
     r_CounterID = 0, r_MachineID = None, r_EstimateSecs = 0, r_BasePriority = 0,
     r_IsActive = False, r_CreatedAt = 0\<rparr>"

section \<open>JSON of an event\<close>

text \<open>
  The values that \<open>encoding/json\<close> writes and reads, as trees: numbers are split into integer
  literals and the others. \<open>Marshal_event\<close> is \<open>json.Marshal\<close> of a \<open>DomainEvent\<close> (no field tags, so
  the keys are the field names) and \<open>Unmarshal_event\<close> is \<open>json.Unmarshal\<close> into a zero
  \<open>DomainEvent\<close>: keys match a field exactly or up to case, unknown keys are ignored, \<open>null\<close> changes
  nothing, and the first mismatch of types is the error while the other fields are still set.
\<close>

datatype json = JNull | JBool bool | JInt int | JReal rat | JString string
  | JArray "json list" | JObject "(string \<times> json) list"

record DomainEventModel =
  e_ID :: nat
  e_AggregateType :: string
  e_AggregateID :: string
  e_EventType :: string
  e_Payload :: json
  e_Attempts :: int
  e_NextRetryAt :: "int option"
  e_PublishedAt :: "int option"
  e_LastError :: "string option"
  e_CreatedAt :: int

text \<open>A message of the broker (\<open>kafka.Message\<close>, the fields the program sets): its value is JSON.\<close>

record Message =
  g_Key :: string
  g_Value :: json
  g_Time :: int

definition zero_DomainEvent :: DomainEvent where
  "zero_DomainEvent = \<lparr>Type = [], Timestamp = 0, Payload = []\<rparr>"

definition Marshal_event :: "DomainEvent \<Rightarrow> json" where
  "Marshal_event e = JObject [(''Type'', JString (Type e)), (''Timestamp'', JInt (Timestamp e)),
     (''Payload'', JString (Payload e))]"

definition same_key :: "string \<Rightarrow> string \<Rightarrow> bool" where
  "same_key a b \<longleftrightarrow> ToLower a = ToLower b"

fun set_field :: "string \<times> json \<Rightarrow> DomainEvent \<Rightarrow> error option \<times> DomainEvent" where
  "set_field (k, JNull) e = (None, e)"
| "set_field (k, JString s) e =
     (if same_key k ''Type'' then (None, e\<lparr>Type := s\<rparr>)
      else if same_key k ''Payload'' then (None, e\<lparr>Payload := s\<rparr>)
      else if same_key k ''Timestamp'' then (Some (Errorf ''json: cannot unmarshal string''), e)
      else (None, e))"
| "set_field (k, JInt i) e =
     (if same_key k ''Timestamp'' \<and> int64 i = i then (None, e\<lparr>Timestamp := i\<rparr>)
      else if same_key k ''Timestamp'' \<or> same_key k ''Type'' \<or> same_key k ''Payload''
      then (Some (Errorf ''json: cannot unmarshal number''), e)
      else (None, e))"
| "set_field (k, v) e =
     (if same_key k ''Timestamp'' \<or> same_key k ''Type'' \<or> same_key k ''Payload''
      then (Some (Errorf ''json: cannot unmarshal value''), e)
      else (None, e))"

fun set_fields :: "(string \<times> json) list \<Rightarrow> error option \<Rightarrow> DomainEvent \<Rightarrow> error + DomainEvent" where
  "set_fields [] err e = (case err of None \<Rightarrow> Inr e | Some x \<Rightarrow> Inl x)"
| "set_fields (kv # kvs) err e =
     (case set_field kv e of (err', e') \<Rightarrow>
        set_fields kvs (case err of None \<Rightarrow> err' | Some x \<Rightarrow> Some x) e')"

fun Unmarshal_event :: "json \<Rightarrow> error + DomainEvent" where
  "Unmarshal_event (JObject kvs) = set_fields kvs None zero_DomainEvent"
| "Unmarshal_event JNull = Inr zero_DomainEvent"
| "Unmarshal_event _ = Inl (Errorf ''json: cannot unmarshal value'')"

text \<open>
  PostgreSQL's \<open>jsonb\<close> keeps an object's keys by length and then bytewise, so the payload of an
  event comes back as \<open>Type, Payload, Timestamp\<close>. Decoding does not depend on the order.
\<close>

lemma Unmarshal_Marshal_event:
  assumes "int64 (Timestamp e) = Timestamp e"
  shows "Unmarshal_event (Marshal_event e) = Inr e"
  using assms
  by (cases e) (simp add: Marshal_event_def zero_DomainEvent_def same_key_def ToLower_def to_lower_def)

lemma Unmarshal_event_jsonb:
  assumes "int64 ts = ts"
  shows "Unmarshal_event (JObject [(''Type'', JString ty), (''Payload'', JString p), (''Timestamp'', JInt ts)])
           = Inr \<lparr>Type = ty, Timestamp = ts, Payload = p\<rparr>"
  using assms
  by (simp add: zero_DomainEvent_def same_key_def ToLower_def to_lower_def)

section \<open>Ranges of columns\<close>

text \<open>
  A statement that stores a value outside its column's type fails. \<open>int4\<close> and \<open>int8\<close> are INTEGER
  and BIGINT, \<open>numeric_6_3\<close> is NUMERIC(6,3): rounded to three decimals, half away from zero, and
  below 1000 in absolute value.
\<close>

definition int4 :: "int \<Rightarrow> error + int" where
  "int4 x = (if - (2 ^ 31) \<le> x \<and> x < 2 ^ 31 then Inr x else Inl (DatabaseError ''integer out of range''))"

definition int8 :: "int \<Rightarrow> error + int" where
  "int8 x = (if - (2 ^ 63) \<le> x \<and> x < 2 ^ 63 then Inr x else Inl (DatabaseError ''bigint out of range''))"

definition round_half_away :: "rat \<Rightarrow> int" where
  "round_half_away x = (if 0 \<le> x then \<lfloor>x + 1 / 2\<rfloor> else - \<lfloor>1 / 2 - x\<rfloor>)"

definition numeric_6_3 :: "rat \<Rightarrow> error + rat" where
  "numeric_6_3 x =
     (let r = of_int (round_half_away (x * 1000)) / 1000
      in if \<bar>r\<bar> < 1000 then Inr r else Inl (DatabaseError ''numeric field overflow''))"

lemma int4_Inr: "int4 x = Inr y \<longleftrightarrow> y = x \<and> - (2 ^ 31) \<le> x \<and> x < 2 ^ 31"
  by (auto simp: int4_def)

lemma int8_Inr: "int8 x = Inr y \<longleftrightarrow> y = x \<and> - (2 ^ 63) \<le> x \<and> x < 2 ^ 63"
  by (auto simp: int8_def)

lemma numeric_6_3_bound: "numeric_6_3 x = Inr r \<Longrightarrow> \<bar>r\<bar> < 1000"
  by (auto simp: numeric_6_3_def Let_def split: if_splits)

lemma numeric_6_3_overflow: "1000 \<le> x \<Longrightarrow> \<exists>e. numeric_6_3 x = Inl e"
proof -
  assume x: "1000 \<le> x"
  then have "1000000 \<le> round_half_away (x * 1000)"
    by (simp add: round_half_away_def le_floor_iff)
  then have "(1000000 :: rat) \<le> of_int (round_half_away (x * 1000))"
    by (metis of_int_le_iff of_int_numeral)
  then show ?thesis by (simp add: numeric_6_3_def Let_def)
qed

section \<open>Properties\<close>

text \<open>
  C31: An event survives the way through the outbox: decoding the three fields that encoding wrote
  gives back the event, in whatever order the database or the broker returns the fields.
\<close>

theorem event_roundtrip:
  assumes "int64 (Timestamp e) = Timestamp e" and "Marshal_event e = JObject kvs" and "mset kvs' = mset kvs"
  shows "Unmarshal_event (JObject kvs') = Inr e"
proof -
  have m: "mset kvs' = {#(''Type'', JString (Type e)), (''Timestamp'', JInt (Timestamp e)), (''Payload'', JString (Payload e))#}"
    using assms(2,3) by (auto simp: Marshal_event_def)
  then have "size (mset kvs') = 3" by simp
  then obtain a b c where kvs: "kvs' = [a, b, c]" by (auto simp: length_Suc_conv numeral_3_eq_3)
  have keys: "\<not> same_key ''Type'' ''Timestamp''" "\<not> same_key ''Type'' ''Payload''" "\<not> same_key ''Payload'' ''Timestamp''"
      "\<not> same_key ''Payload'' ''Type''" "\<not> same_key ''Timestamp'' ''Type''" "\<not> same_key ''Timestamp'' ''Payload''"
      "same_key k k" for k
    by (simp_all add: same_key_def ToLower_def to_lower_def)
  have "e = \<lparr>Type = Type e, Timestamp = Timestamp e, Payload = Payload e\<rparr>" by simp
  then show ?thesis
    using m assms(1) unfolding kvs
    by (auto simp: add_eq_conv_diff zero_DomainEvent_def keys)
qed

theorem event_roundtrip_witness:
  "Unmarshal_event (JObject [(''Type'', JString EventTaskReady), (''Payload'', JString ''7''), (''Timestamp'', JInt 9)]) =
     Inr \<lparr>Type = EventTaskReady, Timestamp = 9, Payload = ''7''\<rparr>"
proof (rule event_roundtrip)
  show "mset [(''Type'', JString EventTaskReady), (''Payload'', JString ''7''), (''Timestamp'', JInt 9)] =
      mset [(''Type'', JString EventTaskReady), (''Timestamp'', JInt 9), (''Payload'', JString ''7'')]"
    by (simp add: add_mset_commute)
qed (simp_all add: Marshal_event_def int64_id)

end
