(* ===== verification/ReadyQueue.thy ===== *)
theory ReadyQueue imports
  Models
  "HOL-Library.AList"
  "HOL-Library.List_Lexorder"
  "HOL-Library.Product_Lexorder"
  "HOL-Library.Char_ord"
begin

text \<open>
  Package \<open>internal/queue\<close>: the interface \<open>ReadyQueue\<close>, the in-memory queue and the Redis queue.

  The interface is a record of operations over an abstract state \<open>'q\<close>. What its clients rely on
  is the locale \<open>ready_queue\<close> (for safety: a failed call may have happened or not, but nothing
  is invented), and \<open>exact_ready_queue\<close> adds that calls succeed and the contents are exactly those
  of a map from task ids to scores, from which the least are popped.
\<close>

section \<open>The interface\<close>

record 'q ready_queue_ops =
  Enqueue :: "string \<Rightarrow> rat \<Rightarrow> 'q \<Rightarrow> error option \<times> 'q"
  PopTopN :: "int \<Rightarrow> 'q \<Rightarrow> (error + string list) \<times> 'q"
  Len :: "'q \<Rightarrow> (error + int) \<times> 'q"
  Close :: "'q \<Rightarrow> error option \<times> 'q"

section \<open>The in-memory queue\<close>

text \<open>
  \<open>items\<close> is Go's \<open>map[string]float64\<close> as an association list with distinct keys. \<open>PopTopN\<close>
  sorts all entries by score and then by task id (\<open>sort.Slice\<close> with a total order on distinct
  keys, so the result does not depend on the order in which the map is ranged over), and
  deletes the ones it returns.
\<close>

record InMemoryReadyQueue =
  items :: "(string \<times> rat) list"

definition NewInMemoryReadyQueue :: InMemoryReadyQueue where
  "NewInMemoryReadyQueue = \<lparr>items = []\<rparr>"

definition mem_Enqueue :: "string \<Rightarrow> rat \<Rightarrow> InMemoryReadyQueue \<Rightarrow> error option \<times> InMemoryReadyQueue" where
  "mem_Enqueue taskID score q = (None, q\<lparr>items := AList.update taskID score (items q)\<rparr>)"

definition by_score :: "(string \<times> rat) list \<Rightarrow> (string \<times> rat) list" where
  "by_score xs = sort_key (\<lambda>(taskID, score). (score, taskID)) xs"

definition mem_PopTopN :: "int \<Rightarrow> InMemoryReadyQueue \<Rightarrow> (error + string list) \<times> InMemoryReadyQueue" where
  "mem_PopTopN n q =
     (if n \<le> 0 then (Inr [], q)
      else let out = map fst (take (nat n) (by_score (items q)))
           in (Inr out, q\<lparr>items := fold AList.delete out (items q)\<rparr>))"

definition mem_Len :: "InMemoryReadyQueue \<Rightarrow> (error + int) \<times> InMemoryReadyQueue" where
  "mem_Len q = (Inr (int (length (items q))), q)"

definition mem_Close :: "InMemoryReadyQueue \<Rightarrow> error option \<times> InMemoryReadyQueue" where
  "mem_Close q = (None, q)"

definition in_memory :: "InMemoryReadyQueue ready_queue_ops" where
  "in_memory = \<lparr>Enqueue = mem_Enqueue, PopTopN = mem_PopTopN, Len = mem_Len, Close = mem_Close\<rparr>"

definition mem_ok :: "InMemoryReadyQueue \<Rightarrow> bool" where
  "mem_ok q \<longleftrightarrow> distinct (map fst (items q))"

section \<open>The Redis queue\<close>

text \<open>
  The Redis server is not part of the program: its commands on the key of the queue are the
  fields of \<open>redis_client\<close>, over an opaque state \<open>'r\<close> that covers the server and the
  connection. A reply is a value or an error. A member of a reply is a string or not
  (\<open>redis.Z.Member\<close> is an \<open>interface{}\<close>), here an option.
\<close>

record 'r redis_client =
  ZAdd :: "string \<Rightarrow> rat \<Rightarrow> string \<Rightarrow> 'r \<Rightarrow> error option \<times> 'r"
  ZPopMin :: "string \<Rightarrow> int \<Rightarrow> 'r \<Rightarrow> (error + (string option \<times> rat) list) \<times> 'r"
  ZCard :: "string \<Rightarrow> 'r \<Rightarrow> (error + int) \<times> 'r"
  Ping :: "'r \<Rightarrow> error option \<times> 'r"
  CloseClient :: "'r \<Rightarrow> error option \<times> 'r"

record RedisConfig =
  Addr :: string
  Password :: string
  DB :: int
  Key :: string

text \<open>\<open>NewRedisReadyQueue\<close> checks the address, defaults the key and pings the server.\<close>

definition NewRedisReadyQueue ::
  "'r redis_client \<Rightarrow> RedisConfig \<Rightarrow> 'r \<Rightarrow> (error + string) \<times> 'r" where
  "NewRedisReadyQueue client cfg r =
     (if TrimSpace (Addr cfg) = [] then (Inl (Errorf ''redis address is required''), r)
      else let key = (if TrimSpace (Key cfg) = [] then ''tasks:pending'' else Key cfg)
           in case Ping client r of
                (Some e, r') \<Rightarrow> (Inl e, r')
              | (None, r') \<Rightarrow> (Inr key, r'))"

definition redis_Enqueue ::
  "'r redis_client \<Rightarrow> string \<Rightarrow> string \<Rightarrow> rat \<Rightarrow> 'r \<Rightarrow> error option \<times> 'r" where
  "redis_Enqueue client key taskID score r = ZAdd client key score taskID r"

definition redis_PopTopN ::
  "'r redis_client \<Rightarrow> string \<Rightarrow> int \<Rightarrow> 'r \<Rightarrow> (error + string list) \<times> 'r" where
  "redis_PopTopN client key n r =
     (if n \<le> 0 then (Inr [], r)
      else case ZPopMin client key n r of
             (Inl e, r') \<Rightarrow> (Inl e, r')
           | (Inr zs, r') \<Rightarrow> (Inr (List.map_filter fst zs), r'))"

definition redis_Len :: "'r redis_client \<Rightarrow> string \<Rightarrow> 'r \<Rightarrow> (error + int) \<times> 'r" where
  "redis_Len client key r = ZCard client key r"

definition redis_Close :: "'r redis_client \<Rightarrow> 'r \<Rightarrow> error option \<times> 'r" where
  "redis_Close client r = CloseClient client r"

definition redis_queue :: "'r redis_client \<Rightarrow> string \<Rightarrow> 'r ready_queue_ops" where
  "redis_queue client key = \<lparr>Enqueue = redis_Enqueue client key, PopTopN = redis_PopTopN client key,
     Len = redis_Len client key, Close = redis_Close client\<rparr>"

text \<open>
  What the program relies on of the server: \<open>members\<close> are the members of a key's sorted set; a
  command touches its own key only, \<open>ZADD\<close> adds at most its member, \<open>ZPOPMIN\<close> replies with
  members it removes. An error leaves open whether the command took effect.
\<close>

definition redis_server :: "'r redis_client \<Rightarrow> (string \<Rightarrow> 'r \<Rightarrow> string set) \<Rightarrow> bool" where
  "redis_server client members \<longleftrightarrow>
     (\<forall>k s m r. members k (snd (ZAdd client k s m r)) \<subseteq> insert m (members k r)) \<and>
     (\<forall>k n r. members k (snd (ZPopMin client k n r)) \<subseteq> members k r) \<and>
     (\<forall>k n r zs. fst (ZPopMin client k n r) = Inr zs \<longrightarrow>
        {x. Some x \<in> fst ` set zs} \<subseteq> members k r)"

section \<open>The contracts\<close>

locale ready_queue =
  fixes ops :: "'q ready_queue_ops"
    and ids :: "'q \<Rightarrow> string set"
  assumes enqueue_ids: "ids (snd (Enqueue ops i s q)) \<subseteq> insert i (ids q)"
    and pop_ids: "ids (snd (PopTopN ops n q)) \<subseteq> ids q"
    and pop_members: "fst (PopTopN ops n q) = Inr xs \<Longrightarrow> set xs \<subseteq> ids q"
begin

lemma enqueue_idsD: "Enqueue ops i s q = (r, q') \<Longrightarrow> x \<in> ids q' \<Longrightarrow> x = i \<or> x \<in> ids q"
  using enqueue_ids [of i s q] by auto

lemma pop_idsD: "PopTopN ops n q = (r, q') \<Longrightarrow> x \<in> ids q' \<Longrightarrow> x \<in> ids q"
  using pop_ids [of n q] by auto

lemma pop_membersD: "PopTopN ops n q = (Inr xs, q') \<Longrightarrow> x \<in> set xs \<Longrightarrow> x \<in> ids q"
  using pop_members [of n q xs] by auto

text \<open>Ids come from earlier calls: a predicate on ids that holds for all that are put in
  holds for all that come out.\<close>

lemma pop_all: "(\<forall>x \<in> ids q. P x) \<Longrightarrow> PopTopN ops n q = (Inr xs, q') \<Longrightarrow> list_all P xs \<and> (\<forall>x \<in> ids q'. P x)"
  by (auto simp: list_all_iff dest: pop_idsD pop_membersD)

end

text \<open>The order in which entries leave a queue: by score, ties by id.\<close>

definition before :: "string \<times> rat \<Rightarrow> string \<times> rat \<Rightarrow> bool" where
  "before a b \<longleftrightarrow> (snd a, fst a) < (snd b, fst b)"

locale exact_ready_queue =
  fixes ops :: "'q ready_queue_ops"
    and contents :: "'q \<Rightarrow> (string \<rightharpoonup> rat)"
    and inv :: "'q \<Rightarrow> bool"
  assumes enqueue_exact: "inv q \<Longrightarrow> Enqueue ops i s q = (r, q') \<Longrightarrow>
        r = None \<and> inv q' \<and> contents q' = (contents q)(i \<mapsto> s)"
    and pop_exact: "inv q \<Longrightarrow> PopTopN ops n q = (popped, q') \<Longrightarrow>
        \<exists>xs. popped = Inr xs \<and> inv q' \<and> distinct xs \<and> set xs \<subseteq> dom (contents q) \<and>
          contents q' = contents q |` (- set xs) \<and>
          length xs = min (nat n) (card (dom (contents q))) \<and>
          sorted_wrt (\<lambda>i j. before (i, the (contents q i)) (j, the (contents q j))) xs \<and>
          (\<forall>i \<in> set xs. \<forall>j \<in> dom (contents q'). before (i, the (contents q i)) (j, the (contents q j)))"
    and len_exact: "inv q \<Longrightarrow> Len ops q = (Inr (int (card (dom (contents q)))), q)"
begin

lemma enqueue_then_pop_all:
  assumes "inv q" and "Enqueue ops i s q = (r, q1)" and "PopTopN ops n q1 = (Inr xs, q2)"
    and "card (dom (contents q1)) \<le> nat n" and "finite (dom (contents q))"
  shows "i \<in> set xs \<and> dom (contents q2) = {}"
proof -
  from enqueue_exact [OF assms(1,2)] have inv1: "inv q1" and c1: "contents q1 = (contents q)(i \<mapsto> s)"
    by auto
  from pop_exact [OF inv1 assms(3)] assms(4)
  have xs: "distinct xs" "set xs \<subseteq> dom (contents q1)" "contents q2 = contents q1 |` (- set xs)"
    "length xs = card (dom (contents q1))" by auto
  have "finite (dom (contents q1))" using assms(5) c1 by simp
  then have "set xs = dom (contents q1)"
    using xs by (intro card_subset_eq) (auto simp: distinct_card)
  then show ?thesis using c1 xs(3) by auto
qed

end

section \<open>The in-memory queue meets both contracts\<close>

lemma before_iff: "before = (\<lambda>a b. (case a of (i, s) \<Rightarrow> (s, i)) < (case b of (i, s) \<Rightarrow> (s, i)))"
  by (simp add: before_def fun_eq_iff case_prod_beta)

lemma by_score_set [simp]: "set (by_score xs) = set xs"
  by (simp add: by_score_def)

lemma by_score_mset: "mset (by_score xs) = mset xs"
  by (simp add: by_score_def)

lemma by_score_distinct: "distinct (map fst xs) \<Longrightarrow> distinct (map fst (by_score xs))"
  by (metis by_score_mset mset_map mset_eq_imp_distinct_iff)

lemma by_score_sorted:
  assumes "distinct (map fst xs)"
  shows "sorted_wrt before (by_score xs)"
proof -
  have "sorted (map (\<lambda>(i, s). (s, i)) (by_score xs))" by (simp add: by_score_def)
  moreover have "distinct (map (\<lambda>(i, s). (s, i)) (by_score xs))"
    using by_score_distinct [OF assms]
    by (auto simp: distinct_map inj_on_def)
  ultimately have "sorted_wrt (<) (map (\<lambda>(i, s). (s, i)) (by_score xs))"
    by (simp add: strict_sorted_iff)
  then show ?thesis
    by (simp only: sorted_wrt_map before_iff)
qed

text \<open>Any sorting routine with this comparison yields the same list: the order is strict and total.\<close>

lemma by_score_unique:
  assumes "distinct (map fst xs)" and "mset ys = mset xs" and "sorted_wrt before ys"
  shows "ys = by_score xs"
proof -
  let ?k = "\<lambda>(i, s). (s, i :: string) :: rat \<times> string"
  have "sorted_wrt (<) (map ?k ys)" using assms(3)
    by (simp only: sorted_wrt_map before_iff)
  then have "sorted (map ?k ys)" by (simp add: strict_sorted_iff)
  moreover have "sorted (map ?k (by_score xs))" by (simp add: by_score_def)
  moreover have "mset (map ?k ys) = mset (map ?k (by_score xs))"
    using assms(2) by (simp add: by_score_mset)
  ultimately have "map ?k ys = map ?k (by_score xs)"
    by (metis properties_for_sort sort_key_id_if_sorted)
  moreover have "inj ?k" by (auto simp: inj_def)
  ultimately show ?thesis by (simp add: inj_map_eq_map)
qed

lemma map_of_fold_delete: "map_of (fold AList.delete ks xs) = map_of xs |` (- set ks)"
proof (induction ks arbitrary: xs)
  case (Cons k ks)
  then show ?case by (auto simp: delete_conv fun_eq_iff restrict_map_def)
qed (simp add: fun_eq_iff)

lemma distinct_fold_delete: "distinct (map fst xs) \<Longrightarrow> distinct (map fst (fold AList.delete ks xs))"
  by (induction ks arbitrary: xs) (simp_all add: distinct_delete)

lemma card_dom_map_of: "distinct (map fst xs) \<Longrightarrow> card (dom (map_of xs)) = length xs"
  by (metis dom_map_of_conv_image_fst distinct_card length_map set_map)

text \<open>What one pop of the in-memory queue does, with the entries in the order they leave.\<close>

lemma mem_PopTopN_pos:
  "0 < n \<Longrightarrow> mem_PopTopN n q =
     (Inr (map fst (take (nat n) (by_score (items q)))),
      q\<lparr>items := fold AList.delete (map fst (take (nat n) (by_score (items q)))) (items q)\<rparr>)"
  by (simp add: mem_PopTopN_def Let_def)

lemma delete_subset: "fst ` set (fold AList.delete ks xs) \<subseteq> fst ` set xs"
proof (induction ks arbitrary: xs)
  case (Cons k ks)
  have "fst ` set (AList.delete k xs) \<subseteq> fst ` set xs" by (rule dom_delete_subset)
  with Cons [of "AList.delete k xs"] show ?case by (simp add: subset_trans)
qed simp

lemma mem_pop_ids: "fst ` set (items (snd (mem_PopTopN n q))) \<subseteq> fst ` set (items q)"
  by (simp add: mem_PopTopN_def Let_def delete_subset)

lemma mem_pop_exact:
  assumes "mem_ok q" and "mem_PopTopN n q = (popped, q')"
  shows "\<exists>xs. popped = Inr xs \<and> mem_ok q' \<and> distinct xs \<and> set xs \<subseteq> dom (map_of (items q)) \<and>
    map_of (items q') = map_of (items q) |` (- set xs) \<and>
    length xs = min (nat n) (card (dom (map_of (items q)))) \<and>
    sorted_wrt (\<lambda>i j. before (i, the (map_of (items q) i)) (j, the (map_of (items q) j))) xs \<and>
    (\<forall>i \<in> set xs. \<forall>j \<in> dom (map_of (items q')).
       before (i, the (map_of (items q) i)) (j, the (map_of (items q) j)))"
proof (cases "0 < n")
  case False
  with assms show ?thesis by (auto simp: mem_PopTopN_def restrict_map_def)
next
  case True
  let ?ys = "by_score (items q)" and ?k = "nat n" and ?m = "map_of (items q)"
  let ?xs = "map fst (take ?k ?ys)"
  from assms(1) have d: "distinct (map fst (items q))" by (simp add: mem_ok_def)
  then have dys: "distinct (map fst ?ys)" by (rule by_score_distinct)
  have val: "?m (fst e) = Some (snd e)" if "e \<in> set ?ys" for e
  proof -
    from that have "(fst e, snd e) \<in> set (items q)" by simp
    with d show ?thesis by (rule map_of_is_SomeI)
  qed
  have top: "the (?m (fst e)) = snd e" if "e \<in> set (take ?k ?ys)" for e
    using val [OF in_set_takeD [OF that]] by (simp only: option.sel)
  have sorted: "sorted_wrt before (take ?k ?ys @ drop ?k ?ys)"
    using by_score_sorted [OF d] by simp
  have run: "popped = Inr ?xs" "items q' = fold AList.delete ?xs (items q)"
    using assms(2) True by (auto simp: mem_PopTopN_pos)
  have rest: "\<exists>e \<in> set (drop ?k ?ys). fst e = j" if "j \<in> dom (map_of (items q'))" for j
  proof -
    from that have j: "j \<in> dom ?m" "j \<notin> set ?xs"
      by (simp_all only: run map_of_fold_delete dom_restrict Int_iff Compl_iff not_False_eq_True)
    then obtain e where e: "e \<in> set ?ys" "fst e = j" by (auto simp: dom_map_of_conv_image_fst)
    moreover have "set ?ys = set (take ?k ?ys) \<union> set (drop ?k ?ys)"
      by (metis append_take_drop_id set_append)
    ultimately have "e \<in> set (take ?k ?ys) \<or> e \<in> set (drop ?k ?ys)" by blast
    with j(2) e(2) show ?thesis by auto
  qed
  have "mem_ok q'" using d by (simp add: mem_ok_def run distinct_fold_delete)
  moreover have "distinct ?xs" using dys by (simp add: take_map [symmetric] distinct_take)
  moreover have "set ?xs \<subseteq> dom ?m" by (auto dest!: in_set_takeD simp: dom_map_of_conv_image_fst)
  moreover have "map_of (items q') = ?m |` (- set ?xs)" by (simp add: run map_of_fold_delete)
  moreover have "length ?xs = min ?k (card (dom ?m))"
    using d by (simp add: card_dom_map_of min.commute by_score_def)
  moreover have "sorted_wrt (\<lambda>i j. before (i, the (?m i)) (j, the (?m j))) ?xs"
    using sorted unfolding sorted_wrt_map sorted_wrt_append
    by (elim conjE sorted_wrt_mono_rel [rotated]) (simp only: top prod.collapse)
  moreover have "before (i, the (?m i)) (j, the (?m j))"
    if i: "i \<in> set ?xs" and j: "j \<in> dom (map_of (items q'))" for i j
  proof -
    obtain a where a: "a \<in> set (take ?k ?ys)" "fst a = i" using i by auto
    obtain b where b: "b \<in> set (drop ?k ?ys)" "fst b = j" using rest [OF j] by blast
    have "before a b" using sorted a(1) b(1) unfolding sorted_wrt_append by blast
    moreover have "the (?m i) = snd a" "the (?m j) = snd b"
      using top [OF a(1)] val [OF in_set_dropD [OF b(1)]] a(2) b(2) by simp_all
    ultimately show ?thesis using a b by (metis prod.collapse)
  qed
  ultimately show ?thesis using run(1) by blast
qed

interpretation mem: ready_queue in_memory "\<lambda>q. fst ` set (items q)"
proof unfold_locales
  fix i s and q :: InMemoryReadyQueue
  show "fst ` set (items (snd (Enqueue in_memory i s q))) \<subseteq> insert i (fst ` set (items q))"
    by (simp add: in_memory_def mem_Enqueue_def dom_update)
next
  fix n and q :: InMemoryReadyQueue
  show "fst ` set (items (snd (PopTopN in_memory n q))) \<subseteq> fst ` set (items q)"
    by (simp add: in_memory_def mem_pop_ids)
next
  fix n and q :: InMemoryReadyQueue and xs
  assume "fst (PopTopN in_memory n q) = Inr xs"
  then show "set xs \<subseteq> fst ` set (items q)"
    by (force simp: in_memory_def mem_PopTopN_def Let_def split: if_splits dest!: in_set_takeD)
qed

interpretation memx: exact_ready_queue in_memory "\<lambda>q. map_of (items q)" mem_ok
proof unfold_locales
  fix q q' :: InMemoryReadyQueue and i s r
  assume "mem_ok q" and "Enqueue in_memory i s q = (r, q')"
  then show "r = None \<and> mem_ok q' \<and> map_of (items q') = (map_of (items q))(i \<mapsto> s)"
    by (auto simp: in_memory_def mem_Enqueue_def mem_ok_def update_conv' distinct_update)
next
  fix q q' :: InMemoryReadyQueue and n popped
  assume "mem_ok q" and "PopTopN in_memory n q = (popped, q')"
  then show "\<exists>xs. popped = Inr xs \<and> mem_ok q' \<and> distinct xs \<and> set xs \<subseteq> dom (map_of (items q)) \<and>
    map_of (items q') = map_of (items q) |` (- set xs) \<and>
    length xs = min (nat n) (card (dom (map_of (items q)))) \<and>
    sorted_wrt (\<lambda>i j. before (i, the (map_of (items q) i)) (j, the (map_of (items q) j))) xs \<and>
    (\<forall>i \<in> set xs. \<forall>j \<in> dom (map_of (items q')).
       before (i, the (map_of (items q) i)) (j, the (map_of (items q) j)))"
    by (intro mem_pop_exact) (simp_all add: in_memory_def)
next
  fix q :: InMemoryReadyQueue
  assume "mem_ok q"
  then show "Len in_memory q = (Inr (int (card (dom (map_of (items q))))), q)"
    by (simp add: in_memory_def mem_Len_def mem_ok_def card_dom_map_of)
qed

section \<open>The Redis queue meets the safety contract\<close>

lemma redis_meets_contract:
  assumes "redis_server client members"
  shows "ready_queue (redis_queue client key) (members key)"
proof
  show "members key (snd (Enqueue (redis_queue client key) i s q)) \<subseteq> insert i (members key q)" for i s q
    using assms by (simp add: redis_queue_def redis_Enqueue_def redis_server_def)
  show "members key (snd (PopTopN (redis_queue client key) n q)) \<subseteq> members key q" for n q
    using assms
    by (auto simp: redis_queue_def redis_PopTopN_def redis_server_def split: prod.splits sum.splits)
      (metis snd_conv subsetD)+
  show "set xs \<subseteq> members key q"
    if "fst (PopTopN (redis_queue client key) n q) = Inr xs" for n q xs
    using assms that
    by (auto simp: redis_queue_def redis_PopTopN_def redis_server_def map_filter_def
        split: prod.splits sum.splits if_splits) (metis (mono_tags, lifting) fst_conv image_eqI mem_Collect_eq option.sel subsetD option.exhaust_sel)
qed

section \<open>Properties\<close>

text \<open>
  C17: The in-memory queue is a priority queue of distinct ids: popping returns the n entries (all,
  if there are fewer) with the least scores, ties broken by id, in that order, removes exactly
  those and keeps the others with their scores; it never fails.
\<close>

theorem memory_queue_pops_least:
  assumes "mem_ok q" and "PopTopN in_memory n q = (popped, q')"
  shows "\<exists>xs. popped = Inr xs \<and> mem_ok q' \<and> distinct xs \<and> set xs \<subseteq> dom (map_of (items q)) \<and>
    map_of (items q') = map_of (items q) |` (- set xs) \<and>
    length xs = min (nat n) (card (dom (map_of (items q)))) \<and>
    sorted_wrt (\<lambda>i j. before (i, the (map_of (items q) i)) (j, the (map_of (items q) j))) xs \<and>
    (\<forall>i \<in> set xs. \<forall>j \<in> dom (map_of (items q')).
       before (i, the (map_of (items q) i)) (j, the (map_of (items q) j)))"
  using memx.pop_exact [OF assms] .

theorem memory_queue_pops_least_witness:
  "\<exists>xs. PopTopN in_memory 2 \<lparr>items = [(''7'', - 1), (''8'', - 3), (''9'', - 1)]\<rparr> =
     (Inr xs, \<lparr>items = [(''9'', - 1)]\<rparr>) \<and> distinct xs \<and> length xs = 2"
proof -
  let ?q = "\<lparr>items = [(''7'', - 1), (''8'', - 3), (''9'', - 1)]\<rparr>"
  have run: "PopTopN in_memory 2 ?q = (Inr [''8'', ''7''], \<lparr>items = [(''9'', - 1)]\<rparr>)"
    by (simp add: in_memory_def mem_PopTopN_def Let_def by_score_def less_list_code less_eq_list_code)
  have "mem_ok ?q" by (simp add: mem_ok_def)
  from memory_queue_pops_least [OF this run] run show ?thesis by auto
qed

text \<open>A Redis server for the witness: a finite map from keys to sorted sets.\<close>

definition toy_redis :: "(string \<Rightarrow> (string \<times> rat) list) redis_client" where
  "toy_redis = \<lparr>ZAdd = (\<lambda>k s m r. (None, r(k := AList.update m s (r k)))),
     ZPopMin = (\<lambda>k n r. (Inr (map (\<lambda>(m, s). (Some m, s)) (take (nat n) (by_score (r k)))),
        r(k := fold AList.delete (map fst (take (nat n) (by_score (r k)))) (r k)))),
     ZCard = (\<lambda>k r. (Inr (int (length (r k))), r)),
     Ping = (\<lambda>r. (None, r)), CloseClient = (\<lambda>r. (None, r))\<rparr>"

lemma toy_redis_server: "redis_server toy_redis (\<lambda>k r. fst ` set (r k))"
proof -
  have top: "a \<in> fst ` set (r k)" if "(a, b) \<in> set (take n (by_score (r k)))" for a b n k and r :: "string \<Rightarrow> (string \<times> rat) list"
    using in_set_takeD [OF that] by force
  show ?thesis
    unfolding redis_server_def
  proof (intro conjI allI impI)
    fix k n and r :: "string \<Rightarrow> (string \<times> rat) list"
    show "fst ` set (snd (ZPopMin toy_redis k n r) k) \<subseteq> fst ` set (r k)"
      using delete_subset by (simp add: toy_redis_def)
  next
    fix k n and r :: "string \<Rightarrow> (string \<times> rat) list" and zs
    assume "fst (ZPopMin toy_redis k n r) = Inr zs"
    then have "zs = map (\<lambda>(m, s). (Some m, s)) (take (nat n) (by_score (r k)))" by (simp add: toy_redis_def)
    then show "{x. Some x \<in> fst ` set zs} \<subseteq> fst ` set (r k)" using top by auto
  qed (simp add: toy_redis_def dom_update)
qed



end
