(* ===== verification/Store.thy ===== *)
theory Store imports
  ReadyQueue
begin

text \<open>
  The world the program runs in: the tables of \<open>db/schema.sql\<close>, the state of the ready queue, what
  the publisher has accepted, and the environment.

  Every interaction with the environment (a reading of the clock, a statement, a begin or a
  commit, a range over a Go map) has a number, \<open>tick\<close>, and an \<open>env\<close> says how each one goes: what
  the clock shows, whether the statement's reply is lost (before or after it took effect), which
  rows other transactions hold locked, in which order rows or keys come when the program leaves
  the order open. A theorem for every \<open>env\<close> is a theorem for every behaviour of the environment.
\<close>

section \<open>State\<close>

record database =
  orders :: "OrderModel list"
  counters :: "CounterModel list"
  staff :: "StaffModel list"
  staff_skills :: "StaffSkillModel list"
  machines :: "MachineModel list"
  recipe_steps :: "RecipeStepModel list"
  recipe_step_dependencies :: "RecipeStepDependencyModel list"
  tasks :: "TaskModel list"
  task_dependencies :: "TaskDependencyModel list"
  domain_events :: "DomainEventModel list"
  orders_seq :: nat
  tasks_seq :: nat
  domain_events_seq :: nat

record 'q world =
  db :: database
  aborted :: bool
  queue :: 'q
  published :: "Message list"
  tick :: nat

text \<open>
  \<open>fault env n\<close> is \<open>Some (done, msg)\<close> when interaction \<open>n\<close> ends with the driver error \<open>msg\<close>, with
  \<open>done\<close> telling whether the statement (or commit) took effect nevertheless. \<open>deliver env n\<close> is
  the same for the broker, and \<open>cancelled env n\<close> tells whether the request's context is done.
\<close>

record env =
  clock :: "nat \<Rightarrow> int"
  fault :: "nat \<Rightarrow> (bool \<times> string) option"
  deliver :: "nat \<Rightarrow> (bool \<times> error) option"
  cancelled :: "nat \<Rightarrow> bool"
  row_locked :: "nat \<Rightarrow> nat \<Rightarrow> bool"
  row_rank :: "nat \<Rightarrow> nat \<Rightarrow> nat"
  key_rank :: "nat \<Rightarrow> string \<Rightarrow> nat"
  int_rank :: "nat \<Rightarrow> nat \<Rightarrow> int \<Rightarrow> nat"

section \<open>The clock and open orders\<close>

definition Now :: "env \<Rightarrow> ('q world, int) act" where
  "Now env = (\<lambda>w. (Inr (clock env (tick w)), w\<lparr>tick := Suc (tick w)\<rparr>))"

text \<open>A range over a map visits its keys in an order of the runtime's choice.\<close>

definition range_keys :: "env \<Rightarrow> string list \<Rightarrow> ('q world, string list) act" where
  "range_keys env ks = (\<lambda>w. (Inr (sort_key (key_rank env (tick w)) ks), w\<lparr>tick := Suc (tick w)\<rparr>))"

text \<open>A query without ORDER BY returns its rows in an order of the database's choice.\<close>

definition any_order :: "env \<Rightarrow> nat \<Rightarrow> ('r \<Rightarrow> nat) \<Rightarrow> 'r list \<Rightarrow> 'r list" where
  "any_order env n key rows = sort_key (row_rank env n \<circ> key) rows"

lemma any_order_set [simp]: "set (any_order env n key rows) = set rows"
  by (simp add: any_order_def)

lemma any_order_mset [simp]: "mset (any_order env n key rows) = mset rows"
  by (simp add: any_order_def)

section \<open>Statements and transactions\<close>

type_synonym 'a stmt = "nat \<Rightarrow> database \<Rightarrow> (error + 'a) \<times> database"

text \<open>A statement on its own: committed at once.\<close>

definition statement :: "env \<Rightarrow> 'a stmt \<Rightarrow> ('q world, 'a) act" where
  "statement env body = (\<lambda>w.
     let n = tick w; w1 = w\<lparr>tick := Suc n\<rparr>
     in case fault env n of
          None \<Rightarrow> (case body n (db w) of (r, d) \<Rightarrow> (r, w1\<lparr>db := d\<rparr>))
        | Some (took_effect, msg) \<Rightarrow>
            (Inl (DriverError msg), if took_effect then w1\<lparr>db := snd (body n (db w))\<rparr> else w1))"

text \<open>
  A statement of an open transaction. A failed one aborts the transaction: PostgreSQL refuses
  every later statement of it. A query without rows is no failure of the statement
  (\<open>ErrNotFound\<close> is made by the client library).
\<close>

definition tx_statement :: "env \<Rightarrow> 'a stmt \<Rightarrow> ('q world, 'a) act" where
  "tx_statement env body = (\<lambda>w.
     if aborted w then (Inl (DatabaseError ''current transaction is aborted''), w)
     else case statement env body w of
            (Inl e, w') \<Rightarrow> (Inl e, w'\<lparr>aborted := (e \<noteq> ErrNotFound)\<rparr>)
          | (Inr x, w') \<Rightarrow> (Inr x, w'))"

text \<open>Rolling back restores every table; sequences do not go back.\<close>

definition rollback :: "database \<Rightarrow> 'q world \<Rightarrow> 'q world" where
  "rollback d w = w\<lparr>db := d\<lparr>orders_seq := orders_seq (db w), tasks_seq := tasks_seq (db w),
     domain_events_seq := domain_events_seq (db w)\<rparr>, aborted := False\<rparr>"

text \<open>
  \<open>gorm\<close>'s \<open>Transaction\<close>: begin, run the body, roll back when it returns an error and commit
  otherwise. A commit whose reply is lost may have taken effect. Only the tables are rolled
  back: effects of the body on the queue or the broker stay.
\<close>

definition transaction :: "env \<Rightarrow> ('q world, 'a) act \<Rightarrow> ('q world, 'a) act" where
  "transaction env body = (\<lambda>w.
     let w0 = w\<lparr>tick := Suc (tick w), aborted := False\<rparr>
     in case fault env (tick w) of
          Some (_, msg) \<Rightarrow> (Inl (DriverError msg), w0)
        | None \<Rightarrow>
           (case body w0 of
              (Inl e, w1) \<Rightarrow> (Inl e, rollback (db w) w1)
            | (Inr x, w1) \<Rightarrow>
               (let w2 = w1\<lparr>tick := Suc (tick w1)\<rparr>
                in if aborted w1
                   then (Inl (DatabaseError ''commit unexpectedly resulted in rollback''), rollback (db w) w2)
                   else case fault env (tick w1) of
                          None \<Rightarrow> (Inr x, w2)
                        | Some (True, msg) \<Rightarrow> (Inl (DriverError msg), w2)
                        | Some (False, msg) \<Rightarrow> (Inl (DriverError msg), rollback (db w) w2))))"

section \<open>SQL\<close>

definition query :: "(nat \<Rightarrow> database \<Rightarrow> error + 'a) \<Rightarrow> 'a stmt" where
  "query f = (\<lambda>n d. (f n d, d))"

definition modify :: "(nat \<Rightarrow> database \<Rightarrow> error + database) \<Rightarrow> unit stmt" where
  "modify f = (\<lambda>n d. case f n d of Inl e \<Rightarrow> (Inl e, d) | Inr d' \<Rightarrow> (Inr (), d'))"

text \<open>\<open>First\<close>: the first row by primary key, or record not found.\<close>

definition sql_first :: "('r \<Rightarrow> bool) \<Rightarrow> ('r \<Rightarrow> nat) \<Rightarrow> 'r list \<Rightarrow> error + 'r" where
  "sql_first P key rows =
     (case sort_key key (filter P rows) of [] \<Rightarrow> Inl ErrNotFound | r # _ \<Rightarrow> Inr r)"

definition sql_update :: "('r \<Rightarrow> bool) \<Rightarrow> ('r \<Rightarrow> error + 'r) \<Rightarrow> 'r list \<Rightarrow> error + 'r list" where
  "sql_update P f rows = map_result (\<lambda>r. if P r then f r else Inr r) rows"

fun map_sum_right :: "('a \<Rightarrow> 'b) \<Rightarrow> error + 'a \<Rightarrow> error + 'b" where
  "map_sum_right f (Inl e) = Inl e"
| "map_sum_right f (Inr x) = Inr (f x)"

definition update_tasks :: "(TaskModel \<Rightarrow> bool) \<Rightarrow> (TaskModel \<Rightarrow> error + TaskModel) \<Rightarrow> database \<Rightarrow> error + database" where
  "update_tasks P f d = map_sum_right (\<lambda>ts. d\<lparr>tasks := ts\<rparr>) (sql_update P f (tasks d))"

definition update_orders :: "(OrderModel \<Rightarrow> bool) \<Rightarrow> (OrderModel \<Rightarrow> error + OrderModel) \<Rightarrow> database \<Rightarrow> error + database" where
  "update_orders P f d = map_sum_right (\<lambda>os. d\<lparr>orders := os\<rparr>) (sql_update P f (orders d))"

definition update_counters :: "(CounterModel \<Rightarrow> bool) \<Rightarrow> (CounterModel \<Rightarrow> error + CounterModel) \<Rightarrow> database \<Rightarrow> error + database" where
  "update_counters P f d = map_sum_right (\<lambda>cs. d\<lparr>counters := cs\<rparr>) (sql_update P f (counters d))"

definition update_machines :: "(MachineModel \<Rightarrow> bool) \<Rightarrow> (MachineModel \<Rightarrow> error + MachineModel) \<Rightarrow> database \<Rightarrow> error + database" where
  "update_machines P f d = map_sum_right (\<lambda>ms. d\<lparr>machines := ms\<rparr>) (sql_update P f (machines d))"

definition update_staff :: "(StaffModel \<Rightarrow> bool) \<Rightarrow> (StaffModel \<Rightarrow> error + StaffModel) \<Rightarrow> database \<Rightarrow> error + database" where
  "update_staff P f d = map_sum_right (\<lambda>ss. d\<lparr>staff := ss\<rparr>) (sql_update P f (staff d))"

definition update_events :: "(DomainEventModel \<Rightarrow> bool) \<Rightarrow> (DomainEventModel \<Rightarrow> error + DomainEventModel) \<Rightarrow> database \<Rightarrow> error + database" where
  "update_events P f d = map_sum_right (\<lambda>es. d\<lparr>domain_events := es\<rparr>) (sql_update P f (domain_events d))"

text \<open>\<open>GREATEST(x + delta, 0)\<close> on an INTEGER column.\<close>

definition greatest_add :: "int \<Rightarrow> int \<Rightarrow> error + int" where
  "greatest_add x delta = map_sum_right (\<lambda>y. max y 0) (int4 (x + delta))"

section \<open>How they run\<close>

lemma Now_run [run_simps]:
  "Now env w = (r, w') \<longleftrightarrow> r = Inr (clock env (tick w)) \<and> w' = w\<lparr>tick := Suc (tick w)\<rparr>"
  by (auto simp: Now_def)

lemma range_keys_run [run_simps]:
  "range_keys env ks w = (r, w') \<longleftrightarrow>
     r = Inr (sort_key (key_rank env (tick w)) ks) \<and> w' = w\<lparr>tick := Suc (tick w)\<rparr>"
  by (auto simp: range_keys_def)

lemma statement_Inr [run_simps]:
  "statement env body w = (Inr x, w') \<longleftrightarrow>
     fault env (tick w) = None \<and>
     (\<exists>d. body (tick w) (db w) = (Inr x, d) \<and> w' = w\<lparr>tick := Suc (tick w), db := d\<rparr>)"
  by (auto simp: statement_def Let_def split: option.splits prod.splits)

lemma tx_statement_Inr [run_simps]:
  "tx_statement env body w = (Inr x, w') \<longleftrightarrow>
     \<not> aborted w \<and> fault env (tick w) = None \<and>
     (\<exists>d. body (tick w) (db w) = (Inr x, d) \<and> w' = w\<lparr>tick := Suc (tick w), db := d\<rparr>)"
  by (auto simp: tx_statement_def statement_def Let_def split: option.splits prod.splits sum.splits)

lemma query_run [simp]: "query f n d = (r, d') \<longleftrightarrow> r = f n d \<and> d' = d"
  by (auto simp: query_def)

lemma modify_Inr [simp]: "modify f n d = (Inr u, d') \<longleftrightarrow> f n d = Inr d'"
  by (auto simp: modify_def split: sum.splits)

lemma map_sum_right_Inr [simp]: "map_sum_right f r = Inr y \<longleftrightarrow> (\<exists>x. r = Inr x \<and> y = f x)"
  by (cases r) auto

lemma map_sum_right_Inl [simp]: "map_sum_right f r = Inl e \<longleftrightarrow> r = Inl e"
  by (cases r) auto

lemma sql_first_Inr: "sql_first P key rows = Inr r \<Longrightarrow> r \<in> set rows \<and> P r"
proof -
  assume "sql_first P key rows = Inr r"
  then obtain rs where "sort_key key (filter P rows) = r # rs"
    by (auto simp: sql_first_def split: list.splits)
  then have "r \<in> set (filter P rows)" by (metis list.set_intros(1) set_sort)
  then show ?thesis by simp
qed

lemma sql_first_Inl: "sql_first P key rows = Inl e \<longleftrightarrow> e = ErrNotFound \<and> (\<forall>r \<in> set rows. \<not> P r)"
proof -
  have "sort_key key (filter P rows) = [] \<longleftrightarrow> filter P rows = []"
    by (metis length_0_conv length_sort)
  then show ?thesis
    by (auto simp: sql_first_def filter_empty_conv split: list.splits)
qed

text \<open>A lookup by primary key finds the row with that key.\<close>

lemma sql_first_key:
  assumes "distinct (map key rows)" and "r \<in> set rows" and "P r" and "\<And>r'. P r' \<Longrightarrow> key r' = key r"
  shows "sql_first P key rows = Inr r"
proof -
  have "filter P rows = filter (\<lambda>r'. key r' = key r) (filter P rows)"
    using assms(4) by (auto simp: filter_id_conv intro!: filter_cong)
  also have "\<dots> = filter P (filter (\<lambda>r'. key r' = key r) rows)"
    by (simp add: conj_commute)
  also have "\<dots> = [r]" using filter_unique_key [OF assms(1,2)] assms(3) by simp
  finally show ?thesis by (simp add: sql_first_def)
qed

lemma sql_update_Inr:
  "sql_update P f rows = Inr rows' \<longleftrightarrow>
     list_all2 (\<lambda>r r'. if P r then f r = Inr r' else r' = r) rows rows'"
  by (auto simp: sql_update_def map_result_Inr_iff list_all2_conv_all_nth)

text \<open>An update whose new rows are given by a total function.\<close>

lemma sql_update_pure:
  "sql_update P (\<lambda>r. Inr (g r)) rows = Inr (map (\<lambda>r. if P r then g r else r) rows)"
  unfolding sql_update_def by (rule map_result_total) simp

lemma sql_update_eq:
  assumes "sql_update P f rows = Inr rows'" and "\<And>r r'. P r \<Longrightarrow> f r = Inr r' \<Longrightarrow> r' = g r"
  shows "rows' = map (\<lambda>r. if P r then g r else r) rows"
proof -
  have "list_all2 (\<lambda>r r'. r' = (if P r then g r else r)) rows rows'"
    using assms(1) unfolding sql_update_Inr by (rule list_all2_mono) (auto dest: assms(2))
  then show ?thesis by (auto simp: list_all2_conv_all_nth intro!: nth_equalityI)
qed

lemma greatest_add_Inr: "greatest_add x delta = Inr y \<Longrightarrow> y = max (x + delta) 0"
  by (auto simp: greatest_add_def int4_Inr)

section \<open>What transactions and statements keep\<close>

text \<open>
  A transaction either commits the effect of a body that succeeded with every statement in
  order, or leaves every table as it was; nothing else is possible. The queue and the publisher
  are as the body left them in each case.
\<close>

definition same_tables :: "database \<Rightarrow> database \<Rightarrow> bool" where
  "same_tables d d' \<longleftrightarrow> (\<exists>a b c. d' = d\<lparr>orders_seq := a, tasks_seq := b, domain_events_seq := c\<rparr>)"

lemma same_tables_refl [simp]: "same_tables d d"
  unfolding same_tables_def by (rule exI [of _ "orders_seq d"], rule exI [of _ "tasks_seq d"],
    rule exI [of _ "domain_events_seq d"]) simp

lemma same_tables_eqs:
  assumes "same_tables d d'"
  shows "orders d' = orders d" "counters d' = counters d" "staff d' = staff d"
    "staff_skills d' = staff_skills d" "machines d' = machines d" "recipe_steps d' = recipe_steps d"
    "recipe_step_dependencies d' = recipe_step_dependencies d" "tasks d' = tasks d"
    "task_dependencies d' = task_dependencies d" "domain_events d' = domain_events d"
  using assms by (auto simp: same_tables_def)

lemma same_tables_rollback: "same_tables d (db (rollback d w))"
  by (auto simp: rollback_def same_tables_def)

lemma rollback_sel [simp]:
  "queue (rollback d w) = queue w" "published (rollback d w) = published w" "tick (rollback d w) = tick w"
  by (simp_all add: rollback_def)

lemma transaction_Inr:
  "transaction env body w = (Inr x, w') \<Longrightarrow>
     \<exists>w1. body (w\<lparr>tick := Suc (tick w), aborted := False\<rparr>) = (Inr x, w1) \<and> \<not> aborted w1 \<and>
       w' = w1\<lparr>tick := Suc (tick w1)\<rparr>"
  by (auto simp: transaction_def Let_def split: option.splits prod.splits sum.splits if_splits bool.splits)

lemma transaction_outcome:
  assumes "transaction env body w = (r, w')"
  obtains (not_begun) "same_tables (db w) (db w')" "queue w' = queue w" "published w' = published w" "\<exists>e. r = Inl e"
  | (committed) x w1 where "body (w\<lparr>tick := Suc (tick w), aborted := False\<rparr>) = (Inr x, w1)"
      "\<not> aborted w1" "db w' = db w1" "queue w' = queue w1" "published w' = published w1"
      "r = Inr x \<or> (\<exists>e. r = Inl e)"
  | (rolled_back) q w1 where "body (w\<lparr>tick := Suc (tick w), aborted := False\<rparr>) = (q, w1)"
      "same_tables (db w) (db w')" "queue w' = queue w1" "published w' = published w1" "\<exists>e. r = Inl e"
proof (cases "fault env (tick w)")
  case (Some f)
  then show ?thesis
    using assms by (intro not_begun) (auto simp: transaction_def Let_def split: prod.splits)
next
  case None
  obtain q w1 where b: "body (w\<lparr>tick := Suc (tick w), aborted := False\<rparr>) = (q, w1)" by force
  show ?thesis
  proof (cases "\<exists>x. q = Inr x \<and> \<not> aborted w1 \<and> (\<forall>msg. fault env (tick w1) \<noteq> Some (False, msg))")
    case True
    then obtain x where "q = Inr x" "\<not> aborted w1" by blast
    then show ?thesis
      using assms None b True
      by (intro committed [of x w1])
        (auto simp: transaction_def Let_def split: option.splits bool.splits)
  next
    case False
    then show ?thesis
      using assms None b same_tables_rollback [of "db w"]
      by (intro rolled_back [of q w1])
        (auto simp: transaction_def Let_def split: option.splits sum.splits bool.splits if_splits)
  qed
qed

lemma statement_outcome:
  assumes "statement env body w = (r, w')"
  obtains "db w' = db w" "queue w' = queue w" "published w' = published w" "\<exists>e. r = Inl e"
  | q where "body (tick w) (db w) = (q, db w')" "queue w' = queue w" "published w' = published w"
      "r = q \<or> (\<exists>e. r = Inl e)"
proof (cases "fault env (tick w)")
  case None
  then show ?thesis
    using assms that(2) by (auto simp: statement_def Let_def split: prod.splits)
next
  case (Some f)
  obtain b msg where f: "f = (b, msg)" by force
  show ?thesis
  proof (cases b)
    case True
    then show ?thesis
      using assms Some f that(2) [of "fst (body (tick w) (db w))"]
      by (auto simp: statement_def Let_def)
  next
    case False
    then show ?thesis using assms Some f that(1) by (auto simp: statement_def Let_def)
  qed
qed

section \<open>Effects of successful statements\<close>

text \<open>
  \<open>quiet w w'\<close>: only the tables and the number of interactions may differ. A successful statement
  of a transaction is quiet, so the effect of a body is the composition of the effects of its
  statements on the tables.
\<close>

definition quiet :: "'q world \<Rightarrow> 'q world \<Rightarrow> bool" where
  "quiet w w' \<longleftrightarrow> queue w' = queue w \<and> published w' = published w \<and> aborted w' = aborted w"

lemma quiet_refl [simp]: "quiet w w"
  by (simp add: quiet_def)

lemma quiet_trans: "quiet w w' \<Longrightarrow> quiet w' w'' \<Longrightarrow> quiet w w''"
  by (simp add: quiet_def)

lemma quiet_queue: "quiet w w' \<Longrightarrow> queue w' = queue w"
  by (simp add: quiet_def)

lemma tx_query_Inr:
  "tx_statement env (query f) w = (Inr x, w') \<Longrightarrow> f (tick w) (db w) = Inr x \<and> db w' = db w \<and> quiet w w'"
  by (auto simp: tx_statement_Inr quiet_def)

lemma tx_modify_Inr:
  "tx_statement env (modify f) w = (Inr x, w') \<Longrightarrow> f (tick w) (db w) = Inr (db w') \<and> quiet w w'"
  by (auto simp: tx_statement_Inr quiet_def)

lemma query_Inr:
  "statement env (query f) w = (Inr x, w') \<Longrightarrow> f (tick w) (db w) = Inr x \<and> db w' = db w \<and> quiet w w'"
  by (auto simp: statement_Inr quiet_def)

lemma modify_stmt_Inr:
  "statement env (modify f) w = (Inr x, w') \<Longrightarrow> f (tick w) (db w) = Inr (db w') \<and> quiet w w'"
  by (auto simp: statement_Inr quiet_def)

lemma Now_Inr: "Now env w = (Inr t, w') \<Longrightarrow> t = clock env (tick w) \<and> db w' = db w \<and> quiet w w'"
  by (auto simp: Now_run quiet_def)

lemmas effect_dests = tx_query_Inr tx_modify_Inr query_Inr modify_stmt_Inr Now_Inr

text \<open>An update by a total row function that agrees with the fallible one where it succeeds.\<close>

definition map_where :: "('r \<Rightarrow> bool) \<Rightarrow> ('r \<Rightarrow> 'r) \<Rightarrow> 'r list \<Rightarrow> 'r list" where
  "map_where P g rows = map (\<lambda>r. if P r then g r else r) rows"

lemma map_where_Nil [simp]: "map_where P g [] = []"
  by (simp add: map_where_def)

lemma map_where_append: "map_where P g (xs @ ys) = map_where P g xs @ map_where P g ys"
  by (simp add: map_where_def)

lemma map_where_set: "r \<in> set (map_where P g rows) \<longleftrightarrow> (\<exists>r0 \<in> set rows. r = (if P r0 then g r0 else r0))"
  by (auto simp: map_where_def)

lemma map_where_keys:
  "(\<And>r. r \<in> set rows \<Longrightarrow> P r \<Longrightarrow> k (g r) = k r) \<Longrightarrow> map k (map_where P g rows) = map k rows"
  by (auto simp: map_where_def)

lemma map_where_id: "(\<And>r. r \<in> set rows \<Longrightarrow> P r \<Longrightarrow> g r = r) \<Longrightarrow> map_where P g rows = rows"
  by (auto simp: map_where_def intro: map_idI)

lemma sql_update_map_where:
  "sql_update P f rows = Inr rows' \<Longrightarrow> (\<And>r r'. P r \<Longrightarrow> f r = Inr r' \<Longrightarrow> r' = g r) \<Longrightarrow>
     rows' = map_where P g rows"
  unfolding map_where_def by (rule sql_update_eq)

text \<open>How many rows satisfy a predicate after the row with one key has changed.\<close>

definition count :: "('r \<Rightarrow> bool) \<Rightarrow> 'r list \<Rightarrow> int" where
  "count P rows = int (length (filter P rows))"

lemma count_simps [simp]:
  "count P [] = 0"
  "count P (r # rows) = of_bool (P r) + count P rows"
  "count P (xs @ ys) = count P xs + count P ys"
  by (simp_all add: count_def)

lemma count_nonneg [simp]: "0 \<le> count P rows"
  by (simp add: count_def)

lemma count_pos: "0 < count P rows \<longleftrightarrow> (\<exists>r \<in> set rows. P r)"
  by (auto simp: count_def filter_empty_conv)

lemma count_zero: "count P rows = 0 \<longleftrightarrow> (\<forall>r \<in> set rows. \<not> P r)"
  by (auto simp: count_def filter_empty_conv)

lemma count_cong: "(\<And>r. r \<in> set rows \<Longrightarrow> P r \<longleftrightarrow> Q r) \<Longrightarrow> count P rows = count Q rows"
  by (auto simp: count_def intro!: arg_cong [where f = length] filter_cong)

lemma count_map_where_other:
  "(\<And>r. r \<in> set rows \<Longrightarrow> R r \<Longrightarrow> P (g r) \<longleftrightarrow> P r) \<Longrightarrow> count P (map_where R g rows) = count P rows"
  by (induction rows) (auto simp: map_where_def)

lemma count_update:
  assumes "distinct (map key rows)" and "r \<in> set rows"
  shows "count P (map_where (\<lambda>x. key x = key r) g rows) = count P rows - of_bool (P r) + of_bool (P (g r))"
  using assms
proof (induction rows)
  case (Cons x rows)
  show ?case
  proof (cases "x = r")
    case True
    then have "r \<notin> set rows" "\<forall>y \<in> set rows. key y \<noteq> key r"
      using Cons.prems by (auto simp: image_iff)
    then have "map_where (\<lambda>x. key x = key r) g rows = rows" by (intro map_where_id) auto
    then show ?thesis using True by (simp add: map_where_def)
  next
    case False
    then have "r \<in> set rows" "key x \<noteq> key r" using Cons.prems by (auto simp: image_iff)
    then show ?thesis using Cons by (simp add: map_where_def)
  qed
qed simp

end
