(* ===== verification/EventRepo.thy ===== *)
theory EventRepo imports
  Store
begin

text \<open>
  \<open>internal/repository/event_repo.go\<close>: the outbox table \<open>domain_events\<close>. An event is stored with
  its JSON as payload; the dispatcher locks a batch of events that are due, and marks each as
  published or to be retried.
\<close>

section \<open>Operations\<close>

text \<open>The insert both entry points share: the next value of the sequence is the key.\<close>

definition insert_event :: "env \<Rightarrow> string \<Rightarrow> string \<Rightarrow> DomainEvent \<Rightarrow> unit stmt" where
  "insert_event env aggregateType aggregateID event = (\<lambda>n d.
     let id = Suc (domain_events_seq d);
         d1 = d\<lparr>domain_events_seq := id\<rparr>;
         rec = \<lparr>e_ID = id, e_AggregateType = aggregateType, e_AggregateID = aggregateID,
                e_EventType = Type event, e_Payload = Marshal_event event, e_Attempts = 0,
                e_NextRetryAt = None, e_PublishedAt = None, e_LastError = None,
                e_CreatedAt = clock env n\<rparr>
     in if id \<in> e_ID ` set (domain_events d) then (Inl (DatabaseError ''duplicate key''), d1)
        else (Inr (), d1\<lparr>domain_events := domain_events d @ [rec]\<rparr>))"

definition InsertDomainEvent :: "env \<Rightarrow> string \<Rightarrow> string \<Rightarrow> DomainEvent \<Rightarrow> ('q world, unit) act" where
  "InsertDomainEvent env aggregateType aggregateID event =
     tx_statement env (insert_event env aggregateType aggregateID event)"

definition InsertDomainEventNoTx :: "env \<Rightarrow> string \<Rightarrow> string \<Rightarrow> DomainEvent \<Rightarrow> ('q world, unit) act" where
  "InsertDomainEventNoTx env aggregateType aggregateID event =
     statement env (insert_event env aggregateType aggregateID event)"

definition due :: "int \<Rightarrow> DomainEventModel \<Rightarrow> bool" where
  "due now e \<longleftrightarrow> e_PublishedAt e = None \<and>
     (case e_NextRetryAt e of None \<Rightarrow> True | Some t \<Rightarrow> t \<le> now)"

definition LockPendingOutboxEvents :: "env \<Rightarrow> int \<Rightarrow> int \<Rightarrow> ('q world, DomainEventModel list) act" where
  "LockPendingOutboxEvents env now limit =
     (let limit = (if limit \<le> 0 then 100 else limit)
      in tx_statement env (query (\<lambda>n d.
           Inr (take (nat limit) (sort_key e_ID
             (filter (\<lambda>e. due now e \<and> \<not> row_locked env n (e_ID e)) (domain_events d)))))))"

definition MarkOutboxPublished :: "env \<Rightarrow> nat \<Rightarrow> int \<Rightarrow> ('q world, unit) act" where
  "MarkOutboxPublished env eventID publishedAt =
     tx_statement env (modify (\<lambda>n. update_events (\<lambda>e. e_ID e = eventID)
       (\<lambda>e. Inr (e\<lparr>e_PublishedAt := Some publishedAt, e_LastError := None, e_NextRetryAt := None\<rparr>))))"

definition MarkOutboxRetry :: "env \<Rightarrow> nat \<Rightarrow> string \<Rightarrow> int \<Rightarrow> ('q world, unit) act" where
  "MarkOutboxRetry env eventID errText nextRetryAt =
     tx_statement env (modify (\<lambda>n. update_events (\<lambda>e. e_ID e = eventID)
       (\<lambda>e. map_sum_right (\<lambda>a. e\<lparr>e_Attempts := a, e_LastError := Some errText,
                                  e_NextRetryAt := Some nextRetryAt\<rparr>)
              (int4 (e_Attempts e + 1)))))"

section \<open>Effects\<close>

text \<open>\<open>emits d d' ev\<close>: the outbox of \<open>d'\<close> is that of \<open>d\<close> with one new unpublished row for \<open>ev\<close>.\<close>

definition event_row :: "nat \<Rightarrow> string \<Rightarrow> string \<Rightarrow> DomainEvent \<Rightarrow> int \<Rightarrow> DomainEventModel" where
  "event_row eventID aggregateType aggregateID event createdAt =
     \<lparr>e_ID = eventID, e_AggregateType = aggregateType, e_AggregateID = aggregateID,
      e_EventType = Type event, e_Payload = Marshal_event event, e_Attempts = 0,
      e_NextRetryAt = None, e_PublishedAt = None, e_LastError = None, e_CreatedAt = createdAt\<rparr>"

definition add_event :: "string \<Rightarrow> string \<Rightarrow> DomainEvent \<Rightarrow> int \<Rightarrow> database \<Rightarrow> database" where
  "add_event aggregateType aggregateID event createdAt d =
     d\<lparr>domain_events_seq := Suc (domain_events_seq d),
       domain_events := domain_events d @
         [event_row (Suc (domain_events_seq d)) aggregateType aggregateID event createdAt]\<rparr>"

lemma insert_event_Inr:
  "insert_event env ty i ev n d = (Inr u, d') \<longleftrightarrow>
     Suc (domain_events_seq d) \<notin> e_ID ` set (domain_events d) \<and> d' = add_event ty i ev (clock env n) d"
  by (auto simp: insert_event_def add_event_def event_row_def Let_def split: if_splits)

lemma InsertDomainEvent_Inr:
  assumes "InsertDomainEvent env ty i ev w = (Inr u, w')"
  shows "\<exists>t. db w' = add_event ty i ev t (db w) \<and>
    Suc (domain_events_seq (db w)) \<notin> e_ID ` set (domain_events (db w)) \<and> quiet w w'"
  using assms unfolding InsertDomainEvent_def
  by (auto simp: tx_statement_Inr insert_event_Inr quiet_def)

lemma InsertDomainEventNoTx_Inr:
  assumes "InsertDomainEventNoTx env ty i ev w = (Inr u, w')"
  shows "\<exists>t. db w' = add_event ty i ev t (db w) \<and>
    Suc (domain_events_seq (db w)) \<notin> e_ID ` set (domain_events (db w)) \<and> quiet w w'"
  using assms unfolding InsertDomainEventNoTx_def
  by (auto simp: statement_Inr insert_event_Inr quiet_def)

end
