(* ===== verification/AllocationRepo.thy ===== *)
theory AllocationRepo imports
  Store
begin

text \<open>
  \<open>internal/repository/allocation_repo.go\<close>: the statements of the allocation transaction that lock
  a task, its counter, a machine and a member of staff, and record the assignment.

  \<open>FOR UPDATE SKIP LOCKED\<close> leaves out rows that another transaction holds (\<open>row_locked\<close>);
  \<open>FOR UPDATE\<close> waits for the row, so nothing is left out.
\<close>

section \<open>Operations\<close>

definition LockTaskForAssignment :: "env \<Rightarrow> nat \<Rightarrow> ('q world, TaskModel) act" where
  "LockTaskForAssignment env taskID =
     tx_statement env (query (\<lambda>n d.
       sql_first (\<lambda>t. t_ID t = taskID \<and> t_Status t = TaskUnassigned \<and> t_PendingDeps t = 0 \<and>
                      \<not> row_locked env n (t_ID t)) t_ID (tasks d)))"

text \<open>The join with \<open>staff_skills\<close> gives a member of staff once per matching skill row.\<close>

definition on_shift :: "int \<Rightarrow> StaffModel \<Rightarrow> bool" where
  "on_shift now s \<longleftrightarrow> \<not> s_OnBreak s \<and> s_ShiftStart s \<le> now \<and> now \<le> s_ShiftEnd s \<and>
     s_ActiveTasks s < s_MaxParallel s"

definition eligible_staff :: "nat \<Rightarrow> int \<Rightarrow> database \<Rightarrow> StaffModel list" where
  "eligible_staff counterID now d =
     concat (map (\<lambda>s. map (\<lambda>_. s) (filter (\<lambda>sk. k_StaffID sk = s_ID s \<and> k_CounterID sk = counterID)
                                         (staff_skills d)))
               (filter (on_shift now) (staff d)))"

text \<open>Scanning a NUMERIC column into a \<open>float64\<close> field rounds it.\<close>

definition scan_staff :: "StaffModel \<Rightarrow> StaffModel" where
  "scan_staff s = s\<lparr>s_EfficiencyMultiplier := f64 (s_EfficiencyMultiplier s)\<rparr>"

definition FindEligibleStaff :: "env \<Rightarrow> nat \<Rightarrow> int \<Rightarrow> ('q world, StaffModel list) act" where
  "FindEligibleStaff env counterID now =
     tx_statement env (query (\<lambda>n d.
       Inr (any_order env n s_ID (map scan_staff (eligible_staff counterID now d)))))"

definition LockCounter :: "env \<Rightarrow> nat \<Rightarrow> ('q world, CounterModel) act" where
  "LockCounter env counterID =
     tx_statement env (query (\<lambda>n d. sql_first (\<lambda>c. c_ID c = counterID) c_ID (counters d)))"

definition LockMachineForTask :: "env \<Rightarrow> nat \<Rightarrow> nat \<Rightarrow> ('q world, MachineModel) act" where
  "LockMachineForTask env machineID counterID =
     tx_statement env (query (\<lambda>n d.
       sql_first (\<lambda>m. m_ID m = machineID \<and> m_CounterID m = counterID \<and> m_IsUp m \<and>
                      m_InUse m < m_Capacity m \<and> \<not> row_locked env n (m_ID m)) m_ID (machines d)))"

definition LockStaff :: "env \<Rightarrow> nat \<Rightarrow> ('q world, StaffModel) act" where
  "LockStaff env staffID =
     tx_statement env (query (\<lambda>n d.
       map_sum_right scan_staff (sql_first (\<lambda>s. s_ID s = staffID) s_ID (staff d))))"

definition UpdateTaskAssignment :: "env \<Rightarrow> nat \<Rightarrow> nat \<Rightarrow> nat \<Rightarrow> int \<Rightarrow> ('q world, unit) act" where
  "UpdateTaskAssignment env taskID staffID machineID assignedAt =
     tx_statement env (modify (\<lambda>n. update_tasks (\<lambda>t. t_ID t = taskID)
       (\<lambda>t. map_sum_right (\<lambda>v. t\<lparr>t_AssignedStaffID := Some staffID, t_AssignedMachineID := Some machineID,
                                  t_Status := TaskAssigned, t_AssignedAt := Some assignedAt,
                                  t_AssignmentVersion := v\<rparr>)
              (int4 (t_AssignmentVersion t + 1)))))"

definition IncrementStaffActiveTasks :: "env \<Rightarrow> nat \<Rightarrow> int \<Rightarrow> ('q world, unit) act" where
  "IncrementStaffActiveTasks env staffID delta =
     tx_statement env (modify (\<lambda>n. update_staff (\<lambda>s. s_ID s = staffID)
       (\<lambda>s. map_sum_right (\<lambda>a. s\<lparr>s_ActiveTasks := a\<rparr>) (greatest_add (s_ActiveTasks s) delta))))"

section \<open>What the queries find\<close>

lemma eligible_staff_set:
  "s \<in> set (eligible_staff counterID now d) \<longleftrightarrow>
     s \<in> set (staff d) \<and> on_shift now s \<and>
     (\<exists>sk \<in> set (staff_skills d). k_StaffID sk = s_ID s \<and> k_CounterID sk = counterID)"
  by (auto simp: eligible_staff_def set_join simp del: set_concat)

lemma scan_staff_sel [simp]:
  "s_ID (scan_staff s) = s_ID s" "s_ActiveTasks (scan_staff s) = s_ActiveTasks s"
  "s_MaxParallel (scan_staff s) = s_MaxParallel s" "s_ShiftStart (scan_staff s) = s_ShiftStart s"
  "s_ShiftEnd (scan_staff s) = s_ShiftEnd s" "s_OnBreak (scan_staff s) = s_OnBreak s"
  "s_ActiveSeconds (scan_staff s) = s_ActiveSeconds s"
  by (simp_all add: scan_staff_def)

section \<open>Effects\<close>

text \<open>The row of a task after its assignment, and the staff table after a change of active tasks.\<close>

definition assign_row :: "nat \<Rightarrow> nat \<Rightarrow> int \<Rightarrow> TaskModel \<Rightarrow> TaskModel" where
  "assign_row staffID machineID assignedAt t = t\<lparr>t_AssignedStaffID := Some staffID,
     t_AssignedMachineID := Some machineID, t_Status := TaskAssigned,
     t_AssignedAt := Some assignedAt, t_AssignmentVersion := t_AssignmentVersion t + 1\<rparr>"

definition set_tasks :: "(TaskModel \<Rightarrow> bool) \<Rightarrow> (TaskModel \<Rightarrow> TaskModel) \<Rightarrow> database \<Rightarrow> database" where
  "set_tasks P g d = d\<lparr>tasks := map_where P g (tasks d)\<rparr>"

definition adjust_staff :: "nat \<Rightarrow> int \<Rightarrow> database \<Rightarrow> database" where
  "adjust_staff staffID delta d = d\<lparr>staff := map_where (\<lambda>s. s_ID s = staffID)
     (\<lambda>s. s\<lparr>s_ActiveTasks := max (s_ActiveTasks s + delta) 0\<rparr>) (staff d)\<rparr>"

lemma update_tasks_Inr:
  "update_tasks P f d = Inr d' \<Longrightarrow> (\<And>r r'. P r \<Longrightarrow> f r = Inr r' \<Longrightarrow> r' = g r) \<Longrightarrow> d' = set_tasks P g d"
  by (auto simp: update_tasks_def set_tasks_def dest!: sql_update_map_where)

lemma update_staff_Inr:
  "update_staff P f d = Inr d' \<Longrightarrow> (\<And>r r'. P r \<Longrightarrow> f r = Inr r' \<Longrightarrow> r' = g r) \<Longrightarrow>
     d' = d\<lparr>staff := map_where P g (staff d)\<rparr>"
  by (auto simp: update_staff_def dest!: sql_update_map_where)

lemma LockTaskForAssignment_Inr:
  "LockTaskForAssignment env taskID w = (Inr t, w') \<Longrightarrow>
     t \<in> set (tasks (db w)) \<and> t_ID t = taskID \<and> t_Status t = TaskUnassigned \<and> t_PendingDeps t = 0 \<and>
     db w' = db w \<and> quiet w w'"
  by (auto simp: LockTaskForAssignment_def dest!: tx_query_Inr sql_first_Inr)

lemma LockCounter_Inr:
  "LockCounter env counterID w = (Inr c, w') \<Longrightarrow>
     c \<in> set (counters (db w)) \<and> c_ID c = counterID \<and> db w' = db w \<and> quiet w w'"
  by (auto simp: LockCounter_def dest!: tx_query_Inr sql_first_Inr)

lemma FindEligibleStaff_Inr:
  "FindEligibleStaff env counterID now w = (Inr xs, w') \<Longrightarrow>
     set xs = scan_staff ` set (eligible_staff counterID now (db w)) \<and> db w' = db w \<and> quiet w w'"
  by (auto simp: FindEligibleStaff_def dest!: tx_query_Inr)

lemma LockMachineForTask_Inr:
  "LockMachineForTask env machineID counterID w = (Inr m, w') \<Longrightarrow>
     m \<in> set (machines (db w)) \<and> m_ID m = machineID \<and> m_CounterID m = counterID \<and> m_IsUp m \<and>
     m_InUse m < m_Capacity m \<and> db w' = db w \<and> quiet w w'"
  by (auto simp: LockMachineForTask_def dest!: tx_query_Inr sql_first_Inr)

lemma LockStaff_Inr:
  "LockStaff env staffID w = (Inr s, w') \<Longrightarrow> db w' = db w \<and> quiet w w'"
  by (auto simp: LockStaff_def dest!: tx_query_Inr)

lemma UpdateTaskAssignment_Inr:
  assumes "UpdateTaskAssignment env taskID staffID machineID t w = (Inr u, w')"
  shows "db w' = set_tasks (\<lambda>x. t_ID x = taskID) (assign_row staffID machineID t) (db w) \<and> quiet w w'"
  using assms unfolding UpdateTaskAssignment_def
  by (auto dest!: tx_modify_Inr intro!: update_tasks_Inr simp: assign_row_def int4_Inr)

lemma IncrementStaffActiveTasks_Inr:
  assumes "IncrementStaffActiveTasks env staffID delta w = (Inr u, w')"
  shows "db w' = adjust_staff staffID delta (db w) \<and> quiet w w'"
  using assms unfolding IncrementStaffActiveTasks_def adjust_staff_def
  by (auto dest!: tx_modify_Inr intro!: update_staff_Inr dest: greatest_add_Inr)

end
