(* ===== verification/TaskRepo.thy ===== *)
theory TaskRepo imports
  EventRepo
  AllocationRepo
begin

text \<open>
  \<open>internal/repository/task_lifecycle_repo.go\<close>: the status changes of a task, the accounting of
  counters, machines and staff, the release of dependent tasks, and the requeue of assignments
  that were never started.
\<close>

section \<open>Status changes\<close>

definition task_text :: "nat \<Rightarrow> string \<Rightarrow> string" where
  "task_text taskID s = ''task '' @ FormatUint taskID @ s"

definition lock_task :: "env \<Rightarrow> nat \<Rightarrow> ('q world, TaskModel) act" where
  "lock_task env taskID =
     tx_statement env (query (\<lambda>n d. sql_first (\<lambda>t. t_ID t = taskID) t_ID (tasks d)))"

definition UpdateTaskStatusStarted :: "env \<Rightarrow> nat \<Rightarrow> int \<Rightarrow> ('q world, TaskModel) act" where
  "UpdateTaskStatusStarted env taskID startedAt =
     and_then (lock_task env taskID) (\<lambda>task.
     if t_Status task \<noteq> TaskAssigned then fail (Errorf (task_text (t_ID task) '' is not ASSIGNED''))
     else and_then (tx_statement env (modify (\<lambda>n. update_tasks (\<lambda>t. t_ID t = t_ID task)
              (\<lambda>t. Inr (t\<lparr>t_Status := TaskStarted, t_StartedAt := Some startedAt\<rparr>))))) (\<lambda>_.
          ok (task\<lparr>t_Status := TaskStarted, t_StartedAt := Some startedAt\<rparr>)))"

definition UpdateTaskStatusCompleted :: "env \<Rightarrow> nat \<Rightarrow> int \<Rightarrow> ('q world, TaskModel) act" where
  "UpdateTaskStatusCompleted env taskID completedAt =
     and_then (lock_task env taskID) (\<lambda>task.
     if t_Status task \<noteq> TaskStarted then fail (Errorf (task_text (t_ID task) '' is not STARTED''))
     else and_then (tx_statement env (modify (\<lambda>n. update_tasks (\<lambda>t. t_ID t = t_ID task)
              (\<lambda>t. Inr (t\<lparr>t_Status := TaskCompleted, t_CompletedAt := Some completedAt\<rparr>))))) (\<lambda>_.
          ok (task\<lparr>t_Status := TaskCompleted, t_CompletedAt := Some completedAt\<rparr>)))"

section \<open>Accounting\<close>

definition IncrementCounterUsage :: "env \<Rightarrow> nat \<Rightarrow> int \<Rightarrow> ('q world, unit) act" where
  "IncrementCounterUsage env counterID delta =
     and_then (Now env) (\<lambda>t.
     tx_statement env (modify (\<lambda>n. update_counters (\<lambda>c. c_ID c = counterID)
       (\<lambda>c. map_sum_right (\<lambda>u. c\<lparr>c_InUse := u, c_UpdatedAt := t\<rparr>) (greatest_add (c_InUse c) delta)))))"

definition IncrementMachineUsage :: "env \<Rightarrow> nat \<Rightarrow> int \<Rightarrow> ('q world, unit) act" where
  "IncrementMachineUsage env machineID delta =
     and_then (Now env) (\<lambda>t.
     tx_statement env (modify (\<lambda>n. update_machines (\<lambda>m. m_ID m = machineID)
       (\<lambda>m. map_sum_right (\<lambda>u. m\<lparr>m_InUse := u, m_UpdatedAt := t\<rparr>) (greatest_add (m_InUse m) delta)))))"

text \<open>
  The seconds a task took, at least one, and the estimate over them as the performance. The
  efficiency is computed in the database in NUMERIC arithmetic and stored with three decimals.
\<close>

definition actual_secs :: "int \<Rightarrow> int \<Rightarrow> int" where
  "actual_secs startedAt completedAt =
     (let a = int_of_float (Seconds (Sub completedAt startedAt)) in if a \<le> 0 then 1 else a)"

definition new_efficiency :: "rat \<Rightarrow> rat \<Rightarrow> error + rat" where
  "new_efficiency eff perf = numeric_6_3 (eff * (85 / 100) + perf * (15 / 100))"

definition UpdateStaffEfficiencyAndActive ::
  "env \<Rightarrow> nat \<Rightarrow> int \<Rightarrow> int \<Rightarrow> int \<Rightarrow> int \<Rightarrow> ('q world, unit) act" where
  "UpdateStaffEfficiencyAndActive env staffID activeDelta estimateSecs startedAt completedAt =
     (let actualSecs = actual_secs startedAt completedAt;
          perf = fdiv (float_of_int estimateSecs) (float_of_int actualSecs)
      in tx_statement env (modify (\<lambda>n. update_staff (\<lambda>s. s_ID s = staffID)
           (\<lambda>s. case greatest_add (s_ActiveTasks s) activeDelta of Inl e \<Rightarrow> Inl e | Inr a \<Rightarrow>
                (case int8 (s_ActiveSeconds s + actualSecs) of Inl e \<Rightarrow> Inl e | Inr secs \<Rightarrow>
                (case new_efficiency (s_EfficiencyMultiplier s) perf of Inl e \<Rightarrow> Inl e | Inr eff \<Rightarrow>
                 Inr (s\<lparr>s_ActiveTasks := a, s_ActiveSeconds := secs,
                        s_EfficiencyMultiplier := eff\<rparr>)))))))"

section \<open>Dependent tasks\<close>

definition depends_on :: "database \<Rightarrow> nat \<Rightarrow> nat \<Rightarrow> bool" where
  "depends_on d taskID depID \<longleftrightarrow>
     (\<exists>td \<in> set (task_dependencies d). td_TaskID td = taskID \<and> td_DependsOnTaskID td = depID)"

definition DecrementDependentPendingDeps :: "env \<Rightarrow> nat \<Rightarrow> ('q world, TaskModel list) act" where
  "DecrementDependentPendingDeps env completedTaskID =
     and_then (tx_statement env (modify (\<lambda>n d. update_tasks
         (\<lambda>t. depends_on d (t_ID t) completedTaskID \<and> t_Status t = TaskUnassigned)
         (\<lambda>t. map_sum_right (\<lambda>p. t\<lparr>t_PendingDeps := p\<rparr>) (greatest_add (t_PendingDeps t) (- 1))) d))) (\<lambda>_.
     tx_statement env (query (\<lambda>n d.
       Inr (any_order env n t_ID (concat (map (\<lambda>t.
              map (\<lambda>_. t) (filter (\<lambda>td. td_TaskID td = t_ID t \<and> td_DependsOnTaskID td = completedTaskID)
                               (task_dependencies d)))
            (filter (\<lambda>t. t_Status t = TaskUnassigned \<and> t_PendingDeps t = 0) (tasks d))))))))"

definition GetTaskByID :: "env \<Rightarrow> nat \<Rightarrow> ('q world, TaskModel) act" where
  "GetTaskByID env taskID =
     statement env (query (\<lambda>n d. sql_first (\<lambda>t. t_ID t = taskID) t_ID (tasks d)))"

section \<open>Requeue of expired assignments\<close>

definition expired :: "int \<Rightarrow> TaskModel \<Rightarrow> bool" where
  "expired cutoff t \<longleftrightarrow> t_Status t = TaskAssigned \<and> t_StartedAt t = None \<and>
     (case t_AssignedAt t of None \<Rightarrow> False | Some a \<Rightarrow> a < cutoff)"

definition release_task :: "TaskModel \<Rightarrow> TaskModel" where
  "release_task t = t\<lparr>t_Status := TaskUnassigned, t_AssignedStaffID := None,
     t_AssignedMachineID := None, t_AssignedAt := None, t_ClaimedBy := None, t_ClaimedUntil := None\<rparr>"

definition requeue_one :: "env \<Rightarrow> TaskModel \<Rightarrow> TaskModel list \<Rightarrow> ('q world, TaskModel list) act" where
  "requeue_one env task requeued =
     and_then (tx_statement env (modify (\<lambda>n. update_tasks (\<lambda>t. t_ID t = t_ID task)
         (\<lambda>t. Inr (release_task t))))) (\<lambda>_.
     and_then (case t_AssignedStaffID task of None \<Rightarrow> ok ()
         | Some sid \<Rightarrow> tx_statement env (modify (\<lambda>n. update_staff (\<lambda>s. s_ID s = sid)
             (\<lambda>s. map_sum_right (\<lambda>a. s\<lparr>s_ActiveTasks := a\<rparr>) (greatest_add (s_ActiveTasks s) (- 1)))))) (\<lambda>_.
     and_then (IncrementCounterUsage env (t_CounterID task) (- 1)) (\<lambda>_.
     and_then (case t_AssignedMachineID task of None \<Rightarrow> ok ()
         | Some mid \<Rightarrow> IncrementMachineUsage env mid (- 1)) (\<lambda>_.
     and_then (Now env) (\<lambda>t.
     and_then (InsertDomainEvent env ''task'' (FormatUint (t_ID task))
         \<lparr>Type = EventTaskRequeued, Timestamp = Unix t, Payload = FormatUint (t_ID task)\<rparr>) (\<lambda>_.
     ok (requeued @ [task\<lparr>t_Status := TaskUnassigned, t_AssignedStaffID := None,
           t_AssignedMachineID := None, t_AssignedAt := None\<rparr>])))))))"

definition RequeueExpiredAssignedTasks :: "env \<Rightarrow> int \<Rightarrow> int \<Rightarrow> ('q world, TaskModel list) act" where
  "RequeueExpiredAssignedTasks env cutoff limit =
     (let limit = (if limit \<le> 0 then 50 else limit)
      in transaction env (
           and_then (tx_statement env (query (\<lambda>n d.
               Inr (take (nat limit) (sort_key (the \<circ> t_AssignedAt) (any_order env n t_ID
                 (filter (\<lambda>t. expired cutoff t \<and> \<not> row_locked env n (t_ID t)) (tasks d)))))))) (\<lambda>ts.
           fold_act (requeue_one env) ts [])))"

section \<open>Effects\<close>

definition start_row :: "int \<Rightarrow> TaskModel \<Rightarrow> TaskModel" where
  "start_row startedAt t = t\<lparr>t_Status := TaskStarted, t_StartedAt := Some startedAt\<rparr>"

definition complete_row :: "int \<Rightarrow> TaskModel \<Rightarrow> TaskModel" where
  "complete_row completedAt t = t\<lparr>t_Status := TaskCompleted, t_CompletedAt := Some completedAt\<rparr>"

definition adjust_counter :: "nat \<Rightarrow> int \<Rightarrow> int \<Rightarrow> database \<Rightarrow> database" where
  "adjust_counter counterID delta t d = d\<lparr>counters := map_where (\<lambda>c. c_ID c = counterID)
     (\<lambda>c. c\<lparr>c_InUse := max (c_InUse c + delta) 0, c_UpdatedAt := t\<rparr>) (counters d)\<rparr>"

definition adjust_machine :: "nat \<Rightarrow> int \<Rightarrow> int \<Rightarrow> database \<Rightarrow> database" where
  "adjust_machine machineID delta t d = d\<lparr>machines := map_where (\<lambda>m. m_ID m = machineID)
     (\<lambda>m. m\<lparr>m_InUse := max (m_InUse m + delta) 0, m_UpdatedAt := t\<rparr>) (machines d)\<rparr>"

text \<open>The staff row after a completion; \<open>eff\<close> is what the NUMERIC column can hold.\<close>

definition credit_staff :: "nat \<Rightarrow> int \<Rightarrow> int \<Rightarrow> (rat \<Rightarrow> rat) \<Rightarrow> database \<Rightarrow> database" where
  "credit_staff staffID delta secs eff d = d\<lparr>staff := map_where (\<lambda>s. s_ID s = staffID)
     (\<lambda>s. s\<lparr>s_ActiveTasks := max (s_ActiveTasks s + delta) 0,
            s_ActiveSeconds := s_ActiveSeconds s + secs,
            s_EfficiencyMultiplier := eff (s_EfficiencyMultiplier s)\<rparr>) (staff d)\<rparr>"

definition release_deps :: "nat \<Rightarrow> database \<Rightarrow> database" where
  "release_deps completedTaskID d =
     set_tasks (\<lambda>t. depends_on d (t_ID t) completedTaskID \<and> t_Status t = TaskUnassigned)
       (\<lambda>t. t\<lparr>t_PendingDeps := max (t_PendingDeps t - 1) 0\<rparr>) d"

lemma update_counters_Inr:
  "update_counters P f d = Inr d' \<Longrightarrow> (\<And>r r'. P r \<Longrightarrow> f r = Inr r' \<Longrightarrow> r' = g r) \<Longrightarrow>
     d' = d\<lparr>counters := map_where P g (counters d)\<rparr>"
  by (auto simp: update_counters_def dest!: sql_update_map_where)

lemma update_machines_Inr:
  "update_machines P f d = Inr d' \<Longrightarrow> (\<And>r r'. P r \<Longrightarrow> f r = Inr r' \<Longrightarrow> r' = g r) \<Longrightarrow>
     d' = d\<lparr>machines := map_where P g (machines d)\<rparr>"
  by (auto simp: update_machines_def dest!: sql_update_map_where)

lemma lock_task_Inr:
  "lock_task env taskID w = (Inr t, w') \<Longrightarrow>
     t \<in> set (tasks (db w)) \<and> t_ID t = taskID \<and> db w' = db w \<and> quiet w w'"
  by (auto simp: lock_task_def dest!: tx_query_Inr sql_first_Inr)

lemma UpdateTaskStatusStarted_Inr:
  assumes "UpdateTaskStatusStarted env taskID now w = (Inr r, w')"
  shows "\<exists>t \<in> set (tasks (db w)). t_ID t = taskID \<and> t_Status t = TaskAssigned \<and> r = start_row now t \<and>
    db w' = set_tasks (\<lambda>x. t_ID x = taskID) (start_row now) (db w) \<and> quiet w w'"
  using assms unfolding UpdateTaskStatusStarted_def
  by (auto simp: and_then_Inr start_row_def split: if_splits dest!: lock_task_Inr tx_modify_Inr
      intro!: bexI update_tasks_Inr elim: quiet_trans)

lemma UpdateTaskStatusCompleted_Inr:
  assumes "UpdateTaskStatusCompleted env taskID now w = (Inr r, w')"
  shows "\<exists>t \<in> set (tasks (db w)). t_ID t = taskID \<and> t_Status t = TaskStarted \<and> r = complete_row now t \<and>
    db w' = set_tasks (\<lambda>x. t_ID x = taskID) (complete_row now) (db w) \<and> quiet w w'"
  using assms unfolding UpdateTaskStatusCompleted_def
  by (auto simp: and_then_Inr complete_row_def split: if_splits dest!: lock_task_Inr tx_modify_Inr
      intro!: bexI update_tasks_Inr elim: quiet_trans)

lemma IncrementCounterUsage_Inr:
  assumes "IncrementCounterUsage env counterID delta w = (Inr u, w')"
  shows "\<exists>t. db w' = adjust_counter counterID delta t (db w) \<and> quiet w w'"
proof -
  obtain t w1 where a: "Now env w = (Inr t, w1)"
    and b: "tx_statement env (modify (\<lambda>n. update_counters (\<lambda>c. c_ID c = counterID)
       (\<lambda>c. map_sum_right (\<lambda>u. c\<lparr>c_InUse := u, c_UpdatedAt := t\<rparr>) (greatest_add (c_InUse c) delta)))) w1 = (Inr u, w')"
    using assms unfolding IncrementCounterUsage_def and_then_Inr by blast
  note A = Now_Inr [OF a] and B = tx_modify_Inr [OF b]
  have "db w' = adjust_counter counterID delta t (db w1)"
    unfolding adjust_counter_def using B by (auto intro!: update_counters_Inr dest: greatest_add_Inr)
  then show ?thesis using A B by (auto elim: quiet_trans)
qed

lemma IncrementMachineUsage_Inr:
  assumes "IncrementMachineUsage env machineID delta w = (Inr u, w')"
  shows "\<exists>t. db w' = adjust_machine machineID delta t (db w) \<and> quiet w w'"
proof -
  obtain t w1 where a: "Now env w = (Inr t, w1)"
    and b: "tx_statement env (modify (\<lambda>n. update_machines (\<lambda>m. m_ID m = machineID)
       (\<lambda>m. map_sum_right (\<lambda>u. m\<lparr>m_InUse := u, m_UpdatedAt := t\<rparr>) (greatest_add (m_InUse m) delta)))) w1 = (Inr u, w')"
    using assms unfolding IncrementMachineUsage_def and_then_Inr by blast
  note A = Now_Inr [OF a] and B = tx_modify_Inr [OF b]
  have "db w' = adjust_machine machineID delta t (db w1)"
    unfolding adjust_machine_def using B by (auto intro!: update_machines_Inr dest: greatest_add_Inr)
  then show ?thesis using A B by (auto elim: quiet_trans)
qed

definition stored_efficiency :: "rat \<Rightarrow> rat \<Rightarrow> rat" where
  "stored_efficiency perf eff = (case new_efficiency eff perf of Inr r \<Rightarrow> r | Inl _ \<Rightarrow> eff)"

lemma UpdateStaffEfficiencyAndActive_Inr:
  assumes "UpdateStaffEfficiencyAndActive env staffID delta est startedAt completedAt w = (Inr u, w')"
  shows "db w' = credit_staff staffID delta (actual_secs startedAt completedAt)
      (stored_efficiency (fdiv (float_of_int est) (float_of_int (actual_secs startedAt completedAt)))) (db w) \<and>
    quiet w w'"
  using assms unfolding UpdateStaffEfficiencyAndActive_def Let_def credit_staff_def
  by (auto dest!: tx_modify_Inr intro!: update_staff_Inr dest: greatest_add_Inr
      simp: int8_Inr stored_efficiency_def split: sum.splits)

lemma DecrementDependentPendingDeps_Inr:
  assumes "DecrementDependentPendingDeps env taskID w = (Inr ready, w')"
  shows "db w' = release_deps taskID (db w) \<and> quiet w w' \<and>
    set ready = {t \<in> set (tasks (db w')). t_Status t = TaskUnassigned \<and> t_PendingDeps t = 0 \<and>
                                        depends_on (db w') (t_ID t) taskID}"
proof -
  obtain u w1 where a: "tx_statement env (modify (\<lambda>n d. update_tasks
         (\<lambda>t. depends_on d (t_ID t) taskID \<and> t_Status t = TaskUnassigned)
         (\<lambda>t. map_sum_right (\<lambda>p. t\<lparr>t_PendingDeps := p\<rparr>) (greatest_add (t_PendingDeps t) (- 1))) d)) w = (Inr u, w1)"
    and b: "tx_statement env (query (\<lambda>n d.
       Inr (any_order env n t_ID (concat (map (\<lambda>t.
              map (\<lambda>_. t) (filter (\<lambda>td. td_TaskID td = t_ID t \<and> td_DependsOnTaskID td = taskID)
                               (task_dependencies d)))
            (filter (\<lambda>t. t_Status t = TaskUnassigned \<and> t_PendingDeps t = 0) (tasks d))))))) w1 = (Inr ready, w')"
    using assms unfolding DecrementDependentPendingDeps_def and_then_Inr by blast
  note A = tx_modify_Inr [OF a] and B = tx_query_Inr [OF b]
  have "db w1 = release_deps taskID (db w)"
    unfolding release_deps_def using A by (auto intro!: update_tasks_Inr dest!: greatest_add_Inr)
  moreover have "set ready = {t \<in> set (tasks (db w')). t_Status t = TaskUnassigned \<and> t_PendingDeps t = 0 \<and>
                                        depends_on (db w') (t_ID t) taskID}"
    using B by (auto simp: set_join depends_on_def simp del: set_concat)
  ultimately show ?thesis using A B by (auto elim: quiet_trans)
qed

text \<open>The errors of the two status changes, one by one.\<close>

lemma lock_task_missing:
  assumes "\<not> aborted w" and "fault env (tick w) = None" and "taskID \<notin> t_ID ` set (tasks (db w))"
  shows "fst (lock_task env taskID w) = Inl ErrNotFound"
proof -
  have "sql_first (\<lambda>t. t_ID t = taskID) t_ID (tasks (db w)) = Inl ErrNotFound"
    using assms(3) by (auto simp: sql_first_Inl)
  then show ?thesis
    using assms by (simp add: lock_task_def tx_statement_def statement_def query_def Let_def)
qed

section \<open>Properties\<close>



end
