(* ===== verification/OrderRepo.thy ===== *)
theory OrderRepo imports
  TaskRepo
begin

text \<open>
  \<open>internal/repository/order_repo.go\<close>: an order and its tasks are created in one transaction; the
  dependencies and the counters of pending dependencies are separate statements; the status of
  an order follows its tasks.
\<close>

section \<open>Creation\<close>

definition insert_order :: "env \<Rightarrow> string \<Rightarrow> OrderModel stmt" where
  "insert_order env externalOrderID = (\<lambda>n d.
     let id = Suc (orders_seq d);
         d1 = d\<lparr>orders_seq := id\<rparr>;
         order = \<lparr>o_ID = id, o_ExternalOrderID = externalOrderID, o_Status = OrderConfirmed,
                  o_CreatedAt = clock env n\<rparr>
     in if id \<in> o_ID ` set (orders d) \<or> externalOrderID \<in> o_ExternalOrderID ` set (orders d)
        then (Inl (DatabaseError ''duplicate key''), d1)
        else (Inr order, d1\<lparr>orders := orders d @ [order]\<rparr>))"

definition insert_task :: "env \<Rightarrow> TaskModel \<Rightarrow> TaskModel stmt" where
  "insert_task env task = (\<lambda>n d.
     let id = Suc (tasks_seq d);
         d1 = d\<lparr>tasks_seq := id\<rparr>;
         row = task\<lparr>t_ID := id, t_CreatedAt := clock env n\<rparr>
     in if id \<in> t_ID ` set (tasks d) then (Inl (DatabaseError ''duplicate key''), d1)
        else if t_OrderID task \<notin> o_ID ` set (orders d) \<or> t_CounterID task \<notin> c_ID ` set (counters d) \<or>
                (case t_MachineID task of None \<Rightarrow> False | Some m \<Rightarrow> m \<notin> m_ID ` set (machines d))
        then (Inl (DatabaseError ''foreign key violation''), d1)
        else (Inr row, d1\<lparr>tasks := tasks d @ [row]\<rparr>))"

text \<open>Inserting rows of \<open>task_dependencies\<close>: one statement for all, refused as a whole.\<close>

definition dep_key :: "TaskDependencyModel \<Rightarrow> nat \<times> nat" where
  "dep_key td = (td_TaskID td, td_DependsOnTaskID td)"

definition insert_deps :: "TaskDependencyModel list \<Rightarrow> unit stmt" where
  "insert_deps deps = modify (\<lambda>n d.
     if \<not> distinct (map dep_key (task_dependencies d @ deps)) then Inl (DatabaseError ''duplicate key'')
     else if \<not> list_all (\<lambda>td. td_TaskID td \<in> t_ID ` set (tasks d) \<and>
                             td_DependsOnTaskID td \<in> t_ID ` set (tasks d)) deps
     then Inl (DatabaseError ''foreign key violation'')
     else Inr (d\<lparr>task_dependencies := task_dependencies d @ deps\<rparr>))"

definition create_task :: "env \<Rightarrow> nat \<Rightarrow> TaskModel \<Rightarrow> TaskModel list \<Rightarrow> ('q world, TaskModel list) act" where
  "create_task env orderID task done =
     and_then (tx_statement env (insert_task env (task\<lparr>t_OrderID := orderID, t_Status := TaskUnassigned\<rparr>)))
       (\<lambda>row. ok (done @ [row]))"

definition CreateOrderWithTasks ::
  "env \<Rightarrow> string \<Rightarrow> TaskModel list \<Rightarrow> TaskDependencyModel list \<Rightarrow>
     ('q world, OrderModel \<times> TaskModel list) act" where
  "CreateOrderWithTasks env externalOrderID ts deps =
     transaction env (
       and_then (tx_statement env (insert_order env externalOrderID)) (\<lambda>order.
       and_then (fold_act (create_task env (o_ID order)) ts []) (\<lambda>rows.
       and_then (for_each (\<lambda>d. tx_statement env (insert_deps [d])) deps) (\<lambda>_.
       ok (order, rows)))))"

definition InsertTaskDependencies :: "env \<Rightarrow> TaskDependencyModel list \<Rightarrow> ('q world, unit) act" where
  "InsertTaskDependencies env deps =
     (if deps = [] then ok () else statement env (insert_deps deps))"

text \<open>
  The grouped count joins \<open>task_dependencies\<close> with the tasks of the order; a task without a
  dependency is in no group and keeps its value.
\<close>

definition dep_count :: "database \<Rightarrow> nat \<Rightarrow> nat \<Rightarrow> int" where
  "dep_count d orderID taskID =
     int (length (concat (map (\<lambda>td. filter (\<lambda>t. t_ID t = td_TaskID td \<and> t_OrderID t = orderID) (tasks d))
       (filter (\<lambda>td. td_TaskID td = taskID) (task_dependencies d)))))"

definition RecalculatePendingDepsForOrder :: "env \<Rightarrow> nat \<Rightarrow> ('q world, unit) act" where
  "RecalculatePendingDepsForOrder env orderID =
     statement env (modify (\<lambda>n d. update_tasks (\<lambda>t. 0 < dep_count d orderID (t_ID t))
       (\<lambda>t. map_sum_right (\<lambda>p. t\<lparr>t_PendingDeps := p\<rparr>) (int4 (dep_count d orderID (t_ID t)))) d))"

definition ListOrderReadyTasks :: "env \<Rightarrow> nat \<Rightarrow> ('q world, TaskModel list) act" where
  "ListOrderReadyTasks env orderID =
     statement env (query (\<lambda>n d. Inr (sort_key t_ID
       (filter (\<lambda>t. t_OrderID t = orderID \<and> t_Status t = TaskUnassigned \<and> t_PendingDeps t = 0) (tasks d)))))"

section \<open>Status\<close>

definition CompleteOrderIfAllTasksDone :: "env \<Rightarrow> nat \<Rightarrow> ('q world, bool) act" where
  "CompleteOrderIfAllTasksDone env orderID =
     and_then (tx_statement env (query (\<lambda>n d.
       Inr (length (filter (\<lambda>t. t_OrderID t = orderID \<and> t_Status t \<noteq> TaskCompleted) (tasks d)))))) (\<lambda>remaining.
     if 0 < remaining then ok False
     else and_then (tx_statement env (modify (\<lambda>n. update_orders
            (\<lambda>or. o_ID or = orderID \<and> o_Status or \<noteq> OrderCompleted)
            (\<lambda>or. Inr (or\<lparr>o_Status := OrderCompleted\<rparr>))))) (\<lambda>_. ok True))"

definition MarkOrderInProgressIfConfirmed :: "env \<Rightarrow> nat \<Rightarrow> ('q world, unit) act" where
  "MarkOrderInProgressIfConfirmed env orderID =
     tx_statement env (modify (\<lambda>n. update_orders
       (\<lambda>or. o_ID or = orderID \<and> o_Status or = OrderConfirmed)
       (\<lambda>or. Inr (or\<lparr>o_Status := OrderInProgress\<rparr>))))"

definition MarkOrderPartCompletedIfNotDone :: "env \<Rightarrow> nat \<Rightarrow> ('q world, unit) act" where
  "MarkOrderPartCompletedIfNotDone env orderID =
     tx_statement env (modify (\<lambda>n. update_orders
       (\<lambda>or. o_ID or = orderID \<and> o_Status or \<in> {OrderConfirmed, OrderInProgress})
       (\<lambda>or. Inr (or\<lparr>o_Status := OrderPartCompleted\<rparr>))))"

section \<open>Effects\<close>

definition set_order_status :: "nat \<Rightarrow> OrderStatus set \<Rightarrow> OrderStatus \<Rightarrow> database \<Rightarrow> database" where
  "set_order_status orderID from st d = d\<lparr>orders :=
     map_where (\<lambda>or. o_ID or = orderID \<and> o_Status or \<in> from) (\<lambda>or. or\<lparr>o_Status := st\<rparr>) (orders d)\<rparr>"

definition all_done :: "nat \<Rightarrow> database \<Rightarrow> bool" where
  "all_done orderID d \<longleftrightarrow> (\<forall>t \<in> set (tasks d). t_OrderID t = orderID \<longrightarrow> t_Status t = TaskCompleted)"

lemma update_orders_Inr:
  "update_orders P f d = Inr d' \<Longrightarrow> (\<And>r r'. P r \<Longrightarrow> f r = Inr r' \<Longrightarrow> r' = g r) \<Longrightarrow>
     d' = d\<lparr>orders := map_where P g (orders d)\<rparr>"
  by (auto simp: update_orders_def dest!: sql_update_map_where)

lemma MarkOrderInProgressIfConfirmed_Inr:
  "MarkOrderInProgressIfConfirmed env orderID w = (Inr u, w') \<Longrightarrow>
     db w' = set_order_status orderID {OrderConfirmed} OrderInProgress (db w) \<and> quiet w w'"
  unfolding MarkOrderInProgressIfConfirmed_def set_order_status_def
  by (auto dest!: tx_modify_Inr intro!: update_orders_Inr)

lemma MarkOrderPartCompletedIfNotDone_Inr:
  "MarkOrderPartCompletedIfNotDone env orderID w = (Inr u, w') \<Longrightarrow>
     db w' = set_order_status orderID {OrderConfirmed, OrderInProgress} OrderPartCompleted (db w) \<and> quiet w w'"
  unfolding MarkOrderPartCompletedIfNotDone_def set_order_status_def
  by (auto dest!: tx_modify_Inr intro!: update_orders_Inr)

lemma CompleteOrderIfAllTasksDone_Inr:
  assumes "CompleteOrderIfAllTasksDone env orderID w = (Inr b, w')"
  shows "b = all_done orderID (db w) \<and> quiet w w' \<and>
    db w' = (if all_done orderID (db w)
             then set_order_status orderID {OrderConfirmed, OrderInProgress, OrderPartCompleted} OrderCompleted (db w)
             else db w)"
proof -
  let ?f = "\<lambda>d. length (filter (\<lambda>t. t_OrderID t = orderID \<and> t_Status t \<noteq> TaskCompleted) (tasks d))"
  obtain remaining w1 where a: "tx_statement env (query (\<lambda>n d. Inr (?f d))) w = (Inr remaining, w1)"
    and b: "(if 0 < remaining then ok False
     else and_then (tx_statement env (modify (\<lambda>n. update_orders
            (\<lambda>or. o_ID or = orderID \<and> o_Status or \<noteq> OrderCompleted)
            (\<lambda>or. Inr (or\<lparr>o_Status := OrderCompleted\<rparr>))))) (\<lambda>_. ok True)) w1 = (Inr b, w')"
    using assms unfolding CompleteOrderIfAllTasksDone_def and_then_Inr by blast
  note A = tx_query_Inr [OF a]
  have done_iff: "all_done orderID (db w) \<longleftrightarrow> remaining = 0"
    using A by (auto simp: all_done_def filter_empty_conv)
  show ?thesis
  proof (cases "remaining = 0")
    case True
    with b have b': "tx_statement env (modify (\<lambda>n. update_orders
            (\<lambda>or. o_ID or = orderID \<and> o_Status or \<noteq> OrderCompleted)
            (\<lambda>or. Inr (or\<lparr>o_Status := OrderCompleted\<rparr>)))) w1 = (Inr (), w')" "b = True"
      by (auto simp: and_then_Inr)
    have st: "x \<noteq> OrderCompleted \<longleftrightarrow> x \<in> {OrderConfirmed, OrderInProgress, OrderPartCompleted}" for x
      by (cases x) auto
    have "db w' = set_order_status orderID {OrderConfirmed, OrderInProgress, OrderPartCompleted} OrderCompleted (db w1)"
      unfolding set_order_status_def st [symmetric]
      using tx_modify_Inr [OF b'(1)] by (auto intro!: update_orders_Inr)
    then show ?thesis using A tx_modify_Inr [OF b'(1)] b'(2) done_iff True by (auto elim: quiet_trans)
  next
    case False
    then show ?thesis using b A done_iff by auto
  qed
qed

end
