(* ===== verification/Resources.thy ===== *)
theory Resources imports
  OrderRepo
begin

text \<open>
  Counters, machines and staff are used the same way: assigning a task takes one unit of each,
  completing or requeueing it gives the unit back, and the figure in the database (\<open>in_use\<close>,
  \<open>active_tasks\<close>) is meant to be the number of tasks that hold the resource. The contract and its
  consequences are stated once, in the locale \<open>resource\<close>, and interpreted for the three tables.
\<close>

section \<open>What it means that the figures are right\<close>

definition occupies :: "TaskModel \<Rightarrow> bool" where
  "occupies t \<longleftrightarrow> t_Status t = TaskAssigned \<or> t_Status t = TaskStarted"

definition accounts :: "('r \<Rightarrow> nat) \<Rightarrow> ('r \<Rightarrow> int) \<Rightarrow> (TaskModel \<Rightarrow> nat option) \<Rightarrow> 'r list \<Rightarrow> TaskModel list \<Rightarrow> bool" where
  "accounts rid load held rows ts \<longleftrightarrow>
     (\<forall>r \<in> set rows. load r = count (\<lambda>t. occupies t \<and> held t = Some (rid r)) ts)"

definition in_limits :: "('r \<Rightarrow> int) \<Rightarrow> ('r \<Rightarrow> int) \<Rightarrow> 'r list \<Rightarrow> bool" where
  "in_limits load cap rows \<longleftrightarrow> (\<forall>r \<in> set rows. load r \<le> cap r)"

text \<open>\<open>rows'\<close> is \<open>rows\<close> with \<open>GREATEST(load + delta, 0)\<close> at id \<open>i\<close>; other columns may change.\<close>

definition adjusted :: "('r \<Rightarrow> nat) \<Rightarrow> ('r \<Rightarrow> int) \<Rightarrow> ('r \<Rightarrow> int) \<Rightarrow> nat \<Rightarrow> int \<Rightarrow> 'r list \<Rightarrow> 'r list \<Rightarrow> bool" where
  "adjusted rid load cap i delta rows rows' \<longleftrightarrow>
     list_all2 (\<lambda>r r'. rid r' = rid r \<and> cap r' = cap r \<and>
       load r' = (if rid r = i then max (load r + delta) 0 else load r)) rows rows'"

lemma adjusted_map_where:
  assumes "\<And>r. rid r = i \<Longrightarrow> rid (g r) = rid r \<and> cap (g r) = cap r \<and> load (g r) = max (load r + delta) 0"
  shows "adjusted rid load cap i delta rows (map_where (\<lambda>r. rid r = i) g rows)"
  using assms by (auto simp: adjusted_def map_where_def list_all2_conv_all_nth)

lemma adjusted_mem:
  assumes "adjusted rid load cap i delta rows rows'" and "r' \<in> set rows'"
  obtains r where "r \<in> set rows" "rid r' = rid r" "cap r' = cap r"
    "load r' = (if rid r = i then max (load r + delta) 0 else load r)"
  using assms unfolding adjusted_def by (blast dest: list_all2_source)

lemma adjusted_ids: "adjusted rid load cap i delta rows rows' \<Longrightarrow> map rid rows' = map rid rows"
  unfolding adjusted_def by (induction rule: list_all2_induct) auto

lemma adjust_counter_adjusted:
  "adjusted c_ID c_InUse c_Capacity cid delta (counters d) (counters (adjust_counter cid delta t d))"
  by (auto simp: adjust_counter_def intro: adjusted_map_where)

lemma adjust_machine_adjusted:
  "adjusted m_ID m_InUse m_Capacity mid delta (machines d) (machines (adjust_machine mid delta t d))"
  by (auto simp: adjust_machine_def intro: adjusted_map_where)

lemma adjust_staff_adjusted:
  "adjusted s_ID s_ActiveTasks s_MaxParallel sid delta (staff d) (staff (adjust_staff sid delta d))"
  by (auto simp: adjust_staff_def intro: adjusted_map_where)

lemma credit_staff_adjusted:
  "adjusted s_ID s_ActiveTasks s_MaxParallel sid delta (staff d) (staff (credit_staff sid delta secs eff d))"
  by (auto simp: credit_staff_def intro: adjusted_map_where)

section \<open>The contract of a resource\<close>

text \<open>
  \<open>held t\<close> is the unit a task holds while it is assigned or started, \<open>target t sid mid\<close> the one it
  takes when it is assigned to staff \<open>sid\<close> and machine \<open>mid\<close>. The laws say that an assignment
  records the unit and that starting, completing and counting down dependencies do not change
  which one it is.
\<close>

locale resource =
  fixes rid :: "'r \<Rightarrow> nat"
    and load :: "'r \<Rightarrow> int"
    and cap :: "'r \<Rightarrow> int"
    and held :: "TaskModel \<Rightarrow> nat option"
    and target :: "TaskModel \<Rightarrow> nat \<Rightarrow> nat \<Rightarrow> nat"
  assumes held_assigned: "held (assign_row sid mid t task) = Some (target task sid mid)"
    and held_started: "held (start_row t task) = held task"
    and held_completed: "held (complete_row t task) = held task"
    and held_pending: "held (task\<lparr>t_PendingDeps := p\<rparr>) = held task"
begin

lemma accounts_assign:
  assumes "accounts rid load held rows ts" and "distinct (map t_ID ts)"
    and "task \<in> set ts" and "\<not> occupies task"
    and "adjusted rid load cap (target task sid mid) 1 rows rows'"
  shows "accounts rid load held rows' (map_where (\<lambda>x. t_ID x = t_ID task) (assign_row sid mid t) ts)"
  unfolding accounts_def
proof
  fix r' assume "r' \<in> set rows'"
  then obtain r where r: "r \<in> set rows" "rid r' = rid r"
    "load r' = (if rid r = target task sid mid then max (load r + 1) 0 else load r)"
    using assms(5) by (elim adjusted_mem)
  let ?P = "\<lambda>t. occupies t \<and> held t = Some (rid r)"
  have load: "load r = count ?P ts" using assms(1) r(1) by (simp add: accounts_def)
  have "occupies (assign_row sid mid t task)" by (simp add: occupies_def assign_row_def)
  then have "count ?P (map_where (\<lambda>x. t_ID x = t_ID task) (assign_row sid mid t) ts) =
      count ?P ts + of_bool (rid r = target task sid mid)"
    using count_update [OF assms(2,3), of ?P "assign_row sid mid t"] assms(4)
    by (simp add: held_assigned eq_commute)
  then show "load r' = count (\<lambda>t. occupies t \<and> held t = Some (rid r'))
      (map_where (\<lambda>x. t_ID x = t_ID task) (assign_row sid mid t) ts)"
    using r load by (auto simp: add_increasing)
qed

lemma accounts_release:
  assumes "accounts rid load held rows ts" and "distinct (map t_ID ts)"
    and "task \<in> set ts" and "occupies task" and "held task = Some i"
    and "\<not> occupies (g task)"
    and "adjusted rid load cap i (- 1) rows rows'"
  shows "accounts rid load held rows' (map_where (\<lambda>x. t_ID x = t_ID task) g ts)"
  unfolding accounts_def
proof
  fix r' assume "r' \<in> set rows'"
  then obtain r where r: "r \<in> set rows" "rid r' = rid r"
    "load r' = (if rid r = i then max (load r + - 1) 0 else load r)"
    using assms(7) by (elim adjusted_mem)
  let ?P = "\<lambda>t. occupies t \<and> held t = Some (rid r)"
  have load: "load r = count ?P ts" using assms(1) r(1) by (simp add: accounts_def)
  have pos: "0 < count ?P ts" if "rid r = i"
    using that assms(3,4,5) by (auto simp: count_pos)
  have "count ?P (map_where (\<lambda>x. t_ID x = t_ID task) g ts) = count ?P ts - of_bool (rid r = i)"
    using count_update [OF assms(2,3), of ?P g] assms(4,5,6) by (simp add: eq_commute)
  then show "load r' = count (\<lambda>t. occupies t \<and> held t = Some (rid r'))
      (map_where (\<lambda>x. t_ID x = t_ID task) g ts)"
    using r load pos by auto
qed

text \<open>The lower bound of \<open>GREATEST\<close> never bites when a unit is given back.\<close>

lemma release_no_clip:
  assumes "accounts rid load held rows ts" and "task \<in> set ts" and "occupies task"
    and "held task = Some (rid r)" and "r \<in> set rows"
  shows "0 < load r"
  using assms by (auto simp: accounts_def count_pos)

lemma accounts_start:
  assumes "accounts rid load held rows ts" and "distinct (map t_ID ts)"
    and "task \<in> set ts" and "t_Status task = TaskAssigned"
  shows "accounts rid load held rows (map_where (\<lambda>x. t_ID x = t_ID task) (start_row t) ts)"
proof -
  have "x = task" if "x \<in> set ts" "t_ID x = t_ID task" for x
    using assms(2,3) that distinct_key_eq by metis
  then have "count (\<lambda>t. occupies t \<and> held t = Some k) (map_where (\<lambda>x. t_ID x = t_ID task) (start_row t) ts)
      = count (\<lambda>t. occupies t \<and> held t = Some k) ts" for k
    using assms(4) by (intro count_map_where_other) (auto simp: occupies_def held_started, auto simp: start_row_def)
  then show ?thesis using assms(1) by (simp add: accounts_def)
qed

lemma accounts_pending:
  assumes "accounts rid load held rows ts"
  shows "accounts rid load held rows (map_where P (\<lambda>t. t\<lparr>t_PendingDeps := f t\<rparr>) ts)"
proof -
  have "count (\<lambda>t. occupies t \<and> held t = Some k) (map_where P (\<lambda>t. t\<lparr>t_PendingDeps := f t\<rparr>) ts)
      = count (\<lambda>t. occupies t \<and> held t = Some k) ts" for k
    by (intro count_map_where_other) (auto simp: occupies_def held_pending)
  then show ?thesis using assms by (simp add: accounts_def)
qed

lemma accounts_append:
  assumes "accounts rid load held rows ts" and "\<forall>t \<in> set new. \<not> occupies t"
  shows "accounts rid load held rows (ts @ new)"
proof -
  have "count (\<lambda>t. occupies t \<and> held t = Some k) new = 0" for k
    using assms(2) by (auto simp: count_zero)
  then show ?thesis using assms(1) by (simp add: accounts_def)
qed

lemma in_limits_assign:
  assumes "in_limits load cap rows" and "distinct (map rid rows)"
    and "r \<in> set rows" and "load r < cap r" and "0 \<le> load r"
    and "adjusted rid load cap (rid r) 1 rows rows'"
  shows "in_limits load cap rows'"
  unfolding in_limits_def
proof
  fix r' assume "r' \<in> set rows'"
  then obtain q where q: "q \<in> set rows" "cap r' = cap q"
    "load r' = (if rid q = rid r then max (load q + 1) 0 else load q)"
    using assms(6) by (elim adjusted_mem)
  have "rid q = rid r \<Longrightarrow> q = r" using assms(2,3) q(1) distinct_key_eq by metis
  then show "load r' \<le> cap r'" using q assms(1,4,5) by (auto simp: in_limits_def)
qed

lemma in_limits_release:
  assumes "in_limits load cap rows" and "adjusted rid load cap i (- 1) rows rows'"
    and "\<forall>r \<in> set rows. 0 \<le> load r"
  shows "in_limits load cap rows'"
  unfolding in_limits_def
proof
  fix r' assume "r' \<in> set rows'"
  then obtain q where q: "q \<in> set rows" "cap r' = cap q"
    "load r' = (if rid q = i then max (load q + - 1) 0 else load q)"
    using assms(2) by (elim adjusted_mem)
  moreover have "load q \<le> cap q" "0 \<le> load q" using assms(1,3) q(1) by (auto simp: in_limits_def)
  ultimately show "load r' \<le> cap r'" by auto
qed

lemma accounts_nonneg: "accounts rid load held rows ts \<Longrightarrow> r \<in> set rows \<Longrightarrow> 0 \<le> load r"
  by (simp add: accounts_def)

end

section \<open>The three resources\<close>

interpretation counter: resource c_ID c_InUse c_Capacity "\<lambda>t. Some (t_CounterID t)" "\<lambda>t sid mid. t_CounterID t"
  by unfold_locales (simp_all add: assign_row_def start_row_def complete_row_def)

interpretation machine: resource m_ID m_InUse m_Capacity t_AssignedMachineID "\<lambda>t sid mid. mid"
  by unfold_locales (simp_all add: assign_row_def start_row_def complete_row_def)

interpretation worker: resource s_ID s_ActiveTasks s_MaxParallel t_AssignedStaffID "\<lambda>t sid mid. sid"
  by unfold_locales (simp_all add: assign_row_def start_row_def complete_row_def)

end
