(* ===== verification/Lifecycle.thy ===== *)
theory Lifecycle imports
  Resources
begin

text \<open>
  The abstract specification of the kitchen: what a committed transaction does to the tables, as a
  step relation on pairs \<open>(Q, d)\<close> of a set of task ids and the tables. \<open>Q\<close> holds the ids that are in
  the ready queue or in the hands of an allocation run. The invariant \<open>kitchen_ok\<close> collects what the
  program keeps true: keys, assignment data, the accounting of the three resources and their
  limits, the status of orders, and the gating of tasks by their dependencies.
\<close>

section \<open>Transitions on the tables\<close>

definition same_core :: "database \<Rightarrow> database \<Rightarrow> bool" where
  "same_core d d' \<longleftrightarrow> orders d' = orders d \<and> counters d' = counters d \<and> staff d' = staff d \<and>
     staff_skills d' = staff_skills d \<and> machines d' = machines d \<and> tasks d' = tasks d \<and>
     task_dependencies d' = task_dependencies d"

lemma same_tables_core: "same_tables d d' \<Longrightarrow> same_core d d'"
  by (auto simp: same_tables_def same_core_def)

definition the_task :: "TaskModel \<Rightarrow> TaskModel \<Rightarrow> bool" where
  "the_task t x \<longleftrightarrow> t_ID x = t_ID t"

definition assign_db :: "TaskModel \<Rightarrow> nat \<Rightarrow> nat \<Rightarrow> int \<Rightarrow> int \<Rightarrow> int \<Rightarrow> database \<Rightarrow> database" where
  "assign_db t sid mid now tc tm d =
     adjust_staff sid 1 (set_order_status (t_OrderID t) {OrderConfirmed} OrderInProgress
       (adjust_machine mid 1 tm (adjust_counter (t_CounterID t) 1 tc
         (set_tasks (the_task t) (assign_row sid mid now) d))))"

definition start_db :: "TaskModel \<Rightarrow> int \<Rightarrow> database \<Rightarrow> database" where
  "start_db t now d = set_tasks (the_task t) (start_row now) d"

definition finish_order :: "nat \<Rightarrow> database \<Rightarrow> database" where
  "finish_order orderID d =
     (if all_done orderID d
      then set_order_status orderID {OrderConfirmed, OrderInProgress, OrderPartCompleted} OrderCompleted d
      else d)"

definition complete_db ::
  "TaskModel \<Rightarrow> nat \<Rightarrow> nat \<Rightarrow> int \<Rightarrow> int \<Rightarrow> int \<Rightarrow> int \<Rightarrow> (rat \<Rightarrow> rat) \<Rightarrow> database \<Rightarrow> database" where
  "complete_db t sid mid now tc tm secs eff d =
     finish_order (t_OrderID t)
       (set_order_status (t_OrderID t) {OrderConfirmed, OrderInProgress} OrderPartCompleted
         (release_deps (t_ID t) (credit_staff sid (- 1) secs eff (adjust_machine mid (- 1) tm
           (adjust_counter (t_CounterID t) (- 1) tc (set_tasks (the_task t) (complete_row now) d))))))"

definition requeue_db :: "TaskModel \<Rightarrow> nat \<Rightarrow> nat \<Rightarrow> int \<Rightarrow> int \<Rightarrow> database \<Rightarrow> database" where
  "requeue_db t sid mid tc tm d =
     adjust_machine mid (- 1) tm (adjust_counter (t_CounterID t) (- 1) tc
       (adjust_staff sid (- 1) (set_tasks (the_task t) release_task d)))"

section \<open>Dependencies\<close>

definition is_done :: "database \<Rightarrow> nat \<Rightarrow> bool" where
  "is_done d taskID \<longleftrightarrow> (\<exists>t \<in> set (tasks d). t_ID t = taskID \<and> t_Status t = TaskCompleted)"

definition open_deps :: "database \<Rightarrow> nat \<Rightarrow> int" where
  "open_deps d taskID = count (\<lambda>td. td_TaskID td = taskID \<and> \<not> is_done d (td_DependsOnTaskID td)) (task_dependencies d)"

text \<open>
  An order is \<open>settled\<close> when every unassigned task of it counts exactly its uncompleted
  dependencies and every other task has none left. It is \<open>dormant\<close> when no task of it has left
  \<open>UNASSIGNED\<close> and none is in \<open>Q\<close>: the state of an order between its creation and the count of its
  dependencies, where the confirmation may also stop because a statement failed.
\<close>

definition task_settled :: "database \<Rightarrow> TaskModel \<Rightarrow> bool" where
  "task_settled d t \<longleftrightarrow>
     (if t_Status t = TaskUnassigned then t_PendingDeps t = open_deps d (t_ID t)
      else open_deps d (t_ID t) = 0)"

definition settled :: "database \<Rightarrow> nat \<Rightarrow> bool" where
  "settled d orderID \<longleftrightarrow> (\<forall>t \<in> set (tasks d). t_OrderID t = orderID \<longrightarrow> task_settled d t)"

definition settled_ids :: "database \<Rightarrow> nat set" where
  "settled_ids d = {i. \<exists>t \<in> set (tasks d). t_ID t = i \<and> settled d (t_OrderID t)}"

definition dormant :: "nat set \<Rightarrow> database \<Rightarrow> nat \<Rightarrow> bool" where
  "dormant Q d orderID \<longleftrightarrow>
     (\<forall>t \<in> set (tasks d). t_OrderID t = orderID \<longrightarrow> t_Status t = TaskUnassigned \<and> t_ID t \<notin> Q)"

definition order_of :: "database \<Rightarrow> nat \<Rightarrow> nat \<Rightarrow> bool" where
  "order_of d taskID orderID \<longleftrightarrow> (\<exists>t \<in> set (tasks d). t_ID t = taskID \<and> t_OrderID t = orderID)"

definition local_deps :: "database \<Rightarrow> bool" where
  "local_deps d \<longleftrightarrow> (\<forall>td \<in> set (task_dependencies d). \<exists>orderID.
     order_of d (td_TaskID td) orderID \<and> order_of d (td_DependsOnTaskID td) orderID)"

definition gated :: "nat set \<Rightarrow> database \<Rightarrow> bool" where
  "gated Q d \<longleftrightarrow> local_deps d \<and> (\<forall>orderID. settled d orderID \<or> dormant Q d orderID)"

section \<open>The other invariants\<close>

definition keys :: "database \<Rightarrow> bool" where
  "keys d \<longleftrightarrow> distinct (map t_ID (tasks d)) \<and> distinct (map c_ID (counters d)) \<and>
     distinct (map m_ID (machines d)) \<and> distinct (map s_ID (staff d)) \<and>
     distinct (map o_ID (orders d)) \<and> distinct (map dep_key (task_dependencies d))"

definition task_ok :: "TaskModel \<Rightarrow> bool" where
  "task_ok t \<longleftrightarrow>
     (case t_Status t of
        TaskUnassigned \<Rightarrow> t_AssignedStaffID t = None \<and> t_AssignedMachineID t = None \<and> t_StartedAt t = None
      | TaskAssigned \<Rightarrow> t_AssignedStaffID t \<noteq> None \<and> t_AssignedMachineID t \<noteq> None \<and>
          t_AssignedAt t \<noteq> None \<and> t_StartedAt t = None
      | TaskStarted \<Rightarrow> t_AssignedStaffID t \<noteq> None \<and> t_AssignedMachineID t \<noteq> None \<and> t_StartedAt t \<noteq> None
      | TaskCompleted \<Rightarrow> t_AssignedStaffID t \<noteq> None \<and> t_AssignedMachineID t \<noteq> None \<and>
          t_StartedAt t \<noteq> None \<and> t_CompletedAt t \<noteq> None) \<and>
     (t_Status t \<noteq> TaskUnassigned \<longrightarrow> t_AssignedMachineID t = t_MachineID t \<and> t_PendingDeps t = 0) \<and>
     0 \<le> t_PendingDeps t"

definition tasks_ok :: "database \<Rightarrow> bool" where
  "tasks_ok d \<longleftrightarrow> (\<forall>t \<in> set (tasks d). task_ok t)"

definition figures_ok :: "database \<Rightarrow> bool" where
  "figures_ok d \<longleftrightarrow>
     accounts c_ID c_InUse (\<lambda>t. Some (t_CounterID t)) (counters d) (tasks d) \<and>
     accounts m_ID m_InUse t_AssignedMachineID (machines d) (tasks d) \<and>
     accounts s_ID s_ActiveTasks t_AssignedStaffID (staff d) (tasks d)"

definition limits_ok :: "database \<Rightarrow> bool" where
  "limits_ok d \<longleftrightarrow> in_limits c_InUse c_Capacity (counters d) \<and>
     in_limits m_InUse m_Capacity (machines d) \<and> in_limits s_ActiveTasks s_MaxParallel (staff d)"

text \<open>An order's status against the statuses of its tasks.\<close>

definition status_fits :: "OrderStatus \<Rightarrow> TaskStatus set \<Rightarrow> bool" where
  "status_fits st ts \<longleftrightarrow>
     (case st of
        OrderConfirmed \<Rightarrow> ts = {TaskUnassigned}
      | OrderInProgress \<Rightarrow> ts \<noteq> {} \<and> TaskCompleted \<notin> ts
      | OrderPartCompleted \<Rightarrow> TaskCompleted \<in> ts \<and> ts \<noteq> {TaskCompleted}
      | OrderCompleted \<Rightarrow> ts = {TaskCompleted})"

definition statuses :: "database \<Rightarrow> nat \<Rightarrow> TaskStatus set" where
  "statuses d orderID = t_Status ` {t \<in> set (tasks d). t_OrderID t = orderID}"

definition orders_ok :: "database \<Rightarrow> bool" where
  "orders_ok d \<longleftrightarrow> (\<forall>ord \<in> set (orders d). status_fits (o_Status ord) (statuses d (o_ID ord))) \<and>
     (\<forall>t \<in> set (tasks d). t_OrderID t \<in> o_ID ` set (orders d))"

definition known :: "nat set \<Rightarrow> database \<Rightarrow> bool" where
  "known Q d \<longleftrightarrow> Q \<subseteq> t_ID ` set (tasks d)"

definition kitchen_ok :: "nat set \<times> database \<Rightarrow> bool" where
  "kitchen_ok s \<longleftrightarrow> (case s of (Q, d) \<Rightarrow>
     keys d \<and> tasks_ok d \<and> figures_ok d \<and> limits_ok d \<and> orders_ok d \<and> gated Q d \<and> known Q d)"

section \<open>The step relation\<close>

text \<open>The rows of a new order: none of them assigned, no dependencies counted yet.\<close>

definition new_rows :: "OrderModel \<Rightarrow> TaskModel list \<Rightarrow> bool" where
  "new_rows ord rows \<longleftrightarrow> rows \<noteq> [] \<and> o_Status ord = OrderConfirmed \<and>
     (\<forall>t \<in> set rows. t_OrderID t = o_ID ord \<and> t_Status t = TaskUnassigned \<and> t_PendingDeps t = 0 \<and>
        t_AssignedStaffID t = None \<and> t_AssignedMachineID t = None \<and> t_StartedAt t = None)"

definition create_db :: "OrderModel \<Rightarrow> TaskModel list \<Rightarrow> database \<Rightarrow> database" where
  "create_db ord rows d = d\<lparr>orders := orders d @ [ord], tasks := tasks d @ rows\<rparr>"

definition link_db :: "TaskDependencyModel list \<Rightarrow> database \<Rightarrow> database" where
  "link_db deps d = d\<lparr>task_dependencies := task_dependencies d @ deps\<rparr>"

definition recount_db :: "nat \<Rightarrow> database \<Rightarrow> database" where
  "recount_db orderID d = set_tasks (\<lambda>t. 0 < dep_count d orderID (t_ID t))
     (\<lambda>t. t\<lparr>t_PendingDeps := dep_count d orderID (t_ID t)\<rparr>) d"

inductive kitchen_step :: "nat set \<times> database \<Rightarrow> nat set \<times> database \<Rightarrow> bool" where
  idle: "same_core d d' \<Longrightarrow> Q' \<subseteq> Q \<Longrightarrow> kitchen_step (Q, d) (Q', d')"
| put: "Q' \<subseteq> Q \<union> settled_ids d \<Longrightarrow> kitchen_step (Q, d) (Q', d)"
| assign: "t \<in> set (tasks d) \<Longrightarrow> t_Status t = TaskUnassigned \<Longrightarrow> t_PendingDeps t = 0 \<Longrightarrow>
    t_ID t \<in> Q \<Longrightarrow>
    c \<in> set (counters d) \<Longrightarrow> c_ID c = t_CounterID t \<Longrightarrow> c_InUse c < c_Capacity c \<Longrightarrow>
    m \<in> set (machines d) \<Longrightarrow> t_MachineID t = Some (m_ID m) \<Longrightarrow> m_CounterID m = t_CounterID t \<Longrightarrow>
    m_IsUp m \<Longrightarrow> m_InUse m < m_Capacity m \<Longrightarrow>
    s \<in> set (eligible_staff (t_CounterID t) now d) \<Longrightarrow>
    same_core (assign_db t (s_ID s) (m_ID m) now tc tm d) d' \<Longrightarrow>
    kitchen_step (Q, d) (Q, d')"
| start: "t \<in> set (tasks d) \<Longrightarrow> t_Status t = TaskAssigned \<Longrightarrow> same_core (start_db t now d) d' \<Longrightarrow>
    kitchen_step (Q, d) (Q, d')"
| complete: "t \<in> set (tasks d) \<Longrightarrow> t_Status t = TaskStarted \<Longrightarrow>
    t_AssignedStaffID t = Some sid \<Longrightarrow> t_AssignedMachineID t = Some mid \<Longrightarrow>
    same_core (complete_db t sid mid now tc tm secs eff d) d' \<Longrightarrow>
    kitchen_step (Q, d) (Q, d')"
| requeue: "t \<in> set (tasks d) \<Longrightarrow> expired cutoff t \<Longrightarrow>
    t_AssignedStaffID t = Some sid \<Longrightarrow> t_AssignedMachineID t = Some mid \<Longrightarrow>
    same_core (requeue_db t sid mid tc tm d) d' \<Longrightarrow>
    kitchen_step (Q, d) (Q, d')"
| create: "new_rows ord rows \<Longrightarrow> o_ID ord \<notin> o_ID ` set (orders d) \<Longrightarrow>
    distinct (map t_ID (tasks d @ rows)) \<Longrightarrow> same_core (create_db ord rows d) d' \<Longrightarrow>
    kitchen_step (Q, d) (Q, d')"
| link: "distinct (map dep_key (task_dependencies d @ deps)) \<Longrightarrow> dormant Q d orderID \<Longrightarrow>
    \<forall>td \<in> set deps. order_of d (td_TaskID td) orderID \<and> order_of d (td_DependsOnTaskID td) orderID \<Longrightarrow>
    same_core (link_db deps d) d' \<Longrightarrow>
    kitchen_step (Q, d) (Q, d')"
| recount: "dormant Q d orderID \<Longrightarrow> same_core (recount_db orderID d) d' \<Longrightarrow>
    kitchen_step (Q, d) (Q, d')"

inductive_cases kitchen_stepE: "kitchen_step s s'"

end
