(* ===== verification/KitchenInvariant.thy ===== *)
theory KitchenInvariant imports
  Lifecycle
begin

text \<open>
  Every transition of the kitchen keeps \<open>kitchen_ok\<close>. Each part of the invariant has its lemma
  for each transition; \<open>kitchen_step_ok\<close> puts them together.
\<close>

section \<open>Tables after a transition\<close>

lemma set_tasks_sel [simp]:
  "orders (set_tasks P g d) = orders d" "counters (set_tasks P g d) = counters d"
  "staff (set_tasks P g d) = staff d" "staff_skills (set_tasks P g d) = staff_skills d"
  "machines (set_tasks P g d) = machines d" "tasks (set_tasks P g d) = map_where P g (tasks d)"
  "task_dependencies (set_tasks P g d) = task_dependencies d"
  by (simp_all add: set_tasks_def)

lemma adjust_counter_sel [simp]:
  "orders (adjust_counter i x n d) = orders d" "staff (adjust_counter i x n d) = staff d"
  "staff_skills (adjust_counter i x n d) = staff_skills d" "machines (adjust_counter i x n d) = machines d"
  "tasks (adjust_counter i x n d) = tasks d"
  "task_dependencies (adjust_counter i x n d) = task_dependencies d"
  by (simp_all add: adjust_counter_def)

lemma adjust_machine_sel [simp]:
  "orders (adjust_machine i x n d) = orders d" "staff (adjust_machine i x n d) = staff d"
  "staff_skills (adjust_machine i x n d) = staff_skills d" "counters (adjust_machine i x n d) = counters d"
  "tasks (adjust_machine i x n d) = tasks d"
  "task_dependencies (adjust_machine i x n d) = task_dependencies d"
  by (simp_all add: adjust_machine_def)

lemma adjust_staff_sel [simp]:
  "orders (adjust_staff i x d) = orders d" "counters (adjust_staff i x d) = counters d"
  "staff_skills (adjust_staff i x d) = staff_skills d" "machines (adjust_staff i x d) = machines d"
  "tasks (adjust_staff i x d) = tasks d"
  "task_dependencies (adjust_staff i x d) = task_dependencies d"
  by (simp_all add: adjust_staff_def)

lemma credit_staff_sel [simp]:
  "orders (credit_staff i x n e d) = orders d" "counters (credit_staff i x n e d) = counters d"
  "staff_skills (credit_staff i x n e d) = staff_skills d" "machines (credit_staff i x n e d) = machines d"
  "tasks (credit_staff i x n e d) = tasks d"
  "task_dependencies (credit_staff i x n e d) = task_dependencies d"
  by (simp_all add: credit_staff_def)

lemma set_order_status_sel [simp]:
  "staff (set_order_status i F st d) = staff d" "counters (set_order_status i F st d) = counters d"
  "staff_skills (set_order_status i F st d) = staff_skills d" "machines (set_order_status i F st d) = machines d"
  "tasks (set_order_status i F st d) = tasks d"
  "task_dependencies (set_order_status i F st d) = task_dependencies d"
  by (simp_all add: set_order_status_def)

lemma release_deps_sel [simp]:
  "orders (release_deps i d) = orders d" "counters (release_deps i d) = counters d"
  "staff (release_deps i d) = staff d" "staff_skills (release_deps i d) = staff_skills d"
  "machines (release_deps i d) = machines d" "task_dependencies (release_deps i d) = task_dependencies d"
  by (simp_all add: release_deps_def)

lemma finish_order_sel [simp]:
  "staff (finish_order i d) = staff d" "counters (finish_order i d) = counters d"
  "staff_skills (finish_order i d) = staff_skills d" "machines (finish_order i d) = machines d"
  "tasks (finish_order i d) = tasks d" "task_dependencies (finish_order i d) = task_dependencies d"
  by (simp_all add: finish_order_def)

lemma create_db_sel [simp]:
  "orders (create_db ord rows d) = orders d @ [ord]" "tasks (create_db ord rows d) = tasks d @ rows"
  "staff (create_db ord rows d) = staff d" "counters (create_db ord rows d) = counters d"
  "machines (create_db ord rows d) = machines d"
  "task_dependencies (create_db ord rows d) = task_dependencies d"
  by (simp_all add: create_db_def)

lemma link_db_sel [simp]:
  "orders (link_db deps d) = orders d" "tasks (link_db deps d) = tasks d"
  "staff (link_db deps d) = staff d" "counters (link_db deps d) = counters d"
  "machines (link_db deps d) = machines d"
  "task_dependencies (link_db deps d) = task_dependencies d @ deps"
  by (simp_all add: link_db_def)

text \<open>The rows of tasks after each transition.\<close>

lemma assign_db_tasks: "tasks (assign_db t sid mid n tc tm d) = map_where (the_task t) (assign_row sid mid n) (tasks d)"
  by (simp add: assign_db_def)

lemma start_db_tasks: "tasks (start_db t n d) = map_where (the_task t) (start_row n) (tasks d)"
  by (simp add: start_db_def)

lemma requeue_db_tasks: "tasks (requeue_db t sid mid tc tm d) = map_where (the_task t) release_task (tasks d)"
  by (simp add: requeue_db_def)

definition count_down :: "TaskModel \<Rightarrow> TaskModel" where
  "count_down t = t\<lparr>t_PendingDeps := max (t_PendingDeps t - 1) 0\<rparr>"

definition waits_for :: "database \<Rightarrow> TaskModel \<Rightarrow> TaskModel \<Rightarrow> bool" where
  "waits_for d t x \<longleftrightarrow> depends_on d (t_ID x) (t_ID t) \<and> t_Status x = TaskUnassigned"

lemma release_deps_tasks:
  "tasks (release_deps i d) =
     map_where (\<lambda>x. depends_on d (t_ID x) i \<and> t_Status x = TaskUnassigned) count_down (tasks d)"
  by (simp add: release_deps_def count_down_def fun_eq_iff map_where_def)

lemma depends_on_cong: "task_dependencies d' = task_dependencies d \<Longrightarrow> depends_on d' = depends_on d"
  by (simp add: fun_eq_iff depends_on_def)

lemma complete_db_tasks:
  "tasks (complete_db t sid mid n tc tm secs eff d) =
     map_where (waits_for d t) count_down (map_where (the_task t) (complete_row n) (tasks d))"
proof -
  let ?d = "credit_staff sid (- 1) secs eff (adjust_machine mid (- 1) tm
           (adjust_counter (t_CounterID t) (- 1) tc (set_tasks (the_task t) (complete_row n) d)))"
  have "(\<lambda>x. depends_on ?d (t_ID x) (t_ID t) \<and> t_Status x = TaskUnassigned) = waits_for d t"
    using depends_on_cong [of ?d d] by (simp add: fun_eq_iff waits_for_def)
  then show ?thesis by (simp add: complete_db_def release_deps_tasks)
qed

lemma row_sel [simp]:
  "t_ID (assign_row sid mid n t) = t_ID t" "t_OrderID (assign_row sid mid n t) = t_OrderID t"
  "t_Status (assign_row sid mid n t) = TaskAssigned" "t_PendingDeps (assign_row sid mid n t) = t_PendingDeps t"
  "t_ID (start_row n t) = t_ID t" "t_OrderID (start_row n t) = t_OrderID t"
  "t_Status (start_row n t) = TaskStarted" "t_PendingDeps (start_row n t) = t_PendingDeps t"
  "t_ID (complete_row n t) = t_ID t" "t_OrderID (complete_row n t) = t_OrderID t"
  "t_Status (complete_row n t) = TaskCompleted" "t_PendingDeps (complete_row n t) = t_PendingDeps t"
  "t_ID (release_task t) = t_ID t" "t_OrderID (release_task t) = t_OrderID t"
  "t_Status (release_task t) = TaskUnassigned" "t_PendingDeps (release_task t) = t_PendingDeps t"
  "t_ID (count_down t) = t_ID t" "t_OrderID (count_down t) = t_OrderID t"
  "t_Status (count_down t) = t_Status t"
  by (simp_all add: assign_row_def start_row_def complete_row_def release_task_def count_down_def)

lemma the_task_iff [simp]: "the_task t x \<longleftrightarrow> t_ID x = t_ID t"
  by (simp add: the_task_def)

lemma the_task_fun: "the_task t = (\<lambda>x. t_ID x = t_ID t)"
  by (simp add: fun_eq_iff)

section \<open>Only the core matters\<close>

lemma same_core_sym: "same_core d d' \<Longrightarrow> same_core d' d"
  by (simp add: same_core_def)

lemma same_core_refl [simp]: "same_core d d"
  by (simp add: same_core_def)

lemma same_core_trans: "same_core d d' \<Longrightarrow> same_core d' d'' \<Longrightarrow> same_core d d''"
  by (simp add: same_core_def)

lemma same_core_deps:
  assumes "same_core d d'"
  shows "is_done d' = is_done d" and "open_deps d' = open_deps d" and "task_settled d' = task_settled d"
    and "settled d' = settled d" and "dormant Q d' = dormant Q d" and "order_of d' = order_of d"
    and "local_deps d' = local_deps d"
proof -
  show d: "is_done d' = is_done d" and o: "order_of d' = order_of d"
    using assms by (auto simp: fun_eq_iff is_done_def order_of_def same_core_def)
  show p: "open_deps d' = open_deps d"
    using assms d by (auto simp: fun_eq_iff open_deps_def same_core_def)
  show s: "task_settled d' = task_settled d"
    using p by (auto simp: fun_eq_iff task_settled_def)
  show "settled d' = settled d" and "dormant Q d' = dormant Q d"
    using assms s by (auto simp: fun_eq_iff settled_def dormant_def same_core_def)
  show "local_deps d' = local_deps d"
    using assms o by (auto simp: fun_eq_iff local_deps_def same_core_def)
qed

lemma same_core_kitchen_ok: "same_core d d' \<Longrightarrow> kitchen_ok (Q, d') \<longleftrightarrow> kitchen_ok (Q, d)"
  using same_core_deps [of d d']
  by (simp add: kitchen_ok_def gated_def keys_def tasks_ok_def figures_ok_def limits_ok_def orders_ok_def
      statuses_def known_def same_core_def)

lemma kitchen_ok_subset: "kitchen_ok (Q, d) \<Longrightarrow> Q' \<subseteq> Q \<Longrightarrow> kitchen_ok (Q', d)"
  by (auto simp: kitchen_ok_def gated_def dormant_def known_def)

section \<open>Keys\<close>

lemma map_where_ids [simp]:
  "(\<And>x. t_ID (g x) = t_ID x) \<Longrightarrow> map t_ID (map_where P g ts) = map t_ID ts"
  by (rule map_where_keys)

lemma set_order_status_orders:
  "orders (set_order_status i F st d) =
     map_where (\<lambda>ord. o_ID ord = i \<and> o_Status ord \<in> F) (\<lambda>ord. ord\<lparr>o_Status := st\<rparr>) (orders d)"
  by (simp add: set_order_status_def)

lemma set_order_status_ids [simp]: "map o_ID (orders (set_order_status i F st d)) = map o_ID (orders d)"
  by (simp add: set_order_status_orders map_where_keys)

lemma finish_order_ids [simp]: "map o_ID (orders (finish_order i d)) = map o_ID (orders d)"
  by (simp add: finish_order_def)

lemma resource_ids [simp]:
  "map c_ID (counters (adjust_counter i x n d)) = map c_ID (counters d)"
  "map m_ID (machines (adjust_machine i x n d)) = map m_ID (machines d)"
  "map s_ID (staff (adjust_staff i x d)) = map s_ID (staff d)"
  "map s_ID (staff (credit_staff i x n e d)) = map s_ID (staff d)"
  using adjusted_ids [OF adjust_counter_adjusted] adjusted_ids [OF adjust_machine_adjusted]
    adjusted_ids [OF adjust_staff_adjusted] adjusted_ids [OF credit_staff_adjusted]
  by blast+

lemma keys_assign: "keys (assign_db t sid mid n tc tm d) \<longleftrightarrow> keys d"
  by (simp add: keys_def assign_db_def)

lemma keys_start: "keys (start_db t n d) \<longleftrightarrow> keys d"
  by (simp add: keys_def start_db_def)

lemma keys_complete: "keys (complete_db t sid mid n tc tm secs eff d) \<longleftrightarrow> keys d"
  by (simp add: keys_def complete_db_def release_deps_tasks)

lemma keys_requeue: "keys (requeue_db t sid mid tc tm d) \<longleftrightarrow> keys d"
  by (simp add: keys_def requeue_db_def)

section \<open>Assignment data\<close>

lemma tasks_ok_update:
  assumes "tasks_ok d" and "tasks d' = map_where P g (tasks d)"
    and "\<And>x. x \<in> set (tasks d) \<Longrightarrow> P x \<Longrightarrow> task_ok x \<Longrightarrow> task_ok (g x)"
  shows "tasks_ok d'"
  using assms by (auto simp: tasks_ok_def map_where_set)

lemma keys_the_task: "keys d \<Longrightarrow> t \<in> set (tasks d) \<Longrightarrow> x \<in> set (tasks d) \<Longrightarrow> t_ID x = t_ID t \<Longrightarrow> x = t"
  unfolding keys_def by (metis distinct_key_eq)

lemma tasks_ok_the_task:
  assumes "keys d" "tasks_ok d" "t \<in> set (tasks d)" "tasks d' = map_where (the_task t) g (tasks d)"
    "task_ok t \<Longrightarrow> task_ok (g t)"
  shows "tasks_ok d'"
  by (rule tasks_ok_update [OF assms(2,4)]) (use keys_the_task [OF assms(1,3)] assms(5) in auto)

lemma tasks_ok_assign:
  assumes "keys d" "tasks_ok d" "t \<in> set (tasks d)" "t_Status t = TaskUnassigned" "t_PendingDeps t = 0"
    "t_MachineID t = Some mid"
  shows "tasks_ok (assign_db t sid mid n tc tm d)"
  by (rule tasks_ok_the_task [OF assms(1-3) assign_db_tasks])
    (use assms(4-) in \<open>auto simp: task_ok_def assign_row_def\<close>)

lemma tasks_ok_start:
  assumes "keys d" "tasks_ok d" "t \<in> set (tasks d)" "t_Status t = TaskAssigned"
  shows "tasks_ok (start_db t n d)"
  by (rule tasks_ok_the_task [OF assms(1-3) start_db_tasks])
    (use assms(4-) in \<open>auto simp: task_ok_def start_row_def\<close>)

lemma tasks_ok_requeue:
  assumes "keys d" "tasks_ok d" "t \<in> set (tasks d)" "t_Status t = TaskAssigned"
  shows "tasks_ok (requeue_db t sid mid tc tm d)"
  by (rule tasks_ok_the_task [OF assms(1-3) requeue_db_tasks])
    (use assms(4-) in \<open>auto simp: task_ok_def release_task_def\<close>)

lemma task_ok_count_down: "t_Status x = TaskUnassigned \<Longrightarrow> task_ok x \<Longrightarrow> task_ok (count_down x)"
  by (auto simp: task_ok_def count_down_def)

lemma tasks_ok_complete:
  assumes "keys d" "tasks_ok d" "t \<in> set (tasks d)" "t_Status t = TaskStarted"
  shows "tasks_ok (complete_db t sid mid n tc tm secs eff d)"
proof -
  have "tasks_ok (set_tasks (the_task t) (complete_row n) d)"
    by (rule tasks_ok_the_task [OF assms(1-3)], simp)
      (use assms(4-) in \<open>auto simp: task_ok_def complete_row_def\<close>)
  then show ?thesis
    by (rule tasks_ok_update [where P = "waits_for d t" and g = count_down])
      (auto simp: complete_db_tasks waits_for_def intro: task_ok_count_down)
qed

section \<open>Accounting\<close>

lemma figures_ok_assign:
  assumes "keys d" "figures_ok d" "t \<in> set (tasks d)" "t_Status t = TaskUnassigned"
  shows "figures_ok (assign_db t sid mid n tc tm d)"
proof -
  have d: "distinct (map t_ID (tasks d))" using assms(1) by (simp add: keys_def)
  have n: "\<not> occupies t" using assms(4) by (simp add: occupies_def)
  note f = assms(2) [unfolded figures_ok_def]
  show ?thesis
    unfolding figures_ok_def assign_db_tasks the_task_fun
    using counter.accounts_assign [OF _ d assms(3) n, of "counters d"] f
      machine.accounts_assign [OF _ d assms(3) n, of "machines d"]
      worker.accounts_assign [OF _ d assms(3) n, of "staff d"]
      adjust_counter_adjusted [of "t_CounterID t" 1 "set_tasks (the_task t) (assign_row sid mid n) d" tc]
      adjust_machine_adjusted [of mid 1 "adjust_counter (t_CounterID t) 1 tc
         (set_tasks (the_task t) (assign_row sid mid n) d)" tm]
      adjust_staff_adjusted [of sid 1 "set_order_status (t_OrderID t) {OrderConfirmed} OrderInProgress
       (adjust_machine mid 1 tm (adjust_counter (t_CounterID t) 1 tc
         (set_tasks (the_task t) (assign_row sid mid n) d)))"]
    by (simp add: assign_db_def)
qed

lemma figures_ok_start:
  assumes "keys d" "figures_ok d" "t \<in> set (tasks d)" "t_Status t = TaskAssigned"
  shows "figures_ok (start_db t n d)"
proof -
  have d: "distinct (map t_ID (tasks d))" using assms(1) by (simp add: keys_def)
  show ?thesis
    using assms(2) unfolding figures_ok_def start_db_tasks the_task_fun
    by (simp add: start_db_def counter.accounts_start [OF _ d assms(3,4)]
        machine.accounts_start [OF _ d assms(3,4)] worker.accounts_start [OF _ d assms(3,4)])
qed

lemma figures_ok_complete:
  assumes "keys d" "figures_ok d" "t \<in> set (tasks d)" "t_Status t = TaskStarted"
    "t_AssignedStaffID t = Some sid" "t_AssignedMachineID t = Some mid"
  shows "figures_ok (complete_db t sid mid n tc tm secs eff d)"
proof -
  have d: "distinct (map t_ID (tasks d))" using assms(1) by (simp add: keys_def)
  have o: "occupies t" and n: "\<not> occupies (complete_row n t)" using assms(4) by (simp_all add: occupies_def)
  have cd: "count_down = (\<lambda>x. x\<lparr>t_PendingDeps := (\<lambda>y. max (t_PendingDeps y - 1) 0) x\<rparr>)"
    by (simp add: fun_eq_iff count_down_def)
  note f = assms(2) [unfolded figures_ok_def]
  show ?thesis
    unfolding figures_ok_def complete_db_tasks the_task_fun cd
    using counter.accounts_pending [OF counter.accounts_release [where g = "complete_row n", OF _ d assms(3) o _ n, of "counters d"]]
      machine.accounts_pending [OF machine.accounts_release [where g = "complete_row n", OF _ d assms(3) o _ n, of "machines d"]]
      worker.accounts_pending [OF worker.accounts_release [where g = "complete_row n", OF _ d assms(3) o _ n, of "staff d"]] f
      adjust_counter_adjusted [of "t_CounterID t" "- 1" "set_tasks (the_task t) (complete_row n) d" tc]
      adjust_machine_adjusted [of mid "- 1" "adjust_counter (t_CounterID t) (- 1) tc
         (set_tasks (the_task t) (complete_row n) d)" tm]
      credit_staff_adjusted [of sid "- 1" "adjust_machine mid (- 1) tm (adjust_counter (t_CounterID t) (- 1) tc
         (set_tasks (the_task t) (complete_row n) d))" secs eff] assms(5,6)
    by (simp add: complete_db_def)
qed

lemma figures_ok_requeue:
  assumes "keys d" "figures_ok d" "t \<in> set (tasks d)" "t_Status t = TaskAssigned"
    "t_AssignedStaffID t = Some sid" "t_AssignedMachineID t = Some mid"
  shows "figures_ok (requeue_db t sid mid tc tm d)"
proof -
  have d: "distinct (map t_ID (tasks d))" using assms(1) by (simp add: keys_def)
  have o: "occupies t" and n: "\<not> occupies (release_task t)" using assms(4) by (simp_all add: occupies_def)
  note f = assms(2) [unfolded figures_ok_def]
  show ?thesis
    unfolding figures_ok_def requeue_db_tasks the_task_fun
    using counter.accounts_release [where g = release_task, OF _ d assms(3) o _ n, of "counters d"]
      machine.accounts_release [where g = release_task, OF _ d assms(3) o _ n, of "machines d"]
      worker.accounts_release [where g = release_task, OF _ d assms(3) o _ n, of "staff d"] f
      adjust_counter_adjusted [of "t_CounterID t" "- 1" "adjust_staff sid (- 1) (set_tasks (the_task t) release_task d)" tc]
      adjust_machine_adjusted [of mid "- 1" "adjust_counter (t_CounterID t) (- 1) tc
         (adjust_staff sid (- 1) (set_tasks (the_task t) release_task d))" tm]
      adjust_staff_adjusted [of sid "- 1" "set_tasks (the_task t) release_task d"] assms(5,6)
    by (simp add: requeue_db_def)
qed

section \<open>Limits\<close>

lemma figures_nonneg:
  assumes "figures_ok d"
  shows "\<forall>c \<in> set (counters d). 0 \<le> c_InUse c" and "\<forall>m \<in> set (machines d). 0 \<le> m_InUse m"
    and "\<forall>s \<in> set (staff d). 0 \<le> s_ActiveTasks s"
  using assms unfolding figures_ok_def
  by (auto dest: counter.accounts_nonneg machine.accounts_nonneg worker.accounts_nonneg)

lemma limits_ok_assign:
  assumes "keys d" "limits_ok d" "figures_ok d"
    "c \<in> set (counters d)" "c_ID c = t_CounterID t" "c_InUse c < c_Capacity c"
    "m \<in> set (machines d)" "m_InUse m < m_Capacity m"
    "s \<in> set (staff d)" "s_ActiveTasks s < s_MaxParallel s"
  shows "limits_ok (assign_db t (s_ID s) (m_ID m) n tc tm d)"
proof -
  note nn = figures_nonneg [OF assms(3)]
  have k: "distinct (map c_ID (counters d))" "distinct (map m_ID (machines d))" "distinct (map s_ID (staff d))"
    using assms(1) by (simp_all add: keys_def)
  have l: "in_limits c_InUse c_Capacity (counters d)" "in_limits m_InUse m_Capacity (machines d)"
    "in_limits s_ActiveTasks s_MaxParallel (staff d)" using assms(2) by (simp_all add: limits_ok_def)
  show ?thesis
    unfolding limits_ok_def
    using counter.in_limits_assign [OF l(1) k(1) assms(4,6) bspec [OF nn(1) assms(4)]]
      machine.in_limits_assign [OF l(2) k(2) assms(7,8) bspec [OF nn(2) assms(7)]]
      worker.in_limits_assign [OF l(3) k(3) assms(9,10) bspec [OF nn(3) assms(9)]]
      adjust_counter_adjusted [of "t_CounterID t" 1 "set_tasks (the_task t) (assign_row (s_ID s) (m_ID m) n) d" tc]
      adjust_machine_adjusted [of "m_ID m" 1 "adjust_counter (t_CounterID t) 1 tc
         (set_tasks (the_task t) (assign_row (s_ID s) (m_ID m) n) d)" tm]
      adjust_staff_adjusted [of "s_ID s" 1 "set_order_status (t_OrderID t) {OrderConfirmed} OrderInProgress
       (adjust_machine (m_ID m) 1 tm (adjust_counter (t_CounterID t) 1 tc
         (set_tasks (the_task t) (assign_row (s_ID s) (m_ID m) n) d)))"] assms(5)
    by (simp add: assign_db_def)
qed

lemma limits_ok_start: "limits_ok (start_db t n d) \<longleftrightarrow> limits_ok d"
  by (simp add: limits_ok_def start_db_def)

lemma limits_ok_complete:
  assumes "limits_ok d" "figures_ok d"
  shows "limits_ok (complete_db t sid mid n tc tm secs eff d)"
proof -
  note nn = figures_nonneg [OF assms(2)]
  show ?thesis
    using assms(1) counter.in_limits_release [OF _ _ nn(1)] machine.in_limits_release [OF _ _ nn(2)]
      worker.in_limits_release [OF _ _ nn(3)]
      adjust_counter_adjusted [of "t_CounterID t" "- 1" "set_tasks (the_task t) (complete_row n) d" tc]
      adjust_machine_adjusted [of mid "- 1" "adjust_counter (t_CounterID t) (- 1) tc
         (set_tasks (the_task t) (complete_row n) d)" tm]
      credit_staff_adjusted [of sid "- 1" "adjust_machine mid (- 1) tm (adjust_counter (t_CounterID t) (- 1) tc
         (set_tasks (the_task t) (complete_row n) d))" secs eff]
    by (simp add: limits_ok_def complete_db_def)
qed

lemma limits_ok_requeue:
  assumes "limits_ok d" "figures_ok d"
  shows "limits_ok (requeue_db t sid mid tc tm d)"
proof -
  note nn = figures_nonneg [OF assms(2)]
  show ?thesis
    using assms(1) counter.in_limits_release [OF _ _ nn(1)] machine.in_limits_release [OF _ _ nn(2)]
      worker.in_limits_release [OF _ _ nn(3)]
      adjust_counter_adjusted [of "t_CounterID t" "- 1" "adjust_staff sid (- 1) (set_tasks (the_task t) release_task d)" tc]
      adjust_machine_adjusted [of mid "- 1" "adjust_counter (t_CounterID t) (- 1) tc
         (adjust_staff sid (- 1) (set_tasks (the_task t) release_task d))" tm]
      adjust_staff_adjusted [of sid "- 1" "set_tasks (the_task t) release_task d"]
    by (simp add: limits_ok_def requeue_db_def)
qed

section \<open>Orders\<close>

lemma statuses_update:
  assumes "keys d" "t \<in> set (tasks d)"
    and "tasks d' = map_where (the_task t) g (tasks d)"
    and "\<And>x. t_OrderID (g x) = t_OrderID x" "t_Status (g t) = st"
  shows "i \<noteq> t_OrderID t \<Longrightarrow> statuses d' i = statuses d i"
    and "st \<in> statuses d' (t_OrderID t)"
    and "statuses d' (t_OrderID t) \<subseteq> insert st (statuses d (t_OrderID t))"
    and "statuses d (t_OrderID t) - {t_Status t} \<subseteq> statuses d' (t_OrderID t)"
proof -
  have one: "x = t" if "x \<in> set (tasks d)" "t_ID x = t_ID t" for x
    using keys_the_task [OF assms(1,2) that] .
  have mem: "s \<in> statuses d' j \<longleftrightarrow>
      (\<exists>x \<in> set (tasks d). t_OrderID x = j \<and> s = (if t_ID x = t_ID t then st else t_Status x))" for s j
    using one assms(3-5) by (auto simp: statuses_def map_where_set image_iff; metis)
  have mem0: "s \<in> statuses d j \<longleftrightarrow> (\<exists>x \<in> set (tasks d). t_OrderID x = j \<and> s = t_Status x)" for s j
    by (auto simp: statuses_def)
  show "statuses d' i = statuses d i" if "i \<noteq> t_OrderID t"
    using that one by (auto simp: set_eq_iff mem mem0)
  show "st \<in> statuses d' (t_OrderID t)" using assms(2) by (auto simp: mem)
  show "statuses d' (t_OrderID t) \<subseteq> insert st (statuses d (t_OrderID t))" by (fastforce simp: mem mem0)
  show "statuses d (t_OrderID t) - {t_Status t} \<subseteq> statuses d' (t_OrderID t)"
    using one by (auto simp: mem mem0) metis
qed

lemma map_where_same_image: "(\<And>x. f (g x) = f x) \<Longrightarrow> f ` set (map_where P g xs) = f ` set xs"
  by (metis (no_types, lifting) list.set_map map_where_keys)

text \<open>
  An order follows a change of status of one of its tasks when its own status still fits; every
  other order keeps its status and its tasks.
\<close>

lemma orders_ok_update:
  assumes "orders_ok d" and "t \<in> set (tasks d)"
    and "\<And>i. i \<noteq> t_OrderID t \<Longrightarrow> statuses d' i = statuses d i"
    and "t_OrderID ` set (tasks d') \<subseteq> t_OrderID ` set (tasks d)"
    and "orders d' = map_where (\<lambda>ord. o_ID ord = t_OrderID t) (\<lambda>ord. ord\<lparr>o_Status := upd (o_Status ord)\<rparr>) (orders d)"
    and "\<And>st. status_fits st (statuses d (t_OrderID t)) \<Longrightarrow> status_fits (upd st) (statuses d' (t_OrderID t))"
  shows "orders_ok d'"
proof -
  have ids: "o_ID ` set (orders d') = o_ID ` set (orders d)"
    unfolding assms(5) by (rule map_where_same_image) simp
  have "status_fits (o_Status ord') (statuses d' (o_ID ord'))" if mem: "ord' \<in> set (orders d')" for ord'
  proof -
    obtain ord where o: "ord \<in> set (orders d)"
      "ord' = (if o_ID ord = t_OrderID t then ord\<lparr>o_Status := upd (o_Status ord)\<rparr> else ord)"
      using mem unfolding assms(5) map_where_set by blast
    moreover have "status_fits (o_Status ord) (statuses d (o_ID ord))"
      using assms(1) o(1) by (simp add: orders_ok_def)
    ultimately show ?thesis using assms(3) assms(6) by auto
  qed
  moreover have "\<forall>x \<in> set (tasks d'). t_OrderID x \<in> o_ID ` set (orders d')"
    using assms(1,4) ids by (force simp: orders_ok_def)
  ultimately show ?thesis by (simp add: orders_ok_def)
qed

lemma statuses_member: "t \<in> set (tasks d) \<Longrightarrow> t_Status t \<in> statuses d (t_OrderID t)"
  by (auto simp: statuses_def)

lemma status_row_update:
  "map_where (\<lambda>ord. o_ID ord = i \<and> o_Status ord \<in> F) (\<lambda>ord. ord\<lparr>o_Status := st\<rparr>) xs =
   map_where (\<lambda>ord. o_ID ord = i) (\<lambda>ord. ord\<lparr>o_Status := if o_Status ord \<in> F then st else o_Status ord\<rparr>) xs"
  by (auto simp: map_where_def)

lemma orders_ok_assign:
  assumes "keys d" "orders_ok d" "t \<in> set (tasks d)" "t_Status t = TaskUnassigned"
  shows "orders_ok (assign_db t sid mid n tc tm d)"
proof -
  let ?d = "assign_db t sid mid n tc tm d"
  note s = statuses_update [where st = TaskAssigned, OF assms(1,3) assign_db_tasks [of t sid mid n tc tm d], simplified]
  show ?thesis
  proof (rule orders_ok_update [OF assms(2,3), where upd = "\<lambda>st. if st \<in> {OrderConfirmed} then OrderInProgress else st"])
    show "orders ?d = map_where (\<lambda>ord. o_ID ord = t_OrderID t)
        (\<lambda>ord. ord\<lparr>o_Status := if o_Status ord \<in> {OrderConfirmed} then OrderInProgress else o_Status ord\<rparr>) (orders d)"
      by (simp only: status_row_update [symmetric]) (simp add: assign_db_def set_order_status_orders)
    show "t_OrderID ` set (tasks ?d) \<subseteq> t_OrderID ` set (tasks d)"
      by (simp add: assign_db_tasks map_where_same_image)
    fix st assume "status_fits st (statuses d (t_OrderID t))"
    then show "status_fits (if st \<in> {OrderConfirmed} then OrderInProgress else st) (statuses ?d (t_OrderID t))"
      using s(2-4) statuses_member [OF assms(3)] assms(4)
      by (cases st) (auto simp: status_fits_def)
  qed (rule s(1))
qed

lemma orders_ok_start:
  assumes "keys d" "orders_ok d" "t \<in> set (tasks d)" "t_Status t = TaskAssigned"
  shows "orders_ok (start_db t n d)"
proof -
  let ?d = "start_db t n d"
  note s = statuses_update [where st = TaskStarted, OF assms(1,3) start_db_tasks [of t n d], simplified]
  show ?thesis
  proof (rule orders_ok_update [OF assms(2,3), where upd = "\<lambda>st. st"])
    show "orders ?d = map_where (\<lambda>ord. o_ID ord = t_OrderID t) (\<lambda>ord. ord\<lparr>o_Status := o_Status ord\<rparr>) (orders d)"
      by (simp add: start_db_def map_where_id)
    show "t_OrderID ` set (tasks ?d) \<subseteq> t_OrderID ` set (tasks d)"
      by (simp add: start_db_tasks map_where_same_image)
    fix st assume "status_fits st (statuses d (t_OrderID t))"
    then show "status_fits st (statuses ?d (t_OrderID t))"
      using s(2-4) statuses_member [OF assms(3)] assms(4)
      by (cases st) (auto simp: status_fits_def)
  qed (rule s(1))
qed

lemma orders_ok_requeue:
  assumes "keys d" "orders_ok d" "t \<in> set (tasks d)" "t_Status t = TaskAssigned"
  shows "orders_ok (requeue_db t sid mid tc tm d)"
proof -
  let ?d = "requeue_db t sid mid tc tm d"
  note s = statuses_update [where st = TaskUnassigned, OF assms(1,3) requeue_db_tasks [of t sid mid tc tm d], simplified]
  show ?thesis
  proof (rule orders_ok_update [OF assms(2,3), where upd = "\<lambda>st. st"])
    show "orders ?d = map_where (\<lambda>ord. o_ID ord = t_OrderID t) (\<lambda>ord. ord\<lparr>o_Status := o_Status ord\<rparr>) (orders d)"
      by (simp add: requeue_db_def map_where_id)
    show "t_OrderID ` set (tasks ?d) \<subseteq> t_OrderID ` set (tasks d)"
      by (simp add: requeue_db_tasks map_where_same_image)
    fix st assume "status_fits st (statuses d (t_OrderID t))"
    then show "status_fits st (statuses ?d (t_OrderID t))"
      using s(2-4) statuses_member [OF assms(3)] assms(4)
      by (cases st) (auto simp: status_fits_def)
  qed (rule s(1))
qed

lemma all_done_statuses: "all_done i d \<longleftrightarrow> statuses d i \<subseteq> {TaskCompleted}"
  by (auto simp: all_done_def statuses_def)

lemma statuses_cong:
  "map (\<lambda>x. (t_OrderID x, t_Status x)) (tasks d') = map (\<lambda>x. (t_OrderID x, t_Status x)) (tasks d) \<Longrightarrow>
     statuses d' = statuses d"
proof -
  have eq: "statuses e i = snd ` {p \<in> set (map (\<lambda>x. (t_OrderID x, t_Status x)) (tasks e)). fst p = i}" for e i
    by (auto simp: statuses_def image_iff)
  assume "map (\<lambda>x. (t_OrderID x, t_Status x)) (tasks d') = map (\<lambda>x. (t_OrderID x, t_Status x)) (tasks d)"
  then show ?thesis by (simp add: fun_eq_iff eq del: set_map)
qed

definition after_completion :: "bool \<Rightarrow> OrderStatus \<Rightarrow> OrderStatus" where
  "after_completion all_completed st =
     (let st1 = if st \<in> {OrderConfirmed, OrderInProgress} then OrderPartCompleted else st
      in if all_completed \<and> st1 \<in> {OrderConfirmed, OrderInProgress, OrderPartCompleted}
         then OrderCompleted else st1)"

lemma complete_db_statuses:
  "statuses (complete_db t sid mid n tc tm secs eff d) = statuses (set_tasks (the_task t) (complete_row n) d)"
  by (rule statuses_cong) (simp add: complete_db_tasks map_where_def)

lemma complete_db_orders:
  "orders (complete_db t sid mid n tc tm secs eff d) =
     map_where (\<lambda>ord. o_ID ord = t_OrderID t) (\<lambda>ord. ord\<lparr>o_Status :=
       after_completion (statuses (complete_db t sid mid n tc tm secs eff d) (t_OrderID t) \<subseteq> {TaskCompleted})
         (o_Status ord)\<rparr>) (orders d)"
proof -
  let ?i = "t_OrderID t"
  let ?e = "release_deps (t_ID t) (credit_staff sid (- 1) secs eff (adjust_machine mid (- 1) tm
           (adjust_counter (t_CounterID t) (- 1) tc (set_tasks (the_task t) (complete_row n) d))))"
  let ?f = "set_order_status ?i {OrderConfirmed, OrderInProgress} OrderPartCompleted ?e"
  have "statuses ?f = statuses (complete_db t sid mid n tc tm secs eff d)"
    by (rule statuses_cong) (simp add: complete_db_def)
  then have "all_done ?i ?f \<longleftrightarrow> statuses (complete_db t sid mid n tc tm secs eff d) ?i \<subseteq> {TaskCompleted}"
    by (simp add: all_done_statuses)
  moreover have "orders (complete_db t sid mid n tc tm secs eff d) = orders (finish_order ?i ?f)"
    by (simp add: complete_db_def)
  ultimately show ?thesis
    by (auto simp: finish_order_def set_order_status_orders map_where_def after_completion_def Let_def)
qed

lemma orders_ok_complete:
  assumes "keys d" "orders_ok d" "t \<in> set (tasks d)" "t_Status t = TaskStarted"
  shows "orders_ok (complete_db t sid mid n tc tm secs eff d)"
proof -
  let ?d = "complete_db t sid mid n tc tm secs eff d"
  have "tasks (set_tasks (the_task t) (complete_row n) d) = map_where (the_task t) (complete_row n) (tasks d)"
    by simp
  note s = statuses_update [where st = TaskCompleted, OF assms(1,3) this, simplified,
      folded complete_db_statuses [of t sid mid n tc tm secs eff d]]
  show ?thesis
  proof (rule orders_ok_update [OF assms(2,3) _ _ complete_db_orders])
    show "t_OrderID ` set (tasks ?d) \<subseteq> t_OrderID ` set (tasks d)"
      by (simp add: complete_db_tasks map_where_same_image)
    fix st assume "status_fits st (statuses d (t_OrderID t))"
    then show "status_fits (after_completion (statuses ?d (t_OrderID t) \<subseteq> {TaskCompleted}) st)
        (statuses ?d (t_OrderID t))"
      using s(2-4) statuses_member [OF assms(3)] assms(4)
      by (cases st) (auto simp: status_fits_def after_completion_def Let_def)
  qed (rule s(1))
qed

lemma orders_ok_create:
  assumes "orders_ok d" "new_rows ord rows" "o_ID ord \<notin> o_ID ` set (orders d)"
  shows "orders_ok (create_db ord rows d)"
proof -
  have old: "statuses (create_db ord rows d) i = statuses d i" if "i \<noteq> o_ID ord" for i
    using that assms(2) by (auto simp: statuses_def new_rows_def)
  have "t_OrderID x \<noteq> o_ID ord" if "x \<in> set (tasks d)" for x
    using that assms(1,3) unfolding orders_ok_def by (metis image_eqI)
  moreover have "t_OrderID x = o_ID ord" if "x \<in> set rows" for x
    using that assms(2) by (simp add: new_rows_def)
  ultimately have "{x \<in> set (tasks d @ rows). t_OrderID x = o_ID ord} = set rows" by auto
  then have "statuses (create_db ord rows d) (o_ID ord) = t_Status ` set rows"
    by (simp add: statuses_def)
  also have "\<dots> = {TaskUnassigned}"
    using assms(2) by (cases rows) (auto simp: new_rows_def)
  finally have new: "status_fits (o_Status ord) (statuses (create_db ord rows d) (o_ID ord))"
    using assms(2) by (simp add: status_fits_def new_rows_def)
  have "o_ID q \<noteq> o_ID ord" if "q \<in> set (orders d)" for q
    using that assms(3) by (metis image_eqI)
  then show ?thesis
    using assms(1,2) old new by (auto simp: orders_ok_def new_rows_def)
qed

lemma orders_ok_same:
  assumes "orders_ok d" "orders d' = orders d"
    "map (\<lambda>x. (t_OrderID x, t_Status x)) (tasks d') = map (\<lambda>x. (t_OrderID x, t_Status x)) (tasks d)"
  shows "orders_ok d'"
proof -
  have "map t_OrderID (tasks d') = map t_OrderID (tasks d)"
    using arg_cong [OF assms(3), of "map fst"] by (simp add: comp_def)
  then have "t_OrderID ` set (tasks d') = t_OrderID ` set (tasks d)" by (metis list.set_map)
  then have "\<forall>x \<in> set (tasks d'). t_OrderID x \<in> o_ID ` set (orders d')"
    using assms(1,2) unfolding orders_ok_def by (metis (no_types, lifting) image_iff)
  then show ?thesis
    using assms(1,2) statuses_cong [OF assms(3)] by (simp add: orders_ok_def)
qed

section \<open>Gating\<close>

lemma order_of_map:
  assumes "map (\<lambda>x. (t_ID x, t_OrderID x)) (tasks d') = map (\<lambda>x. (t_ID x, t_OrderID x)) (tasks d)"
  shows "order_of d' = order_of d"
proof -
  have "order_of e i j \<longleftrightarrow> (i, j) \<in> set (map (\<lambda>x. (t_ID x, t_OrderID x)) (tasks e))" for e i j
    by (auto simp: order_of_def)
  then show ?thesis using assms by (simp add: fun_eq_iff del: set_map)
qed

lemma local_deps_cong:
  "order_of d' = order_of d \<Longrightarrow> task_dependencies d' = task_dependencies d \<Longrightarrow> local_deps d' = local_deps d"
  by (simp add: local_deps_def)

lemma order_of_unique: "keys d \<Longrightarrow> order_of d i j \<Longrightarrow> order_of d i k \<Longrightarrow> j = k"
  unfolding order_of_def using keys_the_task by metis

lemma order_ofI: "t \<in> set (tasks d) \<Longrightarrow> order_of d (t_ID t) (t_OrderID t)"
  by (auto simp: order_of_def)

lemma gated_settled: "gated Q d \<Longrightarrow> \<not> dormant Q d i \<Longrightarrow> settled d i"
  by (auto simp: gated_def)

lemma awake:
  assumes "t \<in> set (tasks d)" "t_Status t \<noteq> TaskUnassigned \<or> t_ID t \<in> Q"
  shows "\<not> dormant Q d (t_OrderID t)"
  using assms by (auto simp: dormant_def)

text \<open>A change of one row that neither completes the task nor was complete.\<close>

lemma gated_row:
  assumes "keys d" "gated Q d" "t \<in> set (tasks d)"
    and "tasks d' = map_where (the_task t) g (tasks d)" "task_dependencies d' = task_dependencies d"
    and "\<And>x. t_ID (g x) = t_ID x" "\<And>x. t_OrderID (g x) = t_OrderID x"
    and "t_Status t \<noteq> TaskCompleted" "t_Status (g t) \<noteq> TaskCompleted"
    and "\<not> dormant Q d (t_OrderID t)"
    and "task_settled d t \<Longrightarrow> task_settled d (g t)"
  shows "gated Q d'"
proof -
  have one: "x = t" if "x \<in> set (tasks d)" "t_ID x = t_ID t" for x
    using keys_the_task [OF assms(1,3) that] .
  have mem: "x \<in> set (tasks d') \<longleftrightarrow> (\<exists>y \<in> set (tasks d). x = (if y = t then g t else y))" for x
    using one unfolding assms(4) map_where_set the_task_iff by metis
  have "map (\<lambda>x. (t_ID x, t_OrderID x)) (tasks d') = map (\<lambda>x. (t_ID x, t_OrderID x)) (tasks d)"
    unfolding assms(4) using assms(6,7) by (intro map_where_keys) simp
  then have loc: "local_deps d' = local_deps d" using order_of_map assms(5) local_deps_cong by blast
  let ?f = "\<lambda>y. if y = t then g t else y"
  have f: "t_ID (?f y) = t_ID y" "t_Status (?f y) = TaskCompleted \<longleftrightarrow> t_Status y = TaskCompleted" for y
    using assms(6,8,9) by simp_all
  have "is_done d' i \<longleftrightarrow> (\<exists>y \<in> set (tasks d). t_ID (?f y) = i \<and> t_Status (?f y) = TaskCompleted)" for i
    unfolding is_done_def Bex_def mem by blast
  then have "is_done d' i = is_done d i" for i unfolding f is_done_def .
  then have dn: "is_done d' = is_done d" by blast
  have op: "open_deps d' = open_deps d" by (simp add: fun_eq_iff open_deps_def dn assms(5))
  have ts: "task_settled d' = task_settled d" by (simp add: fun_eq_iff task_settled_def op)
  have "settled d' i \<or> dormant Q d' i" for i
  proof (cases "settled d i")
    case True
    then show ?thesis
      using assms(7,11) by (auto simp: settled_def mem ts)
  next
    case False
    then have "dormant Q d i" "i \<noteq> t_OrderID t" using assms(2,10) by (auto simp: gated_def)
    then show ?thesis using assms(7) by (auto simp: dormant_def mem split: if_splits)
  qed
  then show ?thesis using assms(2) loc by (simp add: gated_def)
qed

lemma gated_assign:
  assumes "keys d" "gated Q d" "t \<in> set (tasks d)" "t_Status t = TaskUnassigned" "t_PendingDeps t = 0"
    "t_ID t \<in> Q"
  shows "gated Q (assign_db t sid mid n tc tm d)"
  by (rule gated_row [OF assms(1-3) assign_db_tasks])
    (use assms(4,5) awake [OF assms(3)] assms(6) in \<open>auto simp: assign_db_def task_settled_def\<close>)

lemma gated_start:
  assumes "keys d" "gated Q d" "t \<in> set (tasks d)" "t_Status t = TaskAssigned"
  shows "gated Q (start_db t n d)"
  by (rule gated_row [OF assms(1-3) start_db_tasks])
    (use assms(4) awake [OF assms(3)] in \<open>auto simp: start_db_def task_settled_def\<close>)

lemma gated_requeue:
  assumes "keys d" "gated Q d" "t \<in> set (tasks d)" "t_Status t = TaskAssigned" "t_PendingDeps t = 0"
  shows "gated Q (requeue_db t sid mid tc tm d)"
  by (rule gated_row [OF assms(1-3) requeue_db_tasks])
    (use assms(4,5) awake [OF assms(3)] in \<open>auto simp: requeue_db_def task_settled_def\<close>)

text \<open>Completing a task closes one dependency of each task that waits for it, and only those.\<close>

definition row_after :: "database \<Rightarrow> TaskModel \<Rightarrow> int \<Rightarrow> TaskModel \<Rightarrow> TaskModel" where
  "row_after d t n y =
     (let z = (if t_ID y = t_ID t then complete_row n y else y) in if waits_for d t z then count_down z else z)"

lemma row_after_sel [simp]:
  "t_ID (row_after d t n y) = t_ID y" "t_OrderID (row_after d t n y) = t_OrderID y"
  "t_Status (row_after d t n y) = (if t_ID y = t_ID t then TaskCompleted else t_Status y)"
  by (simp_all add: row_after_def Let_def)

lemma complete_db_rows: "tasks (complete_db t sid mid n tc tm secs eff d) = map (row_after d t n) (tasks d)"
  by (auto simp: complete_db_tasks map_where_def row_after_def Let_def)

lemma is_done_complete:
  assumes "t \<in> set (tasks d)"
  shows "is_done (complete_db t sid mid n tc tm secs eff d) i \<longleftrightarrow> is_done d i \<or> i = t_ID t"
proof -
  have "t_Status (row_after d t n y) = TaskCompleted \<longleftrightarrow> t_Status y = TaskCompleted \<or> t_ID y = t_ID t" for y
    by simp
  then show ?thesis
    using assms by (auto simp: is_done_def complete_db_rows simp del: row_after_sel(3))
qed

lemma count_split:
  assumes "distinct (map dep_key tds)"
  shows "count (\<lambda>td. td_TaskID td = i \<and> P (td_DependsOnTaskID td)) tds =
    count (\<lambda>td. td_TaskID td = i \<and> P (td_DependsOnTaskID td) \<and> td_DependsOnTaskID td \<noteq> j) tds +
    of_bool (P j \<and> (\<exists>td \<in> set tds. td_TaskID td = i \<and> td_DependsOnTaskID td = j))"
  using assms
proof (induction tds)
  case (Cons td tds)
  show ?case
  proof (cases "td_TaskID td = i \<and> td_DependsOnTaskID td = j")
    case True
    then have "\<not> (\<exists>x \<in> set tds. td_TaskID x = i \<and> td_DependsOnTaskID x = j)"
      using Cons.prems by (auto simp: dep_key_def image_iff)
    then show ?thesis using True Cons by auto
  next
    case False
    then show ?thesis using Cons by auto
  qed
qed simp

lemma open_deps_complete:
  assumes "keys d" "t \<in> set (tasks d)" "t_Status t \<noteq> TaskCompleted"
  shows "open_deps (complete_db t sid mid n tc tm secs eff d) i =
    open_deps d i - of_bool (depends_on d i (t_ID t))"
proof -
  have k: "distinct (map dep_key (task_dependencies d))" using assms(1) by (simp add: keys_def)
  have nd: "\<not> is_done d (t_ID t)"
    using assms keys_the_task by (auto simp: is_done_def)
  have "task_dependencies (complete_db t sid mid n tc tm secs eff d) = task_dependencies d"
    by (simp add: complete_db_def)
  then have "open_deps (complete_db t sid mid n tc tm secs eff d) i =
     count (\<lambda>td. td_TaskID td = i \<and> \<not> is_done d (td_DependsOnTaskID td) \<and> td_DependsOnTaskID td \<noteq> t_ID t)
       (task_dependencies d)"
    using is_done_complete [OF assms(2)] by (simp add: open_deps_def)
  then show ?thesis
    using count_split [OF k, of i "\<lambda>x. \<not> is_done d x" "t_ID t"] nd by (simp add: open_deps_def depends_on_def)
qed

lemma open_deps_nonneg [simp]: "0 \<le> open_deps d i"
  by (simp add: open_deps_def)

lemma gated_complete:
  assumes "keys d" "gated Q d" "t \<in> set (tasks d)" "t_Status t = TaskStarted"
  shows "gated Q (complete_db t sid mid n tc tm secs eff d)"
proof -
  let ?d = "complete_db t sid mid n tc tm secs eff d"
  have one: "x = t" if "x \<in> set (tasks d)" "t_ID x = t_ID t" for x
    using keys_the_task [OF assms(1,3) that] .
  have deps: "task_dependencies ?d = task_dependencies d" by (simp add: complete_db_def)
  have "map (\<lambda>x. (t_ID x, t_OrderID x)) (tasks ?d) = map (\<lambda>x. (t_ID x, t_OrderID x)) (tasks d)"
    by (simp add: complete_db_tasks map_where_def)
  then have loc: "local_deps ?d = local_deps d" using order_of_map deps local_deps_cong by blast
  have op: "open_deps ?d i = open_deps d i - of_bool (depends_on d i (t_ID t))" for i
    using open_deps_complete [OF assms(1,3)] assms(4) by simp
  have ts: "task_settled ?d (row_after d t n y)" if "y \<in> set (tasks d)" "task_settled d y" for y
  proof (cases "y = t")
    case True
    then show ?thesis
      using that(2) assms(4) open_deps_nonneg [of ?d "t_ID t"]
      by (auto simp: task_settled_def op split: if_splits)
  next
    case False
    then have "t_ID y \<noteq> t_ID t" using one that(1) by blast
    then show ?thesis
      using that(2) open_deps_nonneg [of ?d "t_ID y"]
      by (auto simp: task_settled_def row_after_def waits_for_def op count_down_def split: if_splits)
  qed
  have "settled ?d i \<or> dormant Q ?d i" for i
  proof (cases "settled d i")
    case True
    then have "settled ?d i" using ts by (auto simp: settled_def complete_db_rows)
    then show ?thesis ..
  next
    case False
    then have "dormant Q d i" "i \<noteq> t_OrderID t"
      using assms(2) awake [OF assms(3), of Q] assms(4) by (auto simp: gated_def)
    then have "dormant Q ?d i"
      using one by (auto simp: dormant_def complete_db_rows)
    then show ?thesis ..
  qed
  then show ?thesis using assms(2) loc by (simp add: gated_def)
qed

text \<open>A new order: no dependency mentions its tasks.\<close>

lemma gated_create:
  assumes "gated Q d" "orders_ok d" "new_rows ord rows" "o_ID ord \<notin> o_ID ` set (orders d)"
    "distinct (map t_ID (tasks d @ rows))"
  shows "gated Q (create_db ord rows d)"
proof -
  let ?d = "create_db ord rows d"
  have new: "t_OrderID t = o_ID ord" "t_Status t = TaskUnassigned" "t_PendingDeps t = 0" if "t \<in> set rows" for t
    using that assms(3) by (auto simp: new_rows_def)
  have old: "t_OrderID t \<noteq> o_ID ord" if "t \<in> set (tasks d)" for t
    using that assms(2,4) unfolding orders_ok_def by (metis image_eqI)
  have "is_done ?d i \<longleftrightarrow> is_done d i" for i
    unfolding is_done_def create_db_sel set_append using new(2) by (metis TaskStatus.distinct(5) UnE UnI1)
  then have dn: "is_done ?d = is_done d" by blast
  have op: "open_deps ?d = open_deps d" by (simp add: fun_eq_iff open_deps_def dn)
  have "order_of d i j \<Longrightarrow> order_of ?d i j" for i j by (auto simp: order_of_def)
  then have loc: "local_deps ?d" using assms(1) unfolding gated_def local_deps_def create_db_sel by blast
  have "t_ID t \<notin> td_TaskID ` set (task_dependencies d)" if "t \<in> set rows" for t
  proof
    assume "t_ID t \<in> td_TaskID ` set (task_dependencies d)"
    then obtain td where "td \<in> set (task_dependencies d)" "td_TaskID td = t_ID t" by auto
    then obtain x where "x \<in> set (tasks d)" "t_ID x = t_ID t"
      using assms(1) unfolding gated_def local_deps_def order_of_def by metis
    then show False using that assms(5) by (simp add: disjoint_iff) (metis image_eqI)
  qed
  then have "open_deps d (t_ID t) = 0" if "t \<in> set rows" for t
    using that unfolding open_deps_def count_zero by (metis image_eqI)
  then have ts: "task_settled ?d t" if "t \<in> set rows" for t
    using that new by (simp add: task_settled_def op)
  have ts_old: "task_settled ?d = task_settled d" by (simp add: fun_eq_iff task_settled_def op)
  have "settled ?d i \<or> dormant Q ?d i" for i
  proof (cases "i = o_ID ord")
    case True
    then have "settled ?d i" using old ts by (auto simp: settled_def)
    then show ?thesis ..
  next
    case False
    then have "settled d i \<Longrightarrow> settled ?d i" "dormant Q d i \<Longrightarrow> dormant Q ?d i"
      using new(1) by (auto simp: settled_def dormant_def ts_old)
    then show ?thesis using assms(1) by (auto simp: gated_def)
  qed
  then show ?thesis using loc by (simp add: gated_def)
qed

lemma gated_link:
  assumes "keys d" "gated Q d" "dormant Q d orderID"
    "\<forall>td \<in> set deps. order_of d (td_TaskID td) orderID \<and> order_of d (td_DependsOnTaskID td) orderID"
  shows "gated Q (link_db deps d)"
proof -
  let ?d = "link_db deps d"
  have dn: "is_done ?d = is_done d" and oo: "order_of ?d = order_of d"
    by (simp_all add: fun_eq_iff is_done_def order_of_def)
  have loc: "local_deps ?d" using assms(2,4) by (auto simp: gated_def local_deps_def oo)
  have "open_deps ?d (t_ID t) = open_deps d (t_ID t)" if "t \<in> set (tasks d)" "t_OrderID t \<noteq> orderID" for t
  proof -
    have "td_TaskID td \<noteq> t_ID t" if "td \<in> set deps" for td
      using that assms(1,4) \<open>t \<in> set (tasks d)\<close> \<open>t_OrderID t \<noteq> orderID\<close> order_of_unique order_ofI by metis
    then have "count (\<lambda>td. td_TaskID td = t_ID t \<and> \<not> is_done d (td_DependsOnTaskID td)) deps = 0"
      by (auto simp: count_zero)
    then show ?thesis by (simp add: open_deps_def dn)
  qed
  then have "settled d i \<Longrightarrow> settled ?d i" if "i \<noteq> orderID" for i
    using that by (auto simp: settled_def task_settled_def)
  moreover have "dormant Q ?d i = dormant Q d i" for i by (simp add: dormant_def)
  ultimately have "settled ?d i \<or> dormant Q ?d i" for i
    using assms(2,3) by (cases "i = orderID") (auto simp: gated_def)
  then show ?thesis using loc by (simp add: gated_def)
qed

lemma dep_count_order:
  assumes "keys d" "t \<in> set (tasks d)"
  shows "dep_count d orderID (t_ID t) =
    (if t_OrderID t = orderID then count (\<lambda>td. td_TaskID td = t_ID t) (task_dependencies d) else 0)"
proof -
  have k: "distinct (map t_ID (tasks d))" using assms(1) by (simp add: keys_def)
  have one: "filter (\<lambda>x. t_ID x = t_ID t \<and> t_OrderID x = orderID) (tasks d) =
      (if t_OrderID t = orderID then [t] else [])"
  proof -
    have "filter (\<lambda>x. t_ID x = t_ID t \<and> t_OrderID x = orderID) (tasks d) =
        filter (\<lambda>x. t_OrderID x = orderID) (filter (\<lambda>x. t_ID x = t_ID t) (tasks d))"
      by (simp add: conj_commute)
    then show ?thesis using filter_unique_key [OF k assms(2)] by simp
  qed
  have "map (\<lambda>td. filter (\<lambda>x. t_ID x = td_TaskID td \<and> t_OrderID x = orderID) (tasks d))
          (filter (\<lambda>td. td_TaskID td = t_ID t) tds) =
        map (\<lambda>_. if t_OrderID t = orderID then [t] else []) (filter (\<lambda>td. td_TaskID td = t_ID t) tds)" for tds
    using one by (intro map_cong) auto
  then have "dep_count d orderID (t_ID t) = int (length (concat (map (\<lambda>_. if t_OrderID t = orderID then [t] else [])
      (filter (\<lambda>td. td_TaskID td = t_ID t) (task_dependencies d)))))"
    unfolding dep_count_def by metis
  also have "length (concat (map (\<lambda>_. ys) xs)) = length xs * length ys" for xs :: "'x list" and ys :: "'y list"
    by (induction xs) auto
  finally show ?thesis by (simp add: count_def)
qed

lemma count_mono_le: "(\<And>r. r \<in> set rows \<Longrightarrow> P r \<Longrightarrow> Q r) \<Longrightarrow> count P rows \<le> count Q rows"
  by (induction rows) auto

lemma recount_tasks:
  "tasks (recount_db orderID d) = map (\<lambda>t. if 0 < dep_count d orderID (t_ID t)
     then t\<lparr>t_PendingDeps := dep_count d orderID (t_ID t)\<rparr> else t) (tasks d)"
  by (simp add: recount_db_def map_where_def)

lemma recount_row: "x \<in> set (tasks (recount_db orderID d)) \<Longrightarrow>
    \<exists>t \<in> set (tasks d). x = t \<or> 0 < dep_count d orderID (t_ID t) \<and>
       x = t\<lparr>t_PendingDeps := dep_count d orderID (t_ID t)\<rparr>"
  by (auto simp: recount_tasks split: if_splits)

lemma recount_sel [simp]:
  "orders (recount_db i d) = orders d" "counters (recount_db i d) = counters d"
  "staff (recount_db i d) = staff d" "machines (recount_db i d) = machines d"
  "task_dependencies (recount_db i d) = task_dependencies d"
  "map t_ID (tasks (recount_db i d)) = map t_ID (tasks d)"
  by (simp_all add: recount_db_def)

lemma recount_same: "(\<And>t p. f (t\<lparr>t_PendingDeps := p\<rparr>) = f t) \<Longrightarrow> map f (tasks (recount_db i d)) = map f (tasks d)"
  by (simp add: recount_tasks)

lemma recount_is_done: "is_done (recount_db i d) = is_done d"
proof -
  have "is_done e k \<longleftrightarrow> (k, TaskCompleted) \<in> set (map (\<lambda>x. (t_ID x, t_Status x)) (tasks e))" for e k
    by (auto simp: is_done_def)
  then show ?thesis
    using recount_same [of "\<lambda>x. (t_ID x, t_Status x)" i d] by (simp add: fun_eq_iff del: set_map)
qed

lemma gated_recount:
  assumes "keys d" "gated Q d" "dormant Q d orderID"
  shows "gated Q (recount_db orderID d)"
proof -
  let ?d = "recount_db orderID d"
  have oo: "order_of ?d = order_of d" by (rule order_of_map, rule recount_same) simp
  have dn: "is_done ?d = is_done d" by (rule recount_is_done)
  have op: "open_deps ?d = open_deps d" by (simp add: fun_eq_iff open_deps_def dn)
  have "dep_count d orderID (t_ID t) = 0" if "t \<in> set (tasks d)" "t_OrderID t \<noteq> orderID" for t
    using that dep_count_order [OF assms(1) that(1)] by simp
  then have "settled ?d i" if "settled d i" "i \<noteq> orderID" for i
    using that by (auto simp: settled_def task_settled_def op recount_tasks)
  moreover have "dormant Q ?d i" if "dormant Q d i" for i
    using that by (auto simp: dormant_def recount_tasks)
  ultimately have "settled ?d i \<or> dormant Q ?d i" for i
    using assms(2,3) by (cases "i = orderID") (auto simp: gated_def)
  then show ?thesis
    using assms(2) local_deps_cong [OF oo] by (simp add: gated_def)
qed

section \<open>Every transition keeps the invariant\<close>

lemma known_update:
  assumes "known Q d" "map t_ID (tasks d') = map t_ID (tasks d)"
  shows "known Q d'"
proof -
  have "t_ID ` set (tasks d') = t_ID ` set (tasks d)" using assms(2) by (metis list.set_map)
  then show ?thesis using assms(1) by (simp add: known_def)
qed

lemma ids_after:
  "map t_ID (tasks (assign_db t sid mid n tc tm d)) = map t_ID (tasks d)"
  "map t_ID (tasks (start_db t n d)) = map t_ID (tasks d)"
  "map t_ID (tasks (complete_db t sid mid n tc tm secs eff d)) = map t_ID (tasks d)"
  "map t_ID (tasks (requeue_db t sid mid tc tm d)) = map t_ID (tasks d)"
  by (simp_all add: assign_db_tasks start_db_tasks complete_db_tasks requeue_db_tasks)

lemma create_keeps:
  assumes "kitchen_ok (Q, d)" "new_rows ord rows" "o_ID ord \<notin> o_ID ` set (orders d)"
    "distinct (map t_ID (tasks d @ rows))"
  shows "kitchen_ok (Q, create_db ord rows d)"
proof -
  have ok: "keys d" "tasks_ok d" "figures_ok d" "limits_ok d" "orders_ok d" "gated Q d"
    using assms(1) by (simp_all add: kitchen_ok_def)
  have rows: "\<forall>t \<in> set rows. task_ok t" "\<forall>t \<in> set rows. \<not> occupies t"
    using assms(2) by (auto simp: new_rows_def task_ok_def occupies_def)
  have "keys (create_db ord rows d)" using ok(1) assms(3,4) by (simp add: keys_def)
  moreover have "tasks_ok (create_db ord rows d)" using ok(2) rows(1) by (auto simp: tasks_ok_def)
  moreover have "figures_ok (create_db ord rows d)"
    using ok(3) rows(2)
    by (simp add: figures_ok_def counter.accounts_append machine.accounts_append worker.accounts_append)
  moreover have "limits_ok (create_db ord rows d)" using ok(4) by (simp add: limits_ok_def)
  moreover have "known Q (create_db ord rows d)"
    using assms(1) by (auto simp: kitchen_ok_def known_def)
  ultimately show ?thesis
    using orders_ok_create [OF ok(5) assms(2,3)] gated_create [OF ok(6,5) assms(2-4)]
    by (simp add: kitchen_ok_def)
qed

lemma link_keeps:
  assumes "kitchen_ok (Q, d)" "distinct (map dep_key (task_dependencies d @ deps))" "dormant Q d orderID"
    "\<forall>td \<in> set deps. order_of d (td_TaskID td) orderID \<and> order_of d (td_DependsOnTaskID td) orderID"
  shows "kitchen_ok (Q, link_db deps d)"
  using assms gated_link [OF _ _ assms(3,4)]
  by (simp add: kitchen_ok_def keys_def tasks_ok_def figures_ok_def limits_ok_def known_def
      orders_ok_same [of d])

lemma recount_keeps:
  assumes "kitchen_ok (Q, d)" "dormant Q d orderID"
  shows "kitchen_ok (Q, recount_db orderID d)"
proof -
  let ?d = "recount_db orderID d"
  have ok: "keys d" "tasks_ok d" "figures_ok d" "limits_ok d" "orders_ok d" "gated Q d"
    using assms(1) by (simp_all add: kitchen_ok_def)
  have "task_ok x" if "x \<in> set (tasks ?d)" for x
  proof -
    obtain t where t: "t \<in> set (tasks d)" "x = t \<or> 0 < dep_count d orderID (t_ID t) \<and>
       x = t\<lparr>t_PendingDeps := dep_count d orderID (t_ID t)\<rparr>"
      using recount_row [OF \<open>x \<in> set (tasks ?d)\<close>] by blast
    have "t_OrderID t = orderID" if "0 < dep_count d orderID (t_ID t)"
      using that dep_count_order [OF ok(1) t(1), of orderID] by (auto split: if_splits)
    then show ?thesis
      using t assms(2) ok(2) by (auto simp: tasks_ok_def task_ok_def dormant_def)
  qed
  then have "tasks_ok ?d" by (simp add: tasks_ok_def)
  moreover have "figures_ok ?d"
    using ok(3) unfolding figures_ok_def recount_db_def set_tasks_sel
    by (intro conjI counter.accounts_pending machine.accounts_pending worker.accounts_pending) blast+
  moreover have "orders_ok ?d" by (rule orders_ok_same [OF ok(5)]) (simp_all add: recount_tasks)
  moreover have "keys ?d" using ok(1) by (simp add: keys_def)
  moreover have "limits_ok ?d" using ok(4) by (simp add: limits_ok_def)
  moreover have "known Q ?d" using assms(1) by (auto simp: kitchen_ok_def intro: known_update)
  ultimately show ?thesis
    using gated_recount [OF ok(1,6) assms(2)] by (simp add: kitchen_ok_def)
qed

lemma put_keeps:
  assumes "kitchen_ok (Q, d)" "Q' \<subseteq> Q \<union> settled_ids d"
  shows "kitchen_ok (Q', d)"
proof -
  have "settled d i \<or> dormant Q' d i" for i
  proof (cases "settled d i")
    case False
    have "t_ID x \<notin> settled_ids d" if "x \<in> set (tasks d)" "t_OrderID x = i" for x
      using False that keys_the_task [OF _ that(1)] assms(1) by (auto simp: kitchen_ok_def settled_ids_def)
    then have "dormant Q d i \<Longrightarrow> dormant Q' d i" using assms(2) unfolding dormant_def by blast
    then show ?thesis using assms(1) False by (auto simp: kitchen_ok_def gated_def)
  qed simp
  moreover have "known Q' d"
    using assms by (auto simp: kitchen_ok_def known_def settled_ids_def)
  ultimately show ?thesis using assms(1) by (simp add: kitchen_ok_def gated_def)
qed

lemma kitchen_step_ok:
  assumes "kitchen_step s s'" "kitchen_ok s"
  shows "kitchen_ok s'"
  using assms
proof (induction rule: kitchen_step.induct)
  case (idle d d' Q' Q)
  then show ?case using kitchen_ok_subset same_core_kitchen_ok by blast
next
  case (put Q' Q d)
  then show ?case using put_keeps by blast
next
  case (assign t d Q c m s now tc tm d')
  then have "kitchen_ok (Q, assign_db t (s_ID s) (m_ID m) now tc tm d)"
    by (auto simp: kitchen_ok_def keys_assign eligible_staff_set on_shift_def
        intro!: tasks_ok_assign figures_ok_assign orders_ok_assign gated_assign
          limits_ok_assign [where c = c and m = m and s = s] known_update [OF _ ids_after(1)])
  then show ?case using same_core_kitchen_ok assign by blast
next
  case (start t d now d' Q)
  then have "kitchen_ok (Q, start_db t now d)"
    by (auto simp: kitchen_ok_def keys_start limits_ok_start
        intro!: tasks_ok_start figures_ok_start orders_ok_start gated_start known_update [OF _ ids_after(2)])
  then show ?case using same_core_kitchen_ok start by blast
next
  case (complete t d sid mid now tc tm secs eff d' Q)
  then have "kitchen_ok (Q, complete_db t sid mid now tc tm secs eff d)"
    by (auto simp: kitchen_ok_def keys_complete
        intro!: tasks_ok_complete figures_ok_complete orders_ok_complete gated_complete limits_ok_complete
          known_update [OF _ ids_after(3)])
  then show ?case using same_core_kitchen_ok complete by blast
next
  case (requeue t d cutoff sid mid tc tm d' Q)
  moreover have "t_Status t = TaskAssigned" "t_PendingDeps t = 0"
    using requeue by (auto simp: expired_def kitchen_ok_def tasks_ok_def task_ok_def)
  ultimately have "kitchen_ok (Q, requeue_db t sid mid tc tm d)"
    by (auto simp: kitchen_ok_def keys_requeue
        intro!: tasks_ok_requeue figures_ok_requeue orders_ok_requeue gated_requeue limits_ok_requeue
          known_update [OF _ ids_after(4)])
  then show ?case using same_core_kitchen_ok requeue by blast
next
  case (create ord rows d d' Q)
  then show ?case using create_keeps same_core_kitchen_ok by blast
next
  case (link d deps Q orderID d')
  then show ?case using link_keeps same_core_kitchen_ok by blast
next
  case (recount Q d orderID d')
  then show ?case using recount_keeps same_core_kitchen_ok by blast
qed

text \<open>Runs of the kitchen.\<close>

definition kitchen_run :: "nat set \<times> database \<Rightarrow> nat set \<times> database \<Rightarrow> bool" where
  "kitchen_run = kitchen_step\<^sup>*\<^sup>*"

lemma kitchen_run_refl [simp]: "kitchen_run s s"
  by (simp add: kitchen_run_def)

lemma kitchen_run_trans: "kitchen_run s s' \<Longrightarrow> kitchen_run s' s'' \<Longrightarrow> kitchen_run s s''"
  unfolding kitchen_run_def by (rule rtranclp_trans)

lemma kitchen_run_step: "kitchen_step s s' \<Longrightarrow> kitchen_run s s'"
  by (simp add: kitchen_run_def)

lemma kitchen_run_ok: "kitchen_run s s' \<Longrightarrow> kitchen_ok s \<Longrightarrow> kitchen_ok s'"
  unfolding kitchen_run_def by (induction rule: rtranclp_induct) (auto intro: kitchen_step_ok)

end
