(* ===== verification/RecipeRepo.thy ===== *)
theory RecipeRepo imports
  Store
begin

text \<open>
  \<open>internal/repository/recipe_repo.go\<close>: the recipe steps, the explicit dependencies between steps
  and the capacities of machines that the confirmation of an order reads. A Go map is an
  association list with distinct keys.
\<close>

section \<open>Distinct keys\<close>

text \<open>The loop that drops empty and repeated keys, and the one that drops zero and repeated ids.\<close>

fun dedup_keys :: "string list \<Rightarrow> string list \<Rightarrow> string list" where
  "dedup_keys seen [] = []"
| "dedup_keys seen (key # ks) =
     (if key = [] then dedup_keys seen ks
      else if key \<in> set seen then dedup_keys seen ks
      else key # dedup_keys (key # seen) ks)"

fun dedup_ids :: "nat list \<Rightarrow> nat list \<Rightarrow> nat list" where
  "dedup_ids seen [] = []"
| "dedup_ids seen (i # ids) =
     (if i = 0 then dedup_ids seen ids
      else if i \<in> set seen then dedup_ids seen ids
      else i # dedup_ids (i # seen) ids)"

section \<open>Queries\<close>

text \<open>\<open>out[k] = append(out[k], v)\<close>: a missing key counts as an empty slice.\<close>

definition append_at :: "'k \<Rightarrow> 'v \<Rightarrow> ('k \<times> 'v list) list \<Rightarrow> ('k \<times> 'v list) list" where
  "append_at k v out = AList.update k ((case map_of out k of None \<Rightarrow> [] | Some vs \<Rightarrow> vs) @ [v]) out"

definition GetActiveRecipeStepsByItems ::
  "env \<Rightarrow> string list \<Rightarrow> ('q world, (string \<times> RecipeStepModel list) list) act" where
  "GetActiveRecipeStepsByItems env itemKeys =
     (if itemKeys = [] then ok []
      else let keys = sort (dedup_keys [] itemKeys)
      in and_then (statement env (query (\<lambda>n d. Inr (sort_key (\<lambda>r. (r_ItemKey r, r_StepOrder r))
             (filter (\<lambda>r. r_ItemKey r \<in> set keys \<and> r_IsActive r) (recipe_steps d)))))) (\<lambda>rows.
         ok (fold (\<lambda>row. append_at (r_ItemKey row) row) rows (map (\<lambda>key. (key, [])) keys))))"

text \<open>\<open>out[item][step] = append(out[item][step], dep)\<close> on a map of maps.\<close>

definition append_dep :: "RecipeStepDependencyModel \<Rightarrow> (string \<times> (int \<times> int list) list) list \<Rightarrow>
    (string \<times> (int \<times> int list) list) list" where
  "append_dep row out =
     (case map_of out (rd_ItemKey row) of
        None \<Rightarrow> out
      | Some m \<Rightarrow> AList.update (rd_ItemKey row)
          (append_at (rd_StepOrder row) (rd_DependsOnStepOrder row) m) out)"

definition GetRecipeStepDependenciesByItems ::
  "env \<Rightarrow> string list \<Rightarrow> ('q world, (string \<times> (int \<times> int list) list) list) act" where
  "GetRecipeStepDependenciesByItems env itemKeys =
     (if itemKeys = [] then ok []
      else let keys = sort (dedup_keys [] itemKeys)
      in and_then (statement env (query (\<lambda>n d. Inr (sort_key
             (\<lambda>r. (rd_ItemKey r, rd_StepOrder r, rd_DependsOnStepOrder r))
             (filter (\<lambda>r. rd_ItemKey r \<in> set keys) (recipe_step_dependencies d)))))) (\<lambda>rows.
         ok (fold append_dep rows (map (\<lambda>key. (key, [])) keys))))"

definition GetMachineCapacitiesByIDs :: "env \<Rightarrow> nat list \<Rightarrow> ('q world, nat \<rightharpoonup> int) act" where
  "GetMachineCapacitiesByIDs env machineIDs =
     (if machineIDs = [] then ok Map.empty
      else let ids = dedup_ids [] machineIDs
      in if ids = [] then ok Map.empty
         else and_then (statement env (query (\<lambda>n d.
                Inr (any_order env n m_ID (filter (\<lambda>m. m_ID m \<in> set ids) (machines d)))))) (\<lambda>rows.
              ok (fold (\<lambda>row out. out(m_ID row \<mapsto> m_Capacity row)) rows Map.empty)))"

section \<open>Facts\<close>

lemma dedup_keys_set: "set (dedup_keys seen ks) = set ks - set seen - {[]}"
  by (induction ks arbitrary: seen) auto

lemma dedup_keys_distinct: "distinct (dedup_keys seen ks)"
  by (induction ks arbitrary: seen) (auto simp: dedup_keys_set)

lemma dedup_ids_set: "set (dedup_ids seen ids) = set ids - set seen - {0}"
  by (induction ids arbitrary: seen) auto

lemma dedup_ids_distinct: "distinct (dedup_ids seen ids)"
  by (induction ids arbitrary: seen) (auto simp: dedup_ids_set)

text \<open>Grouping rows by key: every key of the request is present, with its rows in query order.\<close>

lemma map_of_append_at:
  "map_of (append_at k v out) k' =
     (if k' = k then Some ((case map_of out k of None \<Rightarrow> [] | Some vs \<Rightarrow> vs) @ [v]) else map_of out k')"
  by (simp add: append_at_def update_conv)

lemma map_of_fold_append_at:
  assumes "\<forall>r \<in> set rows. map_of out (key r) \<noteq> None"
  shows "map_of (fold (\<lambda>r. append_at (key r) (val r)) rows out) k =
    map_option (\<lambda>vs. vs @ map val (filter (\<lambda>r. key r = k) rows)) (map_of out k)"
  using assms
proof (induction rows arbitrary: out)
  case Nil
  then show ?case by (cases "map_of out k") auto
next
  case (Cons r rows)
  then have "\<forall>r' \<in> set rows. map_of (append_at (key r) (val r) out) (key r') \<noteq> None"
    by (auto simp: map_of_append_at)
  then show ?case
    using Cons by (cases "map_of out k") (auto simp: map_of_append_at split: option.splits)
qed

section \<open>What the lookups find\<close>

lemma insort_key_same:
  "(\<And>z. z \<in> set zs \<Longrightarrow> f y \<le> f z \<longleftrightarrow> g y \<le> g z) \<Longrightarrow> insort_key f y zs = insort_key g y zs"
  by (induction zs) auto

text \<open>Rows that agree in the first component of the key are sorted by the second.\<close>

lemma sort_key_second:
  fixes g :: "'r \<Rightarrow> 'k :: linorder" and h :: "'r \<Rightarrow> string"
  assumes "\<And>r. r \<in> set rows \<Longrightarrow> h r = k"
  shows "sort_key (\<lambda>r. (h r, g r)) rows = sort_key g rows"
  using assms
proof (induction rows)
  case (Cons r rows)
  then have "insort_key (\<lambda>r. (h r, g r)) r (sort_key g rows) = insort_key g r (sort_key g rows)"
    by (intro insort_key_same) simp
  then show ?case using Cons by simp
qed simp

text \<open>The active steps of an item in their order.\<close>

definition active_steps :: "database \<Rightarrow> string \<Rightarrow> RecipeStepModel list" where
  "active_steps d k = sort_key r_StepOrder (filter (\<lambda>r. r_ItemKey r = k \<and> r_IsActive r) (recipe_steps d))"

lemma active_rows:
  assumes "k \<in> set ks"
  shows "filter (\<lambda>r. r_ItemKey r = k) (sort_key (\<lambda>r. (r_ItemKey r, r_StepOrder r))
     (filter (\<lambda>r. r_ItemKey r \<in> set ks \<and> r_IsActive r) (recipe_steps d))) = active_steps d k"
proof -
  have "filter (\<lambda>r. r_ItemKey r = k) (filter (\<lambda>r. r_ItemKey r \<in> set ks \<and> r_IsActive r) (recipe_steps d)) =
      filter (\<lambda>r. r_ItemKey r = k \<and> r_IsActive r) (recipe_steps d)"
    using assms by (auto intro: filter_cong)
  moreover have "sort_key (\<lambda>r. (r_ItemKey r, r_StepOrder r)) (filter (\<lambda>r. r_ItemKey r = k \<and> r_IsActive r) (recipe_steps d)) =
      active_steps d k"
    unfolding active_steps_def by (rule sort_key_second) simp
  ultimately show ?thesis by (simp add: filter_sort)
qed

text \<open>The grouped rows of the lookup: every item asked for, with its active steps.\<close>

lemma recipe_lookup:
  assumes "GetActiveRecipeStepsByItems env itemKeys w = (Inr found, w')"
  shows "map_of found k =
    (if k \<in> set itemKeys \<and> k \<noteq> [] then Some (active_steps (db w) k) else None)"
proof (cases "itemKeys = []")
  case True
  then show ?thesis using assms by (simp add: GetActiveRecipeStepsByItems_def)
next
  case False
  let ?keys = "sort (dedup_keys [] itemKeys)"
  let ?rows = "sort_key (\<lambda>r. (r_ItemKey r, r_StepOrder r))
     (filter (\<lambda>r. r_ItemKey r \<in> set ?keys \<and> r_IsActive r) (recipe_steps (db w)))"
  have found: "found = fold (\<lambda>row. append_at (r_ItemKey row) row) ?rows (map (\<lambda>key. (key, [])) ?keys)"
    using assms False by (auto simp: GetActiveRecipeStepsByItems_def and_then_Inr dest!: query_Inr)
  have keys: "set ?keys = set itemKeys - {[]}" by (simp add: dedup_keys_set)
  have base: "map_of (map (\<lambda>key. (key, [])) ?keys) j = (if j \<in> set ?keys then Some [] else None)" for j
    by (simp add: map_of_map_keys comp_def restrict_map_def map_of_map_restrict)
  have "map_of found k = map_option (\<lambda>vs. vs @ map (\<lambda>r. r) (filter (\<lambda>r. r_ItemKey r = k) ?rows))
      (map_of (map (\<lambda>key. (key, [])) ?keys) k)"
    unfolding found by (rule map_of_fold_append_at) (simp add: base)
  then show ?thesis using active_rows [of k ?keys "db w"] keys by (simp add: base)
qed

end
