(* ===== verification/DependencyAnalyzer.thy ===== *)
theory DependencyAnalyzer imports
  RecipeRepo
begin

text \<open>
  \<open>internal/application/order_dependency_analyzer.go\<close>: the dependencies between the tasks of one
  copy of a recipe. Explicit dependencies of the database take precedence; without any, steps
  that look like assembly wait for all earlier steps that do not, and steps that share a machine
  of capacity at most one are serialised.
\<close>

section \<open>Edges\<close>

record taskDepPair =
  TaskIdx :: int
  DepIdx :: int

text \<open>The two variables the closure \<open>addEdge\<close> updates: the edges so far and the keys seen.\<close>

type_synonym edges = "taskDepPair list \<times> string list"

definition edge_key :: "int \<Rightarrow> int \<Rightarrow> string" where
  "edge_key taskIdx depIdx = FormatInt taskIdx @ '':'' @ FormatInt depIdx"

definition addEdge :: "(int \<rightharpoonup> int) \<Rightarrow> int \<Rightarrow> int \<Rightarrow> edges \<Rightarrow> edges" where
  "addEdge stepToTaskIdx taskStep depStep es =
     (case es of (edges, seen) \<Rightarrow>
        (case (stepToTaskIdx taskStep, stepToTaskIdx depStep) of
           (Some taskIdx, Some depIdx) \<Rightarrow>
             if taskIdx = depIdx then (edges, seen)
             else let key = edge_key taskIdx depIdx
                  in if key \<in> set seen then (edges, seen)
                     else (edges @ [\<lparr>TaskIdx = taskIdx, DepIdx = depIdx\<rparr>], key # seen)
         | _ \<Rightarrow> (edges, seen)))"

section \<open>The analyzer\<close>

definition assembly_keywords :: "string list" where
  "assembly_keywords = [''assemble'', ''assembly'', ''final'', ''finish'', ''pack'', ''plating'',
     ''plate'', ''serve'']"

definition isAssemblyLike :: "string \<Rightarrow> bool" where
  "isAssemblyLike desc =
     (let d = ToLower (TrimSpace desc)
      in if d = [] then False else list_ex (\<lambda>k. Contains d k) assembly_keywords)"

definition explicit_edges :: "(int \<rightharpoonup> int) \<Rightarrow> (int \<times> int list) list \<Rightarrow> edges \<Rightarrow> edges" where
  "explicit_edges stepToTaskIdx explicitDeps es =
     fold (\<lambda>(taskStep, deps). fold (\<lambda>depStep. addEdge stepToTaskIdx taskStep depStep) deps) explicitDeps es"

definition step_at :: "(int \<rightharpoonup> RecipeStepModel) \<Rightarrow> int \<Rightarrow> RecipeStepModel" where
  "step_at stepByOrder so = (case stepByOrder so of None \<Rightarrow> zero_RecipeStepModel | Some st \<Rightarrow> st)"

definition assembly_edges :: "(int \<rightharpoonup> int) \<Rightarrow> (int \<Rightarrow> bool) \<Rightarrow> int list \<Rightarrow> edges \<Rightarrow> edges" where
  "assembly_edges stepToTaskIdx assembly stepOrders es =
     fold (\<lambda>asm. fold (\<lambda>so es.
              if asm \<le> so then es
              else if assembly so then es
              else addEdge stepToTaskIdx asm so es) stepOrders)
       (filter assembly stepOrders) es"

definition machine_step :: "(int \<rightharpoonup> int) \<Rightarrow> (int \<Rightarrow> nat option) \<Rightarrow> (nat \<rightharpoonup> int) \<Rightarrow> int \<Rightarrow>
    (nat \<rightharpoonup> int) \<times> edges \<Rightarrow> (nat \<rightharpoonup> int) \<times> edges" where
  "machine_step stepToTaskIdx machine_of machineCapByID so st =
     (case st of (previousByMachine, es) \<Rightarrow>
        (case machine_of so of
           None \<Rightarrow> (previousByMachine, es)
         | Some mid \<Rightarrow>
             (previousByMachine(mid \<mapsto> so),
              if (case machineCapByID mid of None \<Rightarrow> 0 | Some c \<Rightarrow> c) \<le> 1
              then (case previousByMachine mid of
                      Some prev \<Rightarrow> if prev \<noteq> so then addEdge stepToTaskIdx so prev es else es
                    | None \<Rightarrow> es)
              else es)))"

text \<open>\<open>explicitDeps\<close> comes in the order in which the runtime ranges over the map.\<close>

definition inferRecipeTaskDeps ::
  "RecipeStepModel list \<Rightarrow> (int \<rightharpoonup> int) \<Rightarrow> (int \<times> int list) list \<Rightarrow> (nat \<rightharpoonup> int) \<Rightarrow> taskDepPair list" where
  "inferRecipeTaskDeps steps stepToTaskIdx explicitDeps machineCapByID =
     (if 0 < length explicitDeps then fst (explicit_edges stepToTaskIdx explicitDeps ([], []))
      else let stepOrders = sort (map r_StepOrder steps);
               stepByOrder = fold (\<lambda>st m. m(r_StepOrder st \<mapsto> st)) steps Map.empty;
               assembly = (\<lambda>so. isAssemblyLike (r_Description (step_at stepByOrder so)));
               machine_of = (\<lambda>so. r_MachineID (step_at stepByOrder so));
               es1 = assembly_edges stepToTaskIdx assembly stepOrders ([], []);
               (previousByMachine, es2) =
                 fold (machine_step stepToTaskIdx machine_of machineCapByID) stepOrders (Map.empty, es1)
           in fst es2)"

section \<open>What the analyzer yields\<close>

text \<open>
  \<open>edge_set m R\<close> are the edges a relation \<open>R\<close> between step orders stands for. \<open>adds f A\<close>: the
  update \<open>f\<close> adds the edges \<open>A\<close> and no duplicate of one there is.
\<close>

definition edge_set :: "(int \<rightharpoonup> int) \<Rightarrow> (int \<Rightarrow> int \<Rightarrow> bool) \<Rightarrow> taskDepPair set" where
  "edge_set m R = {e. \<exists>t d. R t d \<and> m t = Some (TaskIdx e) \<and> m d = Some (DepIdx e) \<and> TaskIdx e \<noteq> DepIdx e}"

definition edges_ok :: "edges \<Rightarrow> bool" where
  "edges_ok es \<longleftrightarrow> distinct (fst es) \<and> set (snd es) = (\<lambda>e. edge_key (TaskIdx e) (DepIdx e)) ` set (fst es)"

definition adds :: "(edges \<Rightarrow> edges) \<Rightarrow> taskDepPair set \<Rightarrow> bool" where
  "adds f A \<longleftrightarrow> (\<forall>es. edges_ok es \<longrightarrow> edges_ok (f es) \<and> set (fst (f es)) = set (fst es) \<union> A)"

lemma edge_key_inj [simp]: "edge_key a b = edge_key c d \<longleftrightarrow> a = c \<and> b = d"
  by (simp add: edge_key_def join_inj FormatInt_no_colon)

lemma edge_key_mem: "edge_key a b \<in> (\<lambda>e. edge_key (TaskIdx e) (DepIdx e)) ` es \<longleftrightarrow> \<lparr>TaskIdx = a, DepIdx = b\<rparr> \<in> es"
proof
  assume "edge_key a b \<in> (\<lambda>e. edge_key (TaskIdx e) (DepIdx e)) ` es"
  then obtain e where "e \<in> es" "TaskIdx e = a" "DepIdx e = b" by auto
  then show "\<lparr>TaskIdx = a, DepIdx = b\<rparr> \<in> es" by (cases e) simp
qed force

lemma adds_nothing: "adds (\<lambda>es. es) {}"
  by (simp add: adds_def)

lemma adds_compose: "adds f A \<Longrightarrow> adds g B \<Longrightarrow> adds (\<lambda>es. g (f es)) (A \<union> B)"
  by (simp add: adds_def Un_assoc del: split_paired_All)

lemma adds_fold: "(\<And>x. x \<in> set xs \<Longrightarrow> adds (f x) (A x)) \<Longrightarrow> adds (fold f xs) (\<Union>x \<in> set xs. A x)"
proof (induction xs)
  case (Cons x xs)
  then have "adds (\<lambda>es. fold f xs (f x es)) (A x \<union> (\<Union>x \<in> set xs. A x))" by (intro adds_compose) auto
  then show ?case by (simp add: o_def)
qed (simp add: adds_nothing id_def)

lemma edge_set_single:
  "edge_set m (\<lambda>t d. t = a \<and> d = b) =
     (case (m a, m b) of (Some i, Some j) \<Rightarrow> if i = j then {} else {\<lparr>TaskIdx = i, DepIdx = j\<rparr>} | _ \<Rightarrow> {})"
proof -
  have "e = \<lparr>TaskIdx = i, DepIdx = j\<rparr> \<longleftrightarrow> TaskIdx e = i \<and> DepIdx e = j" for e :: taskDepPair and i j
    by (cases e) simp
  then show ?thesis by (auto simp: edge_set_def split: option.splits)
qed

lemma adds_addEdge: "adds (addEdge m t d) (edge_set m (\<lambda>x y. x = t \<and> y = d))"
  by (auto simp: adds_def edges_ok_def addEdge_def edge_set_single Let_def edge_key_mem split: option.splits prod.splits)

lemma edge_set_union: "edge_set m R \<union> edge_set m S = edge_set m (\<lambda>t d. R t d \<or> S t d)"
  by (auto simp: edge_set_def)

lemma edge_set_UN: "(\<Union>x \<in> X. edge_set m (R x)) = edge_set m (\<lambda>t d. \<exists>x \<in> X. R x t d)"
  by (auto simp: edge_set_def)

lemma edge_set_cong: "(\<And>t d. R t d \<longleftrightarrow> S t d) \<Longrightarrow> edge_set m R = edge_set m S"
  by (simp add: edge_set_def)

lemma edge_set_empty: "edge_set m (\<lambda>t d. False) = {}"
  by (simp add: edge_set_def)

lemma adds_start: "adds f A \<Longrightarrow> edges_ok (f ([], [])) \<and> set (fst (f ([], []))) = A"
  by (simp add: adds_def edges_ok_def)

text \<open>Explicit dependencies.\<close>

lemma adds_explicit:
  "adds (explicit_edges m deps) (edge_set m (\<lambda>t d. \<exists>ds. (t, ds) \<in> set deps \<and> d \<in> set ds))"
proof -
  have "adds (\<lambda>es. fold (\<lambda>(t, ds). fold (addEdge m t) ds) deps es)
     (\<Union>x \<in> set deps. case x of (t, ds) \<Rightarrow> \<Union>d \<in> set ds. edge_set m (\<lambda>x y. x = t \<and> y = d))"
    by (rule adds_fold) (auto intro!: adds_fold adds_addEdge)
  moreover have "(\<Union>x \<in> set deps. case x of (t, ds) \<Rightarrow> \<Union>d \<in> set ds. edge_set m (\<lambda>x y. x = t \<and> y = d)) =
      edge_set m (\<lambda>t d. \<exists>ds. (t, ds) \<in> set deps \<and> d \<in> set ds)"
    by (fastforce simp: edge_set_def)
  ultimately show ?thesis by (simp add: explicit_edges_def [abs_def])
qed

text \<open>Assembly steps.\<close>

lemma adds_assembly:
  "adds (assembly_edges m assembly sos)
     (edge_set m (\<lambda>t d. t \<in> set sos \<and> d \<in> set sos \<and> d < t \<and> assembly t \<and> \<not> assembly d))"
proof -
  have one: "adds (\<lambda>es. if asm \<le> so then es else if assembly so then es else addEdge m asm so es)
      (edge_set m (\<lambda>t d. t = asm \<and> d = so \<and> so < asm \<and> \<not> assembly so))" for asm so
    using adds_addEdge [of m asm so] adds_nothing
    by (cases "asm \<le> so"; cases "assembly so") (simp_all add: edge_set_empty)
  have "adds (fold (\<lambda>asm. fold (\<lambda>so es. if asm \<le> so then es else if assembly so then es else addEdge m asm so es) sos)
        (filter assembly sos))
      (\<Union>asm \<in> set (filter assembly sos). \<Union>so \<in> set sos. edge_set m (\<lambda>t d. t = asm \<and> d = so \<and> so < asm \<and> \<not> assembly so))"
    by (intro adds_fold one)
  moreover have "(\<Union>asm \<in> set (filter assembly sos). \<Union>so \<in> set sos.
        edge_set m (\<lambda>t d. t = asm \<and> d = so \<and> so < asm \<and> \<not> assembly so)) =
      edge_set m (\<lambda>t d. t \<in> set sos \<and> d \<in> set sos \<and> d < t \<and> assembly t \<and> \<not> assembly d)"
    by (auto simp: edge_set_def)
  ultimately show ?thesis by (simp add: assembly_edges_def [abs_def])
qed

text \<open>Steps on one machine: the pass over the sorted steps remembers the last user of each machine.\<close>

definition last_user :: "(int \<Rightarrow> nat option) \<Rightarrow> int set \<Rightarrow> nat \<Rightarrow> int \<Rightarrow> bool" where
  "last_user machine_of S mid p \<longleftrightarrow>
     p \<in> S \<and> machine_of p = Some mid \<and> (\<forall>q \<in> S. machine_of q = Some mid \<longrightarrow> q \<le> p)"

definition shared_with :: "(int \<Rightarrow> nat option) \<Rightarrow> (nat \<rightharpoonup> int) \<Rightarrow> int set \<Rightarrow> int \<Rightarrow> int \<Rightarrow> bool" where
  "shared_with machine_of caps S t d \<longleftrightarrow> t \<in> S \<and>
     (\<exists>mid. machine_of t = Some mid \<and> (case caps mid of None \<Rightarrow> 0 | Some c \<Rightarrow> c) \<le> 1 \<and>
        last_user machine_of {q \<in> S. q < t} mid d)"

lemma last_user_unique: "last_user mo S mid p \<Longrightarrow> last_user mo S mid q \<Longrightarrow> p = q"
  by (auto simp: last_user_def intro: order_antisym)

lemma shared_with_snoc:
  assumes "\<forall>q \<in> S. q < x"
  shows "shared_with mo caps (insert x S) t d \<longleftrightarrow> shared_with mo caps S t d \<or>
    t = x \<and> (\<exists>mid. mo x = Some mid \<and> (case caps mid of None \<Rightarrow> 0 | Some c \<Rightarrow> c) \<le> 1 \<and> last_user mo S mid d)"
proof -
  have "{q \<in> insert x S. q < t} = {q \<in> S. q < t}" if "t \<in> S" for t
    using assms that by auto
  moreover have "{q \<in> insert x S. q < x} = S" using assms by auto
  moreover have "x \<notin> S" using assms by auto
  ultimately show ?thesis by (auto simp: shared_with_def)
qed

lemma machine_fold:
  assumes "sorted_wrt (<) sos" and "edges_ok es"
  shows "\<exists>prev es'. fold (machine_step m mo caps) sos (Map.empty, es) = (prev, es') \<and> edges_ok es' \<and>
    set (fst es') = set (fst es) \<union> edge_set m (shared_with mo caps (set sos)) \<and>
    (\<forall>mid p. prev mid = Some p \<longleftrightarrow> last_user mo (set sos) mid p)"
  using assms(1)
proof (induction sos rule: rev_induct)
  case Nil
  then show ?case using assms(2) by (simp add: last_user_def shared_with_def edge_set_def)
next
  case (snoc x sos)
  then have below: "\<forall>q \<in> set sos. q < x" by (simp add: sorted_wrt_append)
  obtain prev es' where IH: "fold (machine_step m mo caps) sos (Map.empty, es) = (prev, es')" "edges_ok es'"
    "set (fst es') = set (fst es) \<union> edge_set m (shared_with mo caps (set sos))"
    "\<And>mid p. prev mid = Some p \<longleftrightarrow> last_user mo (set sos) mid p"
    using snoc by (auto simp: sorted_wrt_append)
  define new where "new = (\<lambda>t d. t = x \<and> (\<exists>mid. mo x = Some mid \<and>
      (case caps mid of None \<Rightarrow> 0 | Some c \<Rightarrow> c) \<le> 1 \<and> last_user mo (set sos) mid d))"
  obtain prev2 es2 where step: "machine_step m mo caps x (prev, es') = (prev2, es2)" by (metis surj_pair)
  have es2: "edges_ok es2 \<and> set (fst es2) = set (fst es') \<union> edge_set m new"
  proof (cases "\<exists>mid p. mo x = Some mid \<and> (case caps mid of None \<Rightarrow> 0 | Some c \<Rightarrow> c) \<le> 1 \<and> prev mid = Some p")
    case True
    then obtain mid p where h: "mo x = Some mid" "(case caps mid of None \<Rightarrow> 0 | Some c \<Rightarrow> c) \<le> 1" "prev mid = Some p"
      by blast
    then have p: "last_user mo (set sos) mid p" using IH(4) by simp
    then have "p \<noteq> x" using below by (auto simp: last_user_def)
    then have "es2 = addEdge m x p es'" using step h by (simp add: machine_step_def)
    moreover have "last_user mo (set sos) mid d \<longleftrightarrow> d = p" for d using p last_user_unique by blast
    then have "new = (\<lambda>t d. t = x \<and> d = p)" using h(1,2) by (simp add: new_def)
    ultimately show ?thesis using adds_addEdge [of m x p] IH(2) by (simp add: adds_def del: split_paired_All)
  next
    case False
    then have "new = (\<lambda>t d. False)" using IH(4) by (auto simp: new_def fun_eq_iff)
    moreover have "es2 = es'" using step False by (auto simp: machine_step_def split: option.splits if_splits)
    ultimately show ?thesis using IH(2) by (simp add: edge_set_empty)
  qed
  have "prev2 mid = Some p \<longleftrightarrow> last_user mo (insert x (set sos)) mid p" for mid p
  proof (cases "mo x = Some mid")
    case True
    then have "prev2 mid = Some x" using step by (auto simp: machine_step_def)
    then show ?thesis using True below by (force simp: last_user_def)
  next
    case False
    then have "prev2 mid = prev mid" using step by (auto simp: machine_step_def split: option.splits)
    then show ?thesis using False IH(4) by (auto simp: last_user_def)
  qed
  moreover have "edge_set m (shared_with mo caps (insert x (set sos))) =
      edge_set m (shared_with mo caps (set sos)) \<union> edge_set m new"
    unfolding edge_set_union new_def by (rule edge_set_cong) (rule shared_with_snoc [OF below])
  ultimately show ?case using IH(1,3) step es2 by auto
qed

text \<open>
  The dependencies derived when the database has none for the item: \<open>t\<close> waits for an earlier \<open>d\<close>
  when \<open>t\<close> is an assembly step and \<open>d\<close> is not, or when both use a machine of capacity at most one
  (0 when unknown) and no step between them uses it.
\<close>

definition derived_dep :: "RecipeStepModel list \<Rightarrow> (nat \<rightharpoonup> int) \<Rightarrow> int \<Rightarrow> int \<Rightarrow> bool" where
  "derived_dep steps caps t d \<longleftrightarrow> (\<exists>x \<in> set steps. \<exists>y \<in> set steps. r_StepOrder x = t \<and> r_StepOrder y = d \<and> d < t \<and>
     (isAssemblyLike (r_Description x) \<and> \<not> isAssemblyLike (r_Description y) \<or>
      (\<exists>mid. r_MachineID x = Some mid \<and> r_MachineID y = Some mid \<and>
         (case caps mid of None \<Rightarrow> 0 | Some c \<Rightarrow> c) \<le> 1 \<and>
         (\<forall>z \<in> set steps. r_MachineID z = Some mid \<longrightarrow> r_StepOrder z < t \<longrightarrow> r_StepOrder z \<le> d))))"

lemma step_lookup:
  "distinct (map r_StepOrder steps) \<Longrightarrow> x \<in> set steps \<Longrightarrow>
     step_at (fold (\<lambda>st m. m(r_StepOrder st \<mapsto> st)) steps m0) (r_StepOrder x) = x"
proof (induction steps arbitrary: m0)
  case (Cons y ys)
  have keep: "r \<notin> r_StepOrder ` set zs \<Longrightarrow> fold (\<lambda>st m. m(r_StepOrder st \<mapsto> st)) zs m r = m r" for m r and zs :: "RecipeStepModel list"
    by (induction zs arbitrary: m) auto
  show ?case
  proof (cases "x \<in> set ys")
    case True
    then show ?thesis using Cons by simp
  next
    case False
    then have "x = y" "r_StepOrder y \<notin> r_StepOrder ` set ys" using Cons.prems by auto
    then have "fold (\<lambda>st m. m(r_StepOrder st \<mapsto> st)) (y # ys) m0 (r_StepOrder x) = Some x"
      by (simp only: fold_Cons o_apply keep fun_upd_same not_False_eq_True)
    then show ?thesis by (simp only: step_at_def option.case)
  qed
qed simp

lemma infer_derived:
  assumes "distinct (map r_StepOrder steps)"
  shows "distinct (inferRecipeTaskDeps steps m [] caps) \<and>
    set (inferRecipeTaskDeps steps m [] caps) = edge_set m (derived_dep steps caps)"
proof -
  define sos where "sos = sort (map r_StepOrder steps)"
  define byOrder where "byOrder = fold (\<lambda>st m. m(r_StepOrder st \<mapsto> st)) steps Map.empty"
  define assembly where "assembly = (\<lambda>so. isAssemblyLike (r_Description (step_at byOrder so)))"
  define mo where "mo = (\<lambda>so. r_MachineID (step_at byOrder so))"
  have look: "step_at byOrder (r_StepOrder x) = x" if "x \<in> set steps" for x
    unfolding byOrder_def by (rule step_lookup [OF assms that])
  have sos: "set sos = r_StepOrder ` set steps" "sorted_wrt (<) sos"
    using assms by (simp_all add: sos_def strict_sorted_iff)
  let ?es1 = "assembly_edges m assembly sos ([], [])"
  have A: "edges_ok ?es1" "set (fst ?es1) = edge_set m (\<lambda>t d. t \<in> set sos \<and> d \<in> set sos \<and> d < t \<and> assembly t \<and> \<not> assembly d)"
    using adds_start [OF adds_assembly] by blast+
  obtain prev es2 where f: "fold (machine_step m mo caps) sos (Map.empty, ?es1) = (prev, es2)"
    "edges_ok es2" "set (fst es2) = set (fst ?es1) \<union> edge_set m (shared_with mo caps (set sos))"
    using machine_fold [OF sos(2) A(1)] by blast
  have run: "inferRecipeTaskDeps steps m [] caps = fst es2"
    using f(1) by (simp add: inferRecipeTaskDeps_def Let_def sos_def byOrder_def assembly_def mo_def)
  have "derived_dep steps caps t d \<longleftrightarrow>
      (t \<in> set sos \<and> d \<in> set sos \<and> d < t \<and> assembly t \<and> \<not> assembly d) \<or> shared_with mo caps (set sos) t d" for t d
  proof -
    have "shared_with mo caps (set sos) t d \<longleftrightarrow> (\<exists>x \<in> set steps. \<exists>y \<in> set steps. r_StepOrder x = t \<and> r_StepOrder y = d \<and>
        d < t \<and> (\<exists>mid. r_MachineID x = Some mid \<and> r_MachineID y = Some mid \<and>
         (case caps mid of None \<Rightarrow> 0 | Some c \<Rightarrow> c) \<le> 1 \<and>
         (\<forall>z \<in> set steps. r_MachineID z = Some mid \<longrightarrow> r_StepOrder z < t \<longrightarrow> r_StepOrder z \<le> d)))"
      (is "_ \<longleftrightarrow> ?R")
    proof -
      have "last_user mo {q \<in> set sos. q < k} mid d \<longleftrightarrow> d \<in> set sos \<and> d < k \<and> mo d = Some mid \<and>
          (\<forall>z \<in> set steps. r_MachineID z = Some mid \<longrightarrow> r_StepOrder z < k \<longrightarrow> r_StepOrder z \<le> d)" for k mid
        unfolding last_user_def sos(1) by (auto simp: mo_def look)
      then have "shared_with mo caps (set sos) t d \<longleftrightarrow> (\<exists>mid. t \<in> set sos \<and> mo t = Some mid \<and>
          (case caps mid of None \<Rightarrow> 0 | Some c \<Rightarrow> c) \<le> 1 \<and> d \<in> set sos \<and> d < t \<and> mo d = Some mid \<and>
          (\<forall>z \<in> set steps. r_MachineID z = Some mid \<longrightarrow> r_StepOrder z < t \<longrightarrow> r_StepOrder z \<le> d))"
        unfolding shared_with_def by auto
      also have "\<dots> \<longleftrightarrow> ?R"
      proof
        assume "\<exists>mid. t \<in> set sos \<and> mo t = Some mid \<and>
          (case caps mid of None \<Rightarrow> 0 | Some c \<Rightarrow> c) \<le> 1 \<and> d \<in> set sos \<and> d < t \<and> mo d = Some mid \<and>
          (\<forall>z \<in> set steps. r_MachineID z = Some mid \<longrightarrow> r_StepOrder z < t \<longrightarrow> r_StepOrder z \<le> d)"
        then obtain mid x y where "x \<in> set steps" "r_StepOrder x = t" "y \<in> set steps" "r_StepOrder y = d"
          and h: "mo t = Some mid" "(case caps mid of None \<Rightarrow> 0 | Some c \<Rightarrow> c) \<le> 1" "d < t" "mo d = Some mid"
            "\<forall>z \<in> set steps. r_MachineID z = Some mid \<longrightarrow> r_StepOrder z < t \<longrightarrow> r_StepOrder z \<le> d"
          unfolding sos(1) by blast
        moreover from this have "r_MachineID x = Some mid" "r_MachineID y = Some mid"
          using look by (auto simp: mo_def)
        ultimately show ?R by blast
      next
        assume ?R
        then obtain x y mid where "x \<in> set steps" "y \<in> set steps" "r_StepOrder x = t" "r_StepOrder y = d" "d < t"
          "r_MachineID x = Some mid" "r_MachineID y = Some mid" "(case caps mid of None \<Rightarrow> 0 | Some c \<Rightarrow> c) \<le> 1"
          "\<forall>z \<in> set steps. r_MachineID z = Some mid \<longrightarrow> r_StepOrder z < t \<longrightarrow> r_StepOrder z \<le> d" by blast
        moreover from this have "mo t = Some mid" "mo d = Some mid" using look by (auto simp: mo_def)
        ultimately show "\<exists>mid. t \<in> set sos \<and> mo t = Some mid \<and>
          (case caps mid of None \<Rightarrow> 0 | Some c \<Rightarrow> c) \<le> 1 \<and> d \<in> set sos \<and> d < t \<and> mo d = Some mid \<and>
          (\<forall>z \<in> set steps. r_MachineID z = Some mid \<longrightarrow> r_StepOrder z < t \<longrightarrow> r_StepOrder z \<le> d)"
          unfolding sos(1) by blast
      qed
      finally show ?thesis .
    qed
    moreover have "(t \<in> set sos \<and> d \<in> set sos \<and> d < t \<and> assembly t \<and> \<not> assembly d) \<longleftrightarrow>
        (\<exists>x \<in> set steps. \<exists>y \<in> set steps. r_StepOrder x = t \<and> r_StepOrder y = d \<and> d < t \<and>
          isAssemblyLike (r_Description x) \<and> \<not> isAssemblyLike (r_Description y))"
      unfolding sos(1) by (auto simp: assembly_def look intro!: bexI)
    ultimately show ?thesis unfolding derived_dep_def by blast
  qed
  then have "edge_set m (derived_dep steps caps) =
      edge_set m (\<lambda>t d. (t \<in> set sos \<and> d \<in> set sos \<and> d < t \<and> assembly t \<and> \<not> assembly d) \<or> shared_with mo caps (set sos) t d)"
    by (rule edge_set_cong)
  then show ?thesis using f(2,3) A(2) run by (simp add: edges_ok_def edge_set_union)
qed

lemma infer_explicit:
  assumes "deps \<noteq> []"
  shows "distinct (inferRecipeTaskDeps steps m deps caps) \<and>
    set (inferRecipeTaskDeps steps m deps caps) = edge_set m (\<lambda>t d. \<exists>ds. (t, ds) \<in> set deps \<and> d \<in> set ds)"
  using adds_start [OF adds_explicit [of m deps]] assms by (simp add: inferRecipeTaskDeps_def edges_ok_def)

lemma derived_earlier: "derived_dep steps caps t d \<Longrightarrow> d < t"
  by (auto simp: derived_dep_def)

lemma edges_acyclic:
  assumes "inj_on m (dom m)" and "\<And>t d. R t d \<Longrightarrow> d < t" and "es \<subseteq> edge_set m R"
  shows "acyclic ((\<lambda>e. (DepIdx e, TaskIdx e)) ` es)"
proof -
  define step where "step i = (THE so. m so = Some i)" for i
  have step: "step i = so" if "m so = Some i" for i so
    unfolding step_def
  proof (intro the_equality that)
    fix so' assume "m so' = Some i"
    then have "m so' = m so" "so' \<in> dom m" "so \<in> dom m" using that by auto
    then show "so' = so" by (rule inj_onD [OF assms(1)])
  qed
  have "(\<lambda>e. (DepIdx e, TaskIdx e)) ` es \<subseteq> {(i, j). step i < step j}"
    using assms(2,3) step by (fastforce simp: edge_set_def)
  moreover have "acyclic {(i, j). step i < step j}"
  proof (rule acyclicI, intro allI notI)
    have "(i, j) \<in> {(i, j). step i < step j}\<^sup>+ \<Longrightarrow> step i < step j" for i j
      by (induction rule: trancl_induct) auto
    moreover fix i assume "(i, i) \<in> {(i, j). step i < step j}\<^sup>+"
    ultimately show False by blast
  qed
  ultimately show ?thesis by (rule acyclic_subset [rotated])
qed

section \<open>Properties\<close>

text \<open>A recipe: two steps on one toaster, then the assembly on a bench.\<close>

definition sandwich :: "RecipeStepModel list" where
  "sandwich = [zero_RecipeStepModel\<lparr>r_StepOrder := 1, r_Description := ''toast'', r_MachineID := Some 1\<rparr>,
     zero_RecipeStepModel\<lparr>r_StepOrder := 2, r_Description := ''grill'', r_MachineID := Some 1\<rparr>,
     zero_RecipeStepModel\<lparr>r_StepOrder := 3, r_Description := ''Assemble'', r_MachineID := Some 2\<rparr>]"

lemma sandwich_orders: "distinct (map r_StepOrder sandwich)"
  by (simp add: sandwich_def zero_RecipeStepModel_def)

text \<open>
  C10: Without explicit dependencies the analyzer yields exactly the edges of its two rules, each once:
  an assembly-like step waits for every earlier step that is not, and of the steps on a machine of
  capacity at most one each waits for the one before it.
\<close>

theorem derived_dependencies_exact:
  assumes "distinct (map r_StepOrder steps)"
  shows "distinct (inferRecipeTaskDeps steps stepToTaskIdx [] caps) \<and>
    set (inferRecipeTaskDeps steps stepToTaskIdx [] caps) =
      {e. \<exists>t d. derived_dep steps caps t d \<and> stepToTaskIdx t = Some (TaskIdx e) \<and>
           stepToTaskIdx d = Some (DepIdx e) \<and> TaskIdx e \<noteq> DepIdx e}"
  using infer_derived [OF assms] by (simp add: edge_set_def)

theorem derived_dependencies_exact_witness:
  "\<lparr>TaskIdx = 2, DepIdx = 0\<rparr> \<in> set (inferRecipeTaskDeps sandwich [1 \<mapsto> 0, 2 \<mapsto> 1, 3 \<mapsto> 2] [] Map.empty)"
proof -
  have "isAssemblyLike ''Assemble''" "\<not> isAssemblyLike ''toast''" by code_simp+
  then have "derived_dep sandwich Map.empty 3 1"
    by (simp add: derived_dep_def sandwich_def zero_RecipeStepModel_def)
  then have "\<exists>t d. derived_dep sandwich Map.empty t d \<and> [1 \<mapsto> 0, 2 \<mapsto> 1, 3 \<mapsto> 2] t = Some (2 :: int) \<and>
      [1 \<mapsto> 0, 2 \<mapsto> 1, 3 \<mapsto> 2] d = Some (0 :: int)"
    by (intro exI [of _ 3] exI [of _ 1]) simp
  then show ?thesis
    using derived_dependencies_exact [OF sandwich_orders, of "[1 \<mapsto> 0, 2 \<mapsto> 1, 3 \<mapsto> 2]" Map.empty] by simp
qed

text \<open>
  C35: Explicit dependencies of the database take precedence: with any of them the edges are exactly
  the explicit ones between different tasks of the copy, each once, in whatever order the map is
  ranged over, and nothing is derived.
\<close>

theorem explicit_dependencies_exact:
  assumes "explicitDeps \<noteq> []"
  shows "distinct (inferRecipeTaskDeps steps stepToTaskIdx explicitDeps caps) \<and>
    set (inferRecipeTaskDeps steps stepToTaskIdx explicitDeps caps) =
      {e. \<exists>t ds d. (t, ds) \<in> set explicitDeps \<and> d \<in> set ds \<and> stepToTaskIdx t = Some (TaskIdx e) \<and>
           stepToTaskIdx d = Some (DepIdx e) \<and> TaskIdx e \<noteq> DepIdx e}"
  using infer_explicit [OF assms] unfolding edge_set_def by fastforce

theorem explicit_dependencies_exact_witness:
  "set (inferRecipeTaskDeps sandwich [1 \<mapsto> 0, 2 \<mapsto> 1, 3 \<mapsto> 2] [(2, [1, 2, 1])] Map.empty) =
     {\<lparr>TaskIdx = 1, DepIdx = 0\<rparr>}"
proof -
  have e: "e = \<lparr>TaskIdx = 1, DepIdx = 0\<rparr> \<longleftrightarrow> TaskIdx e = 1 \<and> DepIdx e = 0" for e :: taskDepPair
    by (cases e) simp
  show ?thesis
    using explicit_dependencies_exact [of "[(2, [1, 2, 1])]" sandwich "[1 \<mapsto> 0, 2 \<mapsto> 1, 3 \<mapsto> 2]" Map.empty]
    by (auto simp: e)
qed

text \<open>
  C11: The derived dependencies of a copy have no cycle, as long as different steps stand for
  different tasks.
\<close>

theorem derived_dependencies_acyclic:
  assumes "distinct (map r_StepOrder steps)" and "inj_on stepToTaskIdx (dom stepToTaskIdx)"
  shows "acyclic ((\<lambda>e. (DepIdx e, TaskIdx e)) ` set (inferRecipeTaskDeps steps stepToTaskIdx [] caps))"
  by (rule edges_acyclic [where R = "derived_dep steps caps", OF assms(2)])
    (simp_all add: derived_earlier infer_derived [OF assms(1)])

theorem derived_dependencies_acyclic_witness:
  "acyclic ((\<lambda>e. (DepIdx e, TaskIdx e)) ` set (inferRecipeTaskDeps sandwich [1 \<mapsto> 0, 2 \<mapsto> 1, 3 \<mapsto> 2] [] Map.empty))"
proof (rule derived_dependencies_acyclic [OF sandwich_orders])
  show "inj_on [1 \<mapsto> 0, 2 \<mapsto> 1, 3 \<mapsto> (2 :: int)] (dom [1 \<mapsto> 0, 2 \<mapsto> 1, 3 \<mapsto> (2 :: int)])"
    by (auto simp: inj_on_def split: if_splits)
qed

end
