(* ===== verification/Scoring.thy ===== *)
theory Scoring imports
  AllocationRepo
begin

text \<open>
  The application service's constants (\<open>kitchen_service.go\<close>), the priority of a queued task
  (\<open>priority_service.go\<close>) and the choice of staff (\<open>staff_service.go\<close>).
\<close>

section \<open>The service\<close>

text \<open>
  The fields of \<open>KitchenAppService\<close> other than the repository and the queue, which are the
  world and the operations record in this development; \<open>assignTTL\<close> is a duration.
\<close>

record KitchenAppService =
  agingFactor :: rat
  weightLoad :: rat
  weightUtil :: rat
  weightEff :: rat
  assignTTL :: int

definition NewKitchenAppService :: KitchenAppService where
  "NewKitchenAppService = \<lparr>agingFactor = f64 (14 / 100), weightLoad = f64 (12 / 10),
     weightUtil = f64 (9 / 10), weightEff = f64 (11 / 10), assignTTL = 45 * Second\<rparr>"

section \<open>Priority\<close>

text \<open>\<open>t\<close> is the reading of the clock that \<open>time.Since\<close> makes.\<close>

definition score_at :: "KitchenAppService \<Rightarrow> rat \<Rightarrow> int \<Rightarrow> int \<Rightarrow> rat" where
  "score_at s basePriority createdAt t =
     (let waitSecs = Seconds (Sub t createdAt);
          effective = fadd basePriority (fmul waitSecs (agingFactor s))
      in - effective)"

definition queueScore :: "env \<Rightarrow> KitchenAppService \<Rightarrow> rat \<Rightarrow> int \<Rightarrow> ('q world, rat) act" where
  "queueScore env s basePriority createdAt =
     and_then (Now env) (\<lambda>t. ok (score_at s basePriority createdAt t))"

section \<open>Choice of staff\<close>

definition staffScore :: "KitchenAppService \<Rightarrow> StaffModel \<Rightarrow> int \<Rightarrow> rat" where
  "staffScore s st now =
     (let shiftSecs = int_of_float (max 1 (Seconds (Sub now (s_ShiftStart st))));
          util = fdiv (float_of_int (s_ActiveSeconds st)) (float_of_int shiftSecs)
      in fsub (fadd (fmul (weightLoad s) (float_of_int (s_ActiveTasks st))) (fmul (weightUtil s) util))
              (fmul (weightEff s) (s_EfficiencyMultiplier st)))"

text \<open>\<open>pickStaff\<close> panics on an empty slice, where the model has \<open>None\<close>.\<close>

fun pick_loop :: "(StaffModel \<Rightarrow> rat) \<Rightarrow> StaffModel \<Rightarrow> rat \<Rightarrow> StaffModel list \<Rightarrow> StaffModel" where
  "pick_loop score best bestScore [] = best"
| "pick_loop score best bestScore (st # sts) =
     (if score st < bestScore then pick_loop score st (score st) sts
      else pick_loop score best bestScore sts)"

fun pickStaff :: "KitchenAppService \<Rightarrow> StaffModel list \<Rightarrow> int \<Rightarrow> StaffModel option" where
  "pickStaff s [] now = None"
| "pickStaff s (st # sts) now =
     Some (pick_loop (\<lambda>x. staffScore s x now) st (staffScore s st now) sts)"

section \<open>Monotonicity\<close>

lemma quo_rem: "quo d n * n + rem d n = d"
  by (cases "0 \<le> d") (simp_all add: quo_def rem_def sgn_if)

lemma fdiv_second_bounds:
  assumes "- Second < r" and "r < Second"
  shows "- 1 \<le> fdiv (float_of_int r) (f64 1000000000)" and "fdiv (float_of_int r) (f64 1000000000) \<le> 1"
proof -
  have e: "f64 1000000000 = 1000000000" using f64_of_int [of 1000000000] by simp
  have r: "float_of_int r = of_int r" by (rule float_of_int_small) (use assms in \<open>auto simp: Second_def\<close>)
  have one: "f64 1 = 1" "f64 (- 1) = - 1" using f64_of_int [of 1] f64_of_int [of "- 1"] by simp_all
  have "of_int r / 1000000000 \<le> (1 :: rat)" "(- 1 :: rat) \<le> of_int r / 1000000000"
    using assms by (simp_all add: Second_def field_simps)
  from f64_mono [OF this(1)] f64_mono [OF this(2)]
  show "- 1 \<le> fdiv (float_of_int r) (f64 1000000000)" "fdiv (float_of_int r) (f64 1000000000) \<le> 1"
    by (simp_all add: fdiv_def e r one)
qed

lemma fdiv_second_sign:
  "0 \<le> r \<Longrightarrow> 0 \<le> fdiv (float_of_int r) (f64 1000000000)"
  "r \<le> 0 \<Longrightarrow> fdiv (float_of_int r) (f64 1000000000) \<le> 0"
proof -
  have e: "f64 1000000000 = 1000000000" using f64_of_int [of 1000000000] by simp
  note m = float_ops_mono(5) [of "1000000000 :: rat"]
  have z: "fdiv (float_of_int 0) 1000000000 = 0" by (simp add: float_of_int_small fdiv_def f64_zero)
  show "0 \<le> r \<Longrightarrow> 0 \<le> fdiv (float_of_int r) (f64 1000000000)"
    using m [OF _ float_of_int_mono [of 0 r]] by (simp add: e z)
  show "r \<le> 0 \<Longrightarrow> fdiv (float_of_int r) (f64 1000000000) \<le> 0"
    using m [OF _ float_of_int_mono [of r 0]] by (simp add: e z)
qed

lemma quo_rem_second:
  shows "0 \<le> d \<Longrightarrow> 0 \<le> quo d Second \<and> 0 \<le> rem d Second"
    and "d \<le> 0 \<Longrightarrow> quo d Second \<le> 0 \<and> rem d Second \<le> 0"
    and "- Second < rem d Second \<and> rem d Second < Second"
proof -
  have pos: "0 \<le> quo d Second \<and> 0 \<le> rem d Second \<and> rem d Second < Second" if "0 \<le> d" for d
    using that by (simp add: quo_nonneg rem_nonneg Second_def pos_imp_zdiv_nonneg_iff)
  have neg: "quo (- d) Second = - quo d Second \<and> rem (- d) Second = - rem d Second" for d
    by (simp add: quo_def rem_def sgn_if Second_def)
  show "0 \<le> d \<Longrightarrow> 0 \<le> quo d Second \<and> 0 \<le> rem d Second" using pos by blast
  show "d \<le> 0 \<Longrightarrow> quo d Second \<le> 0 \<and> rem d Second \<le> 0" using pos [of "- d"] neg [of d] by simp
  show "- Second < rem d Second \<and> rem d Second < Second"
  proof (cases "0 \<le> d")
    case True
    then show ?thesis using pos [OF True] by (simp add: Second_def)
  next
    case False
    then show ?thesis using pos [of "- d"] neg [of d] by (simp add: Second_def)
  qed
qed

lemma Seconds_mono:
  assumes "d \<le> d'" and "- (2 ^ 63) \<le> d" and "d' \<le> 2 ^ 63"
  shows "Seconds d \<le> Seconds d'"
proof -
  define q where "q = quo d Second"
  define q' where "q' = quo d' Second"
  define r where "r = rem d Second"
  define r' where "r' = rem d' Second"
  define x where "x = fdiv (float_of_int r) (f64 1000000000)"
  define x' where "x' = fdiv (float_of_int r') (f64 1000000000)"
  have d: "d = q * Second + r" "d' = q' * Second + r'"
    unfolding q_def q'_def r_def r'_def by (simp_all add: quo_rem)
  have b: "- Second < r" "r < Second" "- Second < r'" "r' < Second"
    unfolding r_def r'_def using quo_rem_second(3) by auto
  have X: "- 1 \<le> x" "x \<le> 1" "- 1 \<le> x'" "x' \<le> 1"
    unfolding x_def x'_def using fdiv_second_bounds b by auto
  have small: "float_of_int q = of_int q" "float_of_int q' = of_int q'"
    using assms d b by (auto intro!: float_of_int_small simp: Second_def)
  have S: "0 \<le> d \<Longrightarrow> 0 \<le> q \<and> 0 \<le> x" "d \<le> 0 \<Longrightarrow> q \<le> 0 \<and> x \<le> 0"
      "0 \<le> d' \<Longrightarrow> 0 \<le> q' \<and> 0 \<le> x'" "d' \<le> 0 \<Longrightarrow> q' \<le> 0 \<and> x' \<le> 0"
    unfolding q_def q'_def x_def x'_def r_def r'_def
    using quo_rem_second [of d] quo_rem_second [of d'] fdiv_second_sign by auto
  have "of_int q + x \<le> of_int q' + x'"
  proof (cases "q = q'")
    case True
    then have "r \<le> r'" using assms(1) d by simp
    then have "x \<le> x'" unfolding x_def x'_def
      by (intro float_ops_mono(5) float_of_int_mono) (use f64_of_int [of 1000000000] in simp_all)
    then show ?thesis using True by simp
  next
    case False
    have R: "0 \<le> d \<Longrightarrow> 0 \<le> r" "d' \<le> 0 \<Longrightarrow> r' \<le> 0"
      unfolding r_def r'_def using quo_rem_second [of d] quo_rem_second [of d'] by auto
    consider "0 \<le> d" | "d' \<le> 0" | "d \<le> 0" "0 \<le> d'" by linarith
    then have "q \<le> q'"
    proof cases
      case 1
      then show ?thesis using assms(1) d b R by (simp add: Second_def; linarith)
    next
      case 2
      then show ?thesis using assms(1) d b R by (simp add: Second_def; linarith)
    next
      case 3
      then show ?thesis using S(2,3) by linarith
    qed
    then have q: "of_int q + 1 \<le> (of_int q' :: rat)" using False by linarith
    consider "0 \<le> d" | "d' \<le> 0" | "d \<le> 0" "0 \<le> d'" by linarith
    then show ?thesis
    proof cases
      case 1
      then show ?thesis using S(3) assms(1) X q by auto
    next
      case 2
      then show ?thesis using S(2) assms(1) X q by auto
    next
      case 3
      then have "of_int q \<le> (0 :: rat)" "x \<le> 0" "0 \<le> (of_int q' :: rat)" "0 \<le> x'" using S(2,3) by auto
      then show ?thesis by linarith
    qed
  qed
  then have "f64 (of_int q + x) \<le> f64 (of_int q' + x')" by (rule f64_mono)
  then show ?thesis
    unfolding Seconds_def fadd_def q_def [symmetric] q'_def [symmetric] r_def [symmetric] r'_def [symmetric]
      x_def [symmetric] x'_def [symmetric] small .
qed

lemma Sub_range: "- (2 ^ 63) \<le> Sub t u" "Sub t u \<le> 2 ^ 63"
  by (auto simp: Sub_def minDuration_def maxDuration_def max_def min_def)

lemma score_mono:
  assumes "0 \<le> agingFactor s" and "t \<le> t'" and "c' \<le> c" and "b \<le> b'"
  shows "score_at s b' c' t' \<le> score_at s b c t"
proof -
  have "Sub t c \<le> Sub t' c'" using Sub_mono [OF assms(2)] Sub_antimono [OF assms(3)] by (rule order_trans)
  then have "Seconds (Sub t c) \<le> Seconds (Sub t' c')" by (rule Seconds_mono) (rule Sub_range)+
  then show ?thesis
    using assms(1,4) by (simp add: score_at_def Let_def float_ops_mono)
qed

section \<open>The least score\<close>

lemma pick_loop_least:
  "pick_loop score best (score best) sts = p \<Longrightarrow>
     (\<forall>x \<in> set (best # sts). score p \<le> score x) \<and>
     (\<exists>pre post. best # sts = pre @ p # post \<and> (\<forall>x \<in> set pre. score p < score x))"
proof (induction sts arbitrary: best)
  case Nil
  then show ?case by (auto intro: exI [of _ "[]"])
next
  case (Cons st sts)
  show ?case
  proof (cases "score st < score best")
    case True
    then have "pick_loop score st (score st) sts = p" using Cons.prems by simp
    from Cons.IH [OF this] obtain pre post where h: "\<forall>x \<in> set (st # sts). score p \<le> score x"
      "st # sts = pre @ p # post" "\<forall>x \<in> set pre. score p < score x" by blast
    have "score p < score best" using h(1) True by (meson le_less_trans list.set_intros(1))
    then have "\<forall>x \<in> set (best # pre). score p < score x" "\<forall>x \<in> set (best # st # sts). score p \<le> score x"
      using h(1,3) by simp_all
    moreover have "best # st # sts = (best # pre) @ p # post" using h(2) by simp
    ultimately show ?thesis by blast
  next
    case False
    then have "pick_loop score best (score best) sts = p" using Cons.prems by simp
    from Cons.IH [OF this] obtain pre post where h: "\<forall>x \<in> set (best # sts). score p \<le> score x"
      "best # sts = pre @ p # post" "\<forall>x \<in> set pre. score p < score x" by blast
    have "\<exists>pre post. best # st # sts = pre @ p # post \<and> (\<forall>x \<in> set pre. score p < score x)"
    proof (cases pre)
      case Nil
      then show ?thesis using h(2) by (intro exI [of _ "[]"] exI [of _ "st # sts"]) simp
    next
      case (Cons y ys)
      then show ?thesis using h(2,3) False by (intro exI [of _ "best # st # ys"] exI [of _ post]) auto
    qed
    then show ?thesis using h(1) False by auto
  qed
qed

section \<open>Properties\<close>

definition sample_staff :: "nat \<Rightarrow> int \<Rightarrow> StaffModel" where
  "sample_staff i n = \<lparr>s_ID = i, s_Name = ''Ann'', s_ShiftStart = 0, s_ShiftEnd = 10 ^ 15, s_MaxParallel = 9,
     s_EfficiencyMultiplier = 1, s_ActiveTasks = n, s_ActiveSeconds = 0, s_OnBreak = False, s_CreatedAt = 0\<rparr>"

text \<open>
  C18: The queue is fair to waiting and to priority: whatever the rounding of the float arithmetic, a task that
  was created earlier, or is scored later, or has a higher base priority never gets a worse (higher) score, at
  any instants and however long the wait.
\<close>

theorem waiting_never_hurts:
  assumes "0 \<le> agingFactor s" and "t \<le> t'" and "createdAt' \<le> createdAt" and "basePriority \<le> basePriority'"
  shows "score_at s basePriority' createdAt' t' \<le> score_at s basePriority createdAt t"
  using score_mono [OF assms] .

theorem waiting_never_hurts_witness:
  "score_at NewKitchenAppService 6 0 (3 * 10 ^ 9) \<le> score_at NewKitchenAppService 5 (10 ^ 9) (2 * 10 ^ 9)"
proof (rule waiting_never_hurts)
  show "0 \<le> agingFactor NewKitchenAppService"
    by (simp add: NewKitchenAppService_def f64_nonneg)
qed simp_all

text \<open>
  C19: The member of staff picked has the least score of all candidates, and is the first of those with
  that score in the order of the query; with no candidate there is none to pick.
\<close>

theorem picked_staff_is_best:
  assumes "pickStaff s candidates now = Some p"
  shows "(\<forall>x \<in> set candidates. staffScore s p now \<le> staffScore s x now) \<and>
    (\<exists>pre post. candidates = pre @ p # post \<and> (\<forall>x \<in> set pre. staffScore s p now < staffScore s x now))"
proof (cases candidates)
  case (Cons x xs)
  then have "pick_loop (\<lambda>y. staffScore s y now) x (staffScore s x now) xs = p" using assms by simp
  from pick_loop_least [OF this] show ?thesis using Cons by simp
qed (use assms in simp)

theorem picked_staff_is_best_witness:
  "\<exists>p. pickStaff NewKitchenAppService [sample_staff 1 3, sample_staff 2 0] 0 = Some p \<and>
     (\<exists>pre post. [sample_staff 1 3, sample_staff 2 0] = pre @ p # post)"
proof -
  obtain p where p: "pickStaff NewKitchenAppService [sample_staff 1 3, sample_staff 2 0] 0 = Some p" by simp
  from picked_staff_is_best [OF p] p show ?thesis by blast
qed

end
