(* ===== verification/TaskService.thy ===== *)
theory TaskService imports
  OrderRepo
  Scoring
begin

text \<open>
  \<open>internal/application/task_service.go\<close>: starting and completing a task. Both run in one database
  transaction; completing also releases capacity, updates the staff member's figures, unlocks
  dependent tasks, emits events and advances the order.

  The queue is reached through the operations record of the interface \<open>ReadyQueue\<close>. It is not
  part of the transaction: what has been enqueued stays enqueued when the transaction rolls back.
\<close>

section \<open>The queue as part of the world\<close>

definition enqueue :: "'q ready_queue_ops \<Rightarrow> string \<Rightarrow> rat \<Rightarrow> ('q world, unit) act" where
  "enqueue ops taskID score = (\<lambda>w.
     case Enqueue ops taskID score (queue w) of
       (None, q) \<Rightarrow> (Inr (), w\<lparr>queue := q\<rparr>)
     | (Some e, q) \<Rightarrow> (Inl e, w\<lparr>queue := q\<rparr>))"

definition pop_top :: "'q ready_queue_ops \<Rightarrow> int \<Rightarrow> ('q world, string list) act" where
  "pop_top ops n = (\<lambda>w. case PopTopN ops n (queue w) of (r, q) \<Rightarrow> (r, w\<lparr>queue := q\<rparr>))"

section \<open>Operations\<close>

definition task_event :: "string \<Rightarrow> int \<Rightarrow> nat \<Rightarrow> DomainEvent" where
  "task_event ty t taskID = \<lparr>Type = ty, Timestamp = Unix t, Payload = FormatUint taskID\<rparr>"

definition start_body :: "env \<Rightarrow> nat \<Rightarrow> int \<Rightarrow> ('q world, unit) act" where
  "start_body env taskID now =
     and_then (UpdateTaskStatusStarted env taskID now) (\<lambda>task.
     if t_AssignedMachineID task = None
     then fail (Errorf (task_text (t_ID task) '' missing assigned machine''))
     else InsertDomainEvent env ''task'' (FormatUint (t_ID task)) (task_event EventTaskStarted now (t_ID task)))"

definition StartTask :: "env \<Rightarrow> nat \<Rightarrow> ('q world, unit) act" where
  "StartTask env taskID =
     and_then (Now env) (\<lambda>now. transaction env (start_body env taskID now))"

definition release_child ::
  "env \<Rightarrow> 'q ready_queue_ops \<Rightarrow> KitchenAppService \<Rightarrow> int \<Rightarrow> TaskModel \<Rightarrow> ('q world, unit) act" where
  "release_child env ops s now child =
     (if t_Status child = TaskUnassigned \<and> t_PendingDeps child = 0
      then and_then (queueScore env s (t_BasePriority child) (t_CreatedAt child)) (\<lambda>score.
           and_then (enqueue ops (FormatUint (t_ID child)) score) (\<lambda>_.
           InsertDomainEvent env ''task'' (FormatUint (t_ID child)) (task_event EventTaskReady now (t_ID child))))
      else ok ())"

definition complete_body ::
  "env \<Rightarrow> 'q ready_queue_ops \<Rightarrow> KitchenAppService \<Rightarrow> nat \<Rightarrow> int \<Rightarrow> ('q world, unit) act" where
  "complete_body env ops s taskID now =
     and_then (UpdateTaskStatusCompleted env taskID now) (\<lambda>task.
     case (t_AssignedMachineID task, t_AssignedStaffID task, t_StartedAt task) of
       (Some mid, Some sid, Some startedAt) \<Rightarrow>
         and_then (IncrementCounterUsage env (t_CounterID task) (- 1)) (\<lambda>_.
         and_then (IncrementMachineUsage env mid (- 1)) (\<lambda>_.
         and_then (UpdateStaffEfficiencyAndActive env sid (- 1) (t_EstimateSecs task) startedAt now) (\<lambda>_.
         and_then (DecrementDependentPendingDeps env (t_ID task)) (\<lambda>readyChildren.
         and_then (for_each (release_child env ops s now) readyChildren) (\<lambda>_.
         and_then (InsertDomainEvent env ''task'' (FormatUint (t_ID task))
                     (task_event EventTaskCompleted now (t_ID task))) (\<lambda>_.
         and_then (MarkOrderPartCompletedIfNotDone env (t_OrderID task)) (\<lambda>_.
         and_then (CompleteOrderIfAllTasksDone env (t_OrderID task)) (\<lambda>_. ok ()))))))))
     | _ \<Rightarrow> fail (Errorf (task_text (t_ID task) '' missing assignment/start metadata'')))"

definition CompleteTask ::
  "env \<Rightarrow> 'q ready_queue_ops \<Rightarrow> KitchenAppService \<Rightarrow> nat \<Rightarrow> ('q world, unit) act" where
  "CompleteTask env ops s taskID =
     and_then (Now env) (\<lambda>now. transaction env (complete_body env ops s taskID now))"

definition GetTask :: "env \<Rightarrow> nat \<Rightarrow> ('q world, TaskModel) act" where
  "GetTask env taskID = GetTaskByID env taskID"

end
