(* ===== verification/AllocationService.thy ===== *)
theory AllocationService imports
  TaskService
begin

text \<open>
  \<open>internal/application/allocation_service.go\<close>: one allocation run requeues expired assignments,
  pops up to twenty ids from the ready queue and tries to assign each in a transaction of its
  own; an id whose assignment fails goes back to the queue when its task is still unassigned.
\<close>

section \<open>Requeue\<close>

text \<open>
  The boost by 10 is a float addition. \<open>now.Add(-s.assignTTL)\<close> is exact for the instants in use.
\<close>

definition requeue_enqueue ::
  "env \<Rightarrow> 'q ready_queue_ops \<Rightarrow> KitchenAppService \<Rightarrow> TaskModel \<Rightarrow> ('q world, unit) act" where
  "requeue_enqueue env ops s task =
     and_then (queueScore env s (fadd (t_BasePriority task) 10) (t_CreatedAt task)) (\<lambda>score.
     enqueue ops (FormatUint (t_ID task)) score)"

definition requeueExpiredAssignedTasks ::
  "env \<Rightarrow> 'q ready_queue_ops \<Rightarrow> KitchenAppService \<Rightarrow> int \<Rightarrow> ('q world, unit) act" where
  "requeueExpiredAssignedTasks env ops s now =
     (let cutoff = now - assignTTL s
      in and_then (RequeueExpiredAssignedTasks env cutoff 50) (\<lambda>requeued.
         for_each (requeue_enqueue env ops s) requeued))"

section \<open>Assignment\<close>

definition assigned_payload :: "nat \<Rightarrow> nat \<Rightarrow> nat \<Rightarrow> string" where
  "assigned_payload taskID staffID machineID =
     ''task='' @ FormatUint taskID @ '',staff='' @ FormatUint staffID @ '',machine='' @ FormatUint machineID"

definition assign_body :: "env \<Rightarrow> KitchenAppService \<Rightarrow> int \<Rightarrow> nat \<Rightarrow> ('q world, nat) act" where
  "assign_body env s now taskID =
     and_then (LockTaskForAssignment env taskID) (\<lambda>task.
     and_then (LockCounter env (t_CounterID task)) (\<lambda>counter.
     if c_Capacity counter \<le> c_InUse counter then fail (Errorf ''counter busy'')
     else and_then (FindEligibleStaff env (t_CounterID task) now) (\<lambda>staffList.
     if length staffList = 0 then fail (Errorf ''no eligible staff'')
     else case t_MachineID task of
       None \<Rightarrow> fail (Errorf (task_text (t_ID task) '' missing machine_id''))
     | Some machineID \<Rightarrow>
     and_then (LockMachineForTask env machineID (t_CounterID task)) (\<lambda>machine.
     case pickStaff s staffList now of
       None \<Rightarrow> fail (Errorf ''index out of range'')
     | Some pick \<Rightarrow>
     and_then (LockStaff env (s_ID pick)) (\<lambda>_.
     and_then (UpdateTaskAssignment env (t_ID task) (s_ID pick) (m_ID machine) now) (\<lambda>_.
     and_then (IncrementCounterUsage env (t_CounterID task) 1) (\<lambda>_.
     and_then (IncrementMachineUsage env (m_ID machine) 1) (\<lambda>_.
     and_then (MarkOrderInProgressIfConfirmed env (t_OrderID task)) (\<lambda>_.
     and_then (IncrementStaffActiveTasks env (s_ID pick) 1) (\<lambda>_.
     and_then (InsertDomainEvent env ''task'' (FormatUint (t_ID task))
       \<lparr>Type = EventTaskAssigned, Timestamp = Unix now,
        Payload = assigned_payload (t_ID task) (s_ID pick) (m_ID machine)\<rparr>) (\<lambda>_.
     ok (t_ID task))))))))))))"

definition allocate_one ::
  "env \<Rightarrow> 'q ready_queue_ops \<Rightarrow> KitchenAppService \<Rightarrow> int \<Rightarrow> string \<Rightarrow> nat \<Rightarrow> ('q world, nat) act" where
  "allocate_one env ops s now raw firstAssigned =
     (case ParseUint raw of
        Inl _ \<Rightarrow> ok firstAssigned
      | Inr taskID \<Rightarrow>
          and_then (attempt (transaction env (assign_body env s now taskID))) (\<lambda>r.
          case r of
            Inl _ \<Rightarrow>
              and_then (attempt (GetTaskByID env taskID)) (\<lambda>g.
              case g of
                Inl _ \<Rightarrow> ok firstAssigned
              | Inr task \<Rightarrow>
                  if t_Status task = TaskUnassigned
                  then and_then (queueScore env s (t_BasePriority task) (t_CreatedAt task)) (\<lambda>score.
                       and_then (attempt (enqueue ops (FormatUint (t_ID task)) score)) (\<lambda>_.
                       ok firstAssigned))
                  else ok firstAssigned)
          | Inr assignedTaskID \<Rightarrow> ok (if firstAssigned = 0 then assignedTaskID else firstAssigned)))"

definition AllocateOnce ::
  "env \<Rightarrow> 'q ready_queue_ops \<Rightarrow> KitchenAppService \<Rightarrow> ('q world, nat) act" where
  "AllocateOnce env ops s =
     and_then (Now env) (\<lambda>now.
     and_then (requeueExpiredAssignedTasks env ops s now) (\<lambda>_.
     and_then (pop_top ops 20) (\<lambda>ids.
     if length ids = 0 then ok 0
     else fold_act (allocate_one env ops s now) ids 0)))"

end
