(* ===== verification/OrderService.thy ===== *)
theory OrderService imports
  DependencyAnalyzer
  AllocationService
begin

text \<open>
  \<open>internal/application/order_service.go\<close>: an order is exploded into one task per recipe step and
  copy, the dependencies between them are derived and stored, and the tasks that are ready are
  enqueued with an event each. Only the creation of order and tasks is one transaction; the
  steps after it are statements of their own.
\<close>

section \<open>Request\<close>

text \<open>\<open>Items\<close> is a Go map, an association list with distinct keys.\<close>

record ConfirmOrderRequest =
  ExternalOrderID :: string
  Items :: "(string \<times> int) list"

section \<open>Explosion into tasks\<close>

text \<open>
  The row of a step: the fields Go leaves zero are set by the insert (id, order, status,
  creation time) or are NULL or 0 in the table.
\<close>

definition new_task :: "string \<Rightarrow> RecipeStepModel \<Rightarrow> TaskModel" where
  "new_task item step = \<lparr>t_ID = 0, t_OrderID = 0, t_Description = item @ '' :: '' @ r_Description step,
     t_CounterID = r_CounterID step, t_MachineID = r_MachineID step,
     t_EstimateSecs = r_EstimateSecs step, t_BasePriority = r_BasePriority step, t_PendingDeps = 0,
     t_AssignedStaffID = None, t_AssignedMachineID = None, t_Status = TaskUnassigned,
     t_AssignmentVersion = 0, t_ClaimedBy = None, t_ClaimedUntil = None, t_AssignedAt = None,
     t_StartedAt = None, t_CompletedAt = None, t_CreatedAt = 0\<rparr>"

fun add_steps :: "string \<Rightarrow> RecipeStepModel list \<Rightarrow> TaskModel list \<Rightarrow> (int \<rightharpoonup> int) \<Rightarrow>
    error + (TaskModel list \<times> (int \<rightharpoonup> int))" where
  "add_steps item [] rows stepToTaskIdx = Inr (rows, stepToTaskIdx)"
| "add_steps item (step # steps) rows stepToTaskIdx =
     (if r_MachineID step = None
      then Inl (Errorf (''recipe step missing machine for item '' @ item @ '' step '' @ FormatInt (r_StepOrder step)))
      else let rows' = rows @ [new_task item step]
           in add_steps item steps rows'
                (stepToTaskIdx(r_StepOrder step \<mapsto> int (length rows') - 1)))"

text \<open>
  \<open>rank\<close> orders the keys of the dependency map in the range of each copy, numbered by the rows
  there are so far.
\<close>

definition range_deps :: "(nat \<Rightarrow> int \<Rightarrow> nat) \<Rightarrow> nat \<Rightarrow> (int \<times> int list) list \<Rightarrow> (int \<times> int list) list" where
  "range_deps rank n deps = sort_key (rank n \<circ> fst) deps"

fun add_copies :: "(nat \<Rightarrow> int \<Rightarrow> nat) \<Rightarrow> string \<Rightarrow> RecipeStepModel list \<Rightarrow> (int \<times> int list) list \<Rightarrow>
    (nat \<rightharpoonup> int) \<Rightarrow> nat \<Rightarrow> TaskModel list \<Rightarrow> taskDepPair list \<Rightarrow>
    error + (TaskModel list \<times> taskDepPair list)" where
  "add_copies rank item steps deps caps 0 rows links = Inr (rows, links)"
| "add_copies rank item steps deps caps (Suc n) rows links =
     (case add_steps item steps rows Map.empty of
        Inl e \<Rightarrow> Inl e
      | Inr (rows', stepToTaskIdx) \<Rightarrow>
          add_copies rank item steps deps caps n rows'
            (links @ inferRecipeTaskDeps steps stepToTaskIdx (range_deps rank (length rows) deps) caps))"

text \<open>A missing key of a Go map gives the zero value, here the empty slice or map.\<close>

definition slice_at :: "('k \<times> 'v list) list \<Rightarrow> 'k \<Rightarrow> 'v list" where
  "slice_at m k = (case map_of m k of None \<Rightarrow> [] | Some vs \<Rightarrow> vs)"

fun add_items :: "(nat \<Rightarrow> int \<Rightarrow> nat) \<Rightarrow> (string \<times> RecipeStepModel list) list \<Rightarrow>
    (string \<times> (int \<times> int list) list) list \<Rightarrow> (nat \<rightharpoonup> int) \<Rightarrow> (string \<times> int) list \<Rightarrow>
    TaskModel list \<Rightarrow> taskDepPair list \<Rightarrow> error + (TaskModel list \<times> taskDepPair list)" where
  "add_items rank stepsByItem depsByItem caps [] rows links = Inr (rows, links)"
| "add_items rank stepsByItem depsByItem caps ((item, qty) # its) rows links =
     (let steps = slice_at stepsByItem item
      in if length steps = 0 then Inl (Errorf (''recipe not found for item '' @ item))
         else if qty \<le> 0 then add_items rank stepsByItem depsByItem caps its rows links
         else case add_copies rank item steps (slice_at depsByItem item) caps (nat qty) rows links of
                Inl e \<Rightarrow> Inl e
              | Inr (rows', links') \<Rightarrow> add_items rank stepsByItem depsByItem caps its rows' links')"

fun check_links :: "int \<Rightarrow> taskDepPair list \<Rightarrow> error option" where
  "check_links n [] = None"
| "check_links n (d # ds) =
     (if TaskIdx d < 0 \<or> n \<le> TaskIdx d \<or> DepIdx d < 0 \<or> n \<le> DepIdx d
      then Some (Errorf (''invalid derived dependency indices task='' @ FormatInt (TaskIdx d) @
             '' dep='' @ FormatInt (DepIdx d)))
      else if TaskIdx d = DepIdx d
      then Some (Errorf (''invalid self dependency derived for task index '' @ FormatInt (TaskIdx d)))
      else check_links n ds)"

fun build_deps :: "TaskModel list \<Rightarrow> taskDepPair list \<Rightarrow> string list \<Rightarrow> TaskDependencyModel list" where
  "build_deps ts [] seen = []"
| "build_deps ts (link # links) seen =
     (let dep = \<lparr>td_TaskID = t_ID (ts ! nat (TaskIdx link)),
                 td_DependsOnTaskID = t_ID (ts ! nat (DepIdx link))\<rparr>;
          key = FormatUint (td_TaskID dep) @ '':'' @ FormatUint (td_DependsOnTaskID dep)
      in if key \<in> set seen then build_deps ts links seen
         else dep # build_deps ts links (key # seen))"

section \<open>Confirmation\<close>

definition publish_ready ::
  "env \<Rightarrow> 'q ready_queue_ops \<Rightarrow> KitchenAppService \<Rightarrow> TaskModel \<Rightarrow> nat list \<Rightarrow> ('q world, nat list) act" where
  "publish_ready env ops s t readyIDs =
     and_then (queueScore env s (t_BasePriority t) (t_CreatedAt t)) (\<lambda>score.
     and_then (enqueue ops (FormatUint (t_ID t)) score) (\<lambda>_.
     and_then (Now env) (\<lambda>now.
     and_then (InsertDomainEventNoTx env ''task'' (FormatUint (t_ID t))
                 (task_event EventTaskReady now (t_ID t))) (\<lambda>_.
     ok (readyIDs @ [t_ID t])))))"

definition machine_ids :: "string list \<Rightarrow> (string \<times> RecipeStepModel list) list \<Rightarrow> nat list" where
  "machine_ids keys stepsByItem =
     concat (map (\<lambda>k. List.map_filter r_MachineID (slice_at stepsByItem k)) keys)"

definition default_order_id :: "int \<Rightarrow> string" where
  "default_order_id t = ''order-'' @ FormatInt (UnixNano t)"

definition store_links :: "env \<Rightarrow> nat \<Rightarrow> TaskModel list \<Rightarrow> taskDepPair list \<Rightarrow> ('q world, unit) act" where
  "store_links env orderID ts depLinks =
     (if 0 < length depLinks
      then and_then (InsertTaskDependencies env (build_deps ts depLinks [])) (\<lambda>_.
           RecalculatePendingDepsForOrder env orderID)
      else ok ())"

definition ConfirmOrder ::
  "env \<Rightarrow> 'q ready_queue_ops \<Rightarrow> KitchenAppService \<Rightarrow> ConfirmOrderRequest \<Rightarrow>
     ('q world, nat \<times> nat list) act" where
  "ConfirmOrder env ops s req =
     (if length (Items req) = 0 then fail (Errorf ''items are required'')
      else
        and_then (if ExternalOrderID req = [] then and_then (Now env) (\<lambda>t. ok (default_order_id t))
                  else ok (ExternalOrderID req)) (\<lambda>externalID.
        and_then (range_keys env (map fst (Items req))) (\<lambda>itemKeys.
        and_then (GetActiveRecipeStepsByItems env itemKeys) (\<lambda>stepsByItem.
        and_then (GetRecipeStepDependenciesByItems env itemKeys) (\<lambda>explicitDepsByItem.
        and_then (range_keys env (map fst stepsByItem)) (\<lambda>stepKeys.
        and_then (GetMachineCapacitiesByIDs env (machine_ids stepKeys stepsByItem)) (\<lambda>machineCapByID.
        and_then (range_keys env (map fst (Items req))) (\<lambda>order_of_items.
        and_then (\<lambda>w. (add_items (int_rank env (tick w)) stepsByItem explicitDepsByItem machineCapByID
                       (map (\<lambda>k. (k, the (map_of (Items req) k))) order_of_items) [] [],
                      w\<lparr>tick := Suc (tick w)\<rparr>)) (\<lambda>(taskRows, depLinks).
        case check_links (int (length taskRows)) depLinks of
          Some e \<Rightarrow> fail e
        | None \<Rightarrow>
        if length taskRows = 0 then fail (Errorf ''no tasks generated for order'')
        else
        and_then (CreateOrderWithTasks env externalID taskRows []) (\<lambda>(order, ts).
        and_then (store_links env (o_ID order) ts depLinks) (\<lambda>_.
        and_then (ListOrderReadyTasks env (o_ID order)) (\<lambda>readyTasks.
        and_then (fold_act (publish_ready env ops s) readyTasks []) (\<lambda>readyIDs.
        ok (o_ID order, readyIDs)))))))))))))) "

section \<open>The explosion\<close>

text \<open>Links join two different tasks of one copy, so the checks after the explosion never fail.\<close>

definition links_in :: "int set \<Rightarrow> taskDepPair list \<Rightarrow> bool" where
  "links_in I links \<longleftrightarrow> (\<forall>l \<in> set links. TaskIdx l \<in> I \<and> DepIdx l \<in> I \<and> TaskIdx l \<noteq> DepIdx l)"

lemma links_in_simps [simp]:
  "links_in I []" "links_in I (xs @ ys) \<longleftrightarrow> links_in I xs \<and> links_in I ys"
  "links_in I (l # xs) \<longleftrightarrow> TaskIdx l \<in> I \<and> DepIdx l \<in> I \<and> TaskIdx l \<noteq> DepIdx l \<and> links_in I xs"
  by (auto simp: links_in_def)

lemma links_in_mono: "links_in I links \<Longrightarrow> I \<subseteq> J \<Longrightarrow> links_in J links"
  by (auto simp: links_in_def)

lemma fold_keeps: "(\<And>x s. x \<in> set xs \<Longrightarrow> P s \<Longrightarrow> P (f x s)) \<Longrightarrow> P s \<Longrightarrow> P (fold f xs s)"
  by (induction xs arbitrary: s) auto

lemma addEdge_in: "links_in (ran m) (fst es) \<Longrightarrow> links_in (ran m) (fst (addEdge m t d es))"
  by (auto simp: addEdge_def Let_def ran_def split: prod.splits option.splits)

lemma infer_links: "links_in (ran m) (inferRecipeTaskDeps steps m deps caps)"
proof (cases "deps = []")
  case False
  have "links_in (ran m) (fst (explicit_edges m deps ([], [])))"
    unfolding explicit_edges_def
    by (intro fold_keeps [where P = "\<lambda>es. links_in (ran m) (fst es)"])
      (auto intro!: fold_keeps [where P = "\<lambda>es. links_in (ran m) (fst es)"] addEdge_in split: prod.splits)
  then show ?thesis using False by (simp add: inferRecipeTaskDeps_def)
next
  case True
  have a: "links_in (ran m) (fst (assembly_edges m assembly sos ([], [])))" for assembly sos
    unfolding assembly_edges_def
    by (intro fold_keeps [where P = "\<lambda>es. links_in (ran m) (fst es)"])
      (auto intro!: addEdge_in)
  have "links_in (ran m) (fst (snd (fold (machine_step m mo caps) sos (prev, es))))"
    if "links_in (ran m) (fst es)" for mo sos prev es
    by (rule fold_keeps [where P = "\<lambda>st. links_in (ran m) (fst (snd st))"])
      (auto simp: machine_step_def that split: option.splits prod.splits intro: addEdge_in)
  from this [OF a] show ?thesis
    using True by (simp add: inferRecipeTaskDeps_def Let_def case_prod_beta)
qed

lemma add_steps_run:
  assumes "add_steps item steps rows m = Inr (rows', m')" and "ran m \<subseteq> {lo..<int (length rows)}"
    and "lo \<le> int (length rows)"
  shows "length rows' = length rows + length steps \<and> ran m' \<subseteq> {lo..<int (length rows')}"
  using assms
proof (induction item steps rows m rule: add_steps.induct)
  case (2 item step steps rows m)
  let ?rows = "rows @ [new_task item step]" and ?m = "m(r_StepOrder step \<mapsto> int (length rows))"
  have "ran ?m \<subseteq> insert (int (length rows)) (ran m)" by (auto simp: ran_def)
  then have "ran ?m \<subseteq> {lo..<int (length ?rows)}" using "2.prems"(2,3) by force
  moreover have "add_steps item steps ?rows ?m = Inr (rows', m')" "r_MachineID step \<noteq> None"
    using "2.prems"(1) by (auto simp: Let_def split: if_splits)
  moreover have "int (length ?rows) - 1 = int (length rows)" by simp
  ultimately have "length rows' = length ?rows + length steps \<and> ran m' \<subseteq> {lo..<int (length rows')}"
    using "2.prems"(3) by (intro "2.IH") (simp_all add: fun_upd_def)
  then show ?case by (elim conjE, intro conjI) simp_all
qed auto

lemma add_copies_run:
  assumes "add_copies rank item steps deps caps n rows links = Inr (rows', links')"
    and "links_in {0..<int (length rows)} links"
  shows "length rows' = length rows + n * length steps \<and> links_in {0..<int (length rows')} links'"
  using assms
proof (induction rank item steps deps caps n rows links rule: add_copies.induct)
  case (2 rank item steps deps caps n rows links)
  obtain rows1 m where s: "add_steps item steps rows Map.empty = Inr (rows1, m)"
    and rest: "add_copies rank item steps deps caps n rows1
      (links @ inferRecipeTaskDeps steps m (range_deps rank (length rows) deps) caps) = Inr (rows', links')"
    using "2.prems"(1) by (auto split: sum.splits)
  have S: "length rows1 = length rows + length steps" "ran m \<subseteq> {0..<int (length rows1)}"
    using add_steps_run [OF s, of 0] by auto
  have "links_in {0..<int (length rows1)} (links @ inferRecipeTaskDeps steps m (range_deps rank (length rows) deps) caps)"
    using links_in_mono [OF "2.prems"(2)] links_in_mono [OF infer_links S(2)] S(1) by auto
  from "2.IH" [OF s refl rest this]
  have "length rows' = length rows1 + n * length steps" "links_in {0..<int (length rows')} links'" by blast+
  then show ?case by (intro conjI) (simp_all only: S(1) mult_Suc add.assoc)
qed simp

lemma add_items_run:
  assumes "add_items rank stepsByItem depsByItem caps its rows links = Inr (rows', links')"
    and "links_in {0..<int (length rows)} links"
  shows "int (length rows') = int (length rows) +
      sum_list (map (\<lambda>(item, qty). max qty 0 * int (length (slice_at stepsByItem item))) its) \<and>
    links_in {0..<int (length rows')} links'"
  using assms
proof (induction rank stepsByItem depsByItem caps its rows links rule: add_items.induct)
  case (2 rank stepsByItem depsByItem caps item qty its rows links)
  let ?steps = "slice_at stepsByItem item"
  have ne: "?steps \<noteq> []" using "2.prems"(1) by (auto simp: Let_def split: if_splits)
  show ?case
  proof (cases "qty \<le> 0")
    case True
    then have "add_items rank stepsByItem depsByItem caps its rows links = Inr (rows', links')"
      using "2.prems"(1) ne by (simp add: Let_def)
    then have "int (length rows') = int (length rows) +
        sum_list (map (\<lambda>(item, qty). max qty 0 * int (length (slice_at stepsByItem item))) its)"
      "links_in {0..<int (length rows')} links'"
      using "2.IH"(1) [OF refl _ True _ "2.prems"(2)] ne by blast+
    then show ?thesis using True by (intro conjI) (simp_all only:, simp add: max_def)
  next
    case False
    then obtain rows1 links1 where c: "add_copies rank item ?steps (slice_at depsByItem item) caps (nat qty) rows links =
        Inr (rows1, links1)"
      and rest: "add_items rank stepsByItem depsByItem caps its rows1 links1 = Inr (rows', links')"
      using "2.prems"(1) ne by (auto simp: Let_def split: sum.splits)
    note C = add_copies_run [OF c "2.prems"(2)]
    have "int (length rows') = int (length rows1) +
        sum_list (map (\<lambda>(item, qty). max qty 0 * int (length (slice_at stepsByItem item))) its)"
      "links_in {0..<int (length rows')} links'"
      using "2.IH"(2) [OF refl _ False c refl rest] C ne by blast+
    then show ?thesis using C False by (intro conjI) (simp_all only:, simp add: max_def)
  qed
qed simp

lemma check_links_in: "links_in {0..<n} links \<Longrightarrow> check_links n links = None"
  by (induction links) auto

lemma add_steps_error:
  "(\<exists>e. add_steps item steps rows m = Inl e) \<longleftrightarrow> (\<exists>st \<in> set steps. r_MachineID st = None)"
proof (induction steps arbitrary: rows m)
  case (Cons step steps)
  show ?case
  proof (cases "r_MachineID step = None")
    case False
    then obtain mid where mid: "r_MachineID step = Some mid" by auto
    then have "add_steps item (step # steps) rows m =
        add_steps item steps (rows @ [new_task item step]) (m(r_StepOrder step \<mapsto> int (length rows)))"
      by (simp add: Let_def)
    then show ?thesis using Cons.IH mid by simp
  qed simp
qed simp

lemma add_copies_error:
  "(\<exists>e. add_copies rank item steps deps caps n rows links = Inl e) \<longleftrightarrow>
     0 < n \<and> (\<exists>st \<in> set steps. r_MachineID st = None)"
proof (induction rank item steps deps caps n rows links rule: add_copies.induct)
  case (2 rank item steps deps caps n rows links)
  show ?case
  proof (cases "add_steps item steps rows Map.empty")
    case (Inl e)
    then show ?thesis using add_steps_error [of item steps rows Map.empty] by auto
  next
    case (Inr p)
    then obtain rows1 m where p: "add_steps item steps rows Map.empty = Inr (rows1, m)" by (cases p) auto
    then have none: "(\<exists>st \<in> set steps. r_MachineID st = None) \<longleftrightarrow> False"
      using add_steps_error [of item steps rows Map.empty] by auto
    show ?thesis using "2.IH" [OF p refl] p unfolding none by simp
  qed
qed simp

definition unmakeable :: "(string \<times> RecipeStepModel list) list \<Rightarrow> string \<times> int \<Rightarrow> bool" where
  "unmakeable stepsByItem wanted \<longleftrightarrow> slice_at stepsByItem (fst wanted) = [] \<or>
     0 < snd wanted \<and> (\<exists>st \<in> set (slice_at stepsByItem (fst wanted)). r_MachineID st = None)"

lemma add_items_error:
  "(\<exists>e. add_items rank stepsByItem depsByItem caps its rows links = Inl e) \<longleftrightarrow>
     (\<exists>wanted \<in> set its. unmakeable stepsByItem wanted)"
proof (induction rank stepsByItem depsByItem caps its rows links rule: add_items.induct)
  case (2 rank stepsByItem depsByItem caps item qty its rows links)
  let ?steps = "slice_at stepsByItem item"
  let ?c = "add_copies rank item ?steps (slice_at depsByItem item) caps (nat qty) rows links"
  consider "?steps = []" | "?steps \<noteq> []" "qty \<le> 0" | "?steps \<noteq> []" "0 < qty" by linarith
  then show ?case
  proof cases
    case 3
    have u: "unmakeable stepsByItem (item, qty) \<longleftrightarrow> (\<exists>st \<in> set ?steps. r_MachineID st = None)"
      using 3 by (simp add: unmakeable_def)
    note E = add_copies_error [of rank item ?steps "slice_at depsByItem item" caps "nat qty" rows links]
    show ?thesis
    proof (cases ?c)
      case (Inl e)
      then show ?thesis using 3 E u by (auto simp: Let_def)
    next
      case (Inr p)
      then obtain rows1 links1 where p: "?c = Inr (rows1, links1)" by (cases p) auto
      then have none: "(\<exists>st \<in> set ?steps. r_MachineID st = None) \<longleftrightarrow> False" using E 3 by auto
      show ?thesis using "2.IH"(2) [OF refl _ _ p refl] 3 p u unfolding none by (simp add: Let_def)
    qed
  next
    case 2
    then show ?thesis using "2.IH"(1) [OF refl] by (simp add: Let_def unmakeable_def)
  qed (simp add: Let_def unmakeable_def)
qed simp

section \<open>Properties\<close>

text \<open>
  C12: The explosion of an order: it is refused exactly when some item has no recipe, or is wanted
  and has a step without a machine; otherwise the order gets one task per step and copy of each
  item, and the two checks of the derived links that follow never fail.
\<close>

theorem explosion:
  "case add_items rank stepsByItem depsByItem caps its [] [] of
     Inl e \<Rightarrow> (\<exists>wanted \<in> set its. unmakeable stepsByItem wanted)
   | Inr (rows, links) \<Rightarrow> \<not> (\<exists>wanted \<in> set its. unmakeable stepsByItem wanted) \<and>
       int (length rows) = (\<Sum>(item, qty) \<leftarrow> its. max qty 0 * int (length (slice_at stepsByItem item))) \<and>
       check_links (int (length rows)) links = None"
proof -
  note E = add_items_error [of rank stepsByItem depsByItem caps its "[]" "[]"]
  show ?thesis
  proof (cases "add_items rank stepsByItem depsByItem caps its [] []")
    case (Inl e)
    then show ?thesis using E by simp
  next
    case (Inr p)
    then obtain rows links where p: "add_items rank stepsByItem depsByItem caps its [] [] = Inr (rows, links)"
      by (cases p) auto
    then show ?thesis using E add_items_run [OF p] check_links_in by auto
  qed
qed

end
