(* ===== verification/Refinement.thy ===== *)
theory Refinement imports
  KitchenInvariant
  OrderService
begin

text \<open>
  The operations of the application service implement the transitions of the kitchen: for every
  behaviour of the environment and every queue with the contract \<open>ready_queue\<close>, the tables and the
  queued ids before and after an operation are related by a run of the kitchen.
\<close>

section \<open>From worlds to kitchen states\<close>

definition ready_ids :: "('q \<Rightarrow> string set) \<Rightarrow> 'q \<Rightarrow> nat set" where
  "ready_ids ids q = {n. \<exists>raw \<in> ids q. ParseUint raw = Inr n}"

text \<open>\<open>F\<close> holds the ids an allocation run has popped and not yet dealt with.\<close>

definition kitchen_state :: "('q \<Rightarrow> string set) \<Rightarrow> nat set \<Rightarrow> 'q world \<Rightarrow> nat set \<times> database" where
  "kitchen_state ids F w = (ready_ids ids (queue w) \<union> F, db w)"

lemma add_event_core [simp]: "same_core d (add_event ty i ev t d)"
  by (simp add: same_core_def add_event_def)

lemma run_idle: "same_core d d' \<Longrightarrow> Q' \<subseteq> Q \<Longrightarrow> kitchen_run (Q, d) (Q', d')"
  by (intro kitchen_run_step kitchen_step.idle)

lemma run_put: "Q' \<subseteq> Q \<union> settled_ids d \<Longrightarrow> kitchen_run (Q, d) (Q', d)"
  by (intro kitchen_run_step kitchen_step.put)

lemma quiet_state: "quiet w w' \<Longrightarrow> kitchen_state ids F w' = (fst (kitchen_state ids F w), db w')"
  by (simp add: kitchen_state_def quiet_def)

section \<open>The queue is left alone\<close>

definition queue_kept :: "('q world, 'a) act \<Rightarrow> bool" where
  "queue_kept m \<longleftrightarrow> (\<forall>q. keeps (\<lambda>w. queue w = q) m)"

lemma queue_keptD: "queue_kept m \<Longrightarrow> m w = (r, w') \<Longrightarrow> queue w' = queue w"
  unfolding queue_kept_def using keepsD [of "\<lambda>v. queue v = queue w" m w r w'] by blast

lemma queue_kept_statement [frame_intros]: "queue_kept (statement env body)"
  by (auto simp: queue_kept_def statement_def Let_def intro!: keepsI split: option.splits prod.splits if_splits)

lemma queue_kept_tx [frame_intros]: "queue_kept (tx_statement env body)"
  unfolding queue_kept_def
proof (intro allI keepsI)
  fix q r w w'
  assume "queue w = q" and run: "tx_statement env body w = (r, w')"
  obtain x v where s: "statement env body w = (x, v)" by force
  then have "queue v = queue w" by (rule queue_keptD [OF queue_kept_statement])
  then show "queue w' = q"
    using run s \<open>queue w = q\<close> by (auto simp: tx_statement_def split: if_splits sum.splits)
qed

lemma queue_kept_Now [frame_intros]: "queue_kept (Now env)"
  by (auto simp: queue_kept_def Now_def intro!: keepsI)

lemma queue_kept_rules [frame_intros]:
  "queue_kept (ok x)" "queue_kept (fail e)" "queue_kept (lift_result r)"
  "queue_kept m \<Longrightarrow> (\<And>x. queue_kept (f x)) \<Longrightarrow> queue_kept (and_then m f)"
  "queue_kept m \<Longrightarrow> queue_kept (attempt m)"
  "queue_kept m \<Longrightarrow> queue_kept m' \<Longrightarrow> queue_kept (if b then m else m')"
  "queue_kept m \<Longrightarrow> (\<And>y. queue_kept (g y)) \<Longrightarrow> queue_kept (case o1 of None \<Rightarrow> m | Some y \<Rightarrow> g y)"
  "(\<And>e. queue_kept (h e)) \<Longrightarrow> (\<And>y. queue_kept (k y)) \<Longrightarrow> queue_kept (case s1 of Inl e \<Rightarrow> h e | Inr y \<Rightarrow> k y)"
  unfolding queue_kept_def by (auto intro: frame_intros split: option.split sum.split)

lemma queue_kept_fold_act [frame_intros]: "(\<And>x a. queue_kept (f x a)) \<Longrightarrow> queue_kept (fold_act f xs a)"
  by (induction xs arbitrary: a) (auto intro: frame_intros)

section \<open>Transactions\<close>

text \<open>
  What has to be shown of the body of a transaction: when it succeeds it is a run; whatever its
  outcome, the ids it adds to the queue may be added in the state before it.
\<close>

lemma transaction_run:
  assumes "transaction env body w = (r, w')"
    and success: "\<And>x w0 w1. body w0 = (Inr x, w1) \<Longrightarrow> db w0 = db w \<Longrightarrow> queue w0 = queue w \<Longrightarrow>
      kitchen_run (kitchen_state ids F w0) (kitchen_state ids F w1)"
    and queued: "\<And>x w0 w1. body w0 = (x, w1) \<Longrightarrow> db w0 = db w \<Longrightarrow> queue w0 = queue w \<Longrightarrow>
      kitchen_run (kitchen_state ids F w0) (ready_ids ids (queue w1) \<union> F, db w)"
  shows "kitchen_run (kitchen_state ids F w) (kitchen_state ids F w')"
  using assms(1)
proof (cases rule: transaction_outcome)
  case not_begun
  then show ?thesis by (simp add: kitchen_state_def run_idle same_tables_core)
next
  case (committed x w1)
  then show ?thesis using success [OF committed(1)] by (simp add: kitchen_state_def)
next
  case (rolled_back q w1)
  then have "kitchen_run (ready_ids ids (queue w) \<union> F, db w) (ready_ids ids (queue w1) \<union> F, db w)"
    using queued [OF rolled_back(1)] by (simp add: kitchen_state_def)
  moreover have "kitchen_run (ready_ids ids (queue w1) \<union> F, db w) (ready_ids ids (queue w1) \<union> F, db w')"
    using rolled_back(2) by (simp add: run_idle same_tables_core)
  ultimately show ?thesis using rolled_back(3) kitchen_run_trans by (simp add: kitchen_state_def)
qed

lemma transaction_run_kept:
  assumes "transaction env body w = (r, w')" and "queue_kept body"
    and "\<And>x w0 w1. body w0 = (Inr x, w1) \<Longrightarrow> db w0 = db w \<Longrightarrow> queue w0 = queue w \<Longrightarrow>
      kitchen_run (kitchen_state ids F w0) (kitchen_state ids F w1)"
  shows "kitchen_run (kitchen_state ids F w) (kitchen_state ids F w')"
  using assms(1,3)
proof (rule transaction_run)
  fix x w0 w1 assume "body w0 = (x, w1)" "db w0 = db w" "queue w0 = queue w"
  then show "kitchen_run (kitchen_state ids F w0) (ready_ids ids (queue w1) \<union> F, db w)"
    using queue_keptD [OF assms(2)] by (simp add: kitchen_state_def run_idle)
qed

section \<open>Starting a task\<close>

lemma start_body_kept: "queue_kept (start_body env taskID now)"
  unfolding start_body_def UpdateTaskStatusStarted_def lock_task_def InsertDomainEvent_def
  by (intro frame_intros)

lemma start_body_run:
  assumes "start_body env taskID now w = (Inr u, w')"
  shows "kitchen_run (kitchen_state ids F w) (kitchen_state ids F w')"
proof -
  obtain r w1 where a: "UpdateTaskStatusStarted env taskID now w = (Inr r, w1)"
    and b: "InsertDomainEvent env ''task'' (FormatUint (t_ID r)) (task_event EventTaskStarted now (t_ID r)) w1 = (Inr u, w')"
    using assms unfolding start_body_def and_then_Inr by (auto split: if_splits)
  obtain t where t: "t \<in> set (tasks (db w))" "t_ID t = taskID" "t_Status t = TaskAssigned"
    "db w1 = set_tasks (\<lambda>x. t_ID x = taskID) (start_row now) (db w)" "quiet w w1"
    using UpdateTaskStatusStarted_Inr [OF a] by blast
  have "same_core (start_db t now (db w)) (db w')"
    using InsertDomainEvent_Inr [OF b] t(2,4) by (auto simp: start_db_def the_task_fun)
  then have "kitchen_step (fst (kitchen_state ids F w), db w) (fst (kitchen_state ids F w), db w')"
    by (rule kitchen_step.start [OF t(1,3)])
  moreover have "quiet w w'" using InsertDomainEvent_Inr [OF b] t(5) quiet_trans by blast
  ultimately show ?thesis by (simp add: quiet_queue kitchen_state_def kitchen_run_step)
qed

lemma StartTask_run:
  assumes "StartTask env taskID w = (r, w')"
  shows "kitchen_run (kitchen_state ids F w) (kitchen_state ids F w')"
proof -
  obtain t w0 where n: "Now env w = (Inr t, w0)" and b: "transaction env (start_body env taskID t) w0 = (r, w')"
    using assms unfolding StartTask_def and_then_def by (auto simp: Now_def)
  have "kitchen_run (kitchen_state ids F w0) (kitchen_state ids F w')"
    using b start_body_kept by (rule transaction_run_kept) (rule start_body_run)
  then show ?thesis using Now_Inr [OF n] by (simp add: kitchen_state_def quiet_def)
qed

section \<open>Completing a task\<close>

lemma InsertDomainEvent_core:
  "InsertDomainEvent env ty i ev w = (Inr u, w') \<Longrightarrow> same_core (db w) (db w') \<and> quiet w w'"
  using InsertDomainEvent_Inr by fastforce

text \<open>
  The body of the transaction in three parts: up to the release of dependent tasks, the tasks
  that go to the queue, and the rest.
\<close>

definition complete_pre :: "env \<Rightarrow> nat \<Rightarrow> int \<Rightarrow> ('q world, TaskModel \<times> TaskModel list) act" where
  "complete_pre env taskID now =
     and_then (UpdateTaskStatusCompleted env taskID now) (\<lambda>task.
     case (t_AssignedMachineID task, t_AssignedStaffID task, t_StartedAt task) of
       (Some mid, Some sid, Some startedAt) \<Rightarrow>
         and_then (IncrementCounterUsage env (t_CounterID task) (- 1)) (\<lambda>_.
         and_then (IncrementMachineUsage env mid (- 1)) (\<lambda>_.
         and_then (UpdateStaffEfficiencyAndActive env sid (- 1) (t_EstimateSecs task) startedAt now) (\<lambda>_.
         and_then (DecrementDependentPendingDeps env (t_ID task)) (\<lambda>ready. ok (task, ready)))))
     | _ \<Rightarrow> fail (Errorf (task_text (t_ID task) '' missing assignment/start metadata'')))"

definition complete_post :: "env \<Rightarrow> TaskModel \<Rightarrow> int \<Rightarrow> ('q world, unit) act" where
  "complete_post env task now =
     and_then (InsertDomainEvent env ''task'' (FormatUint (t_ID task))
                 (task_event EventTaskCompleted now (t_ID task))) (\<lambda>_.
     and_then (MarkOrderPartCompletedIfNotDone env (t_OrderID task)) (\<lambda>_.
     and_then (CompleteOrderIfAllTasksDone env (t_OrderID task)) (\<lambda>_. ok ())))"

lemma complete_body_parts:
  "complete_body env ops s taskID now = and_then (complete_pre env taskID now) (\<lambda>(task, ready).
     and_then (for_each (release_child env ops s now) ready) (\<lambda>_. complete_post env task now))"
  unfolding complete_body_def complete_pre_def complete_post_def and_then_assoc
  by (rule arg_cong [where f = "and_then _"], rule ext) (auto simp: and_then_assoc split: option.splits)

lemma complete_pre_kept: "queue_kept (complete_pre env taskID now)"
  unfolding complete_pre_def UpdateTaskStatusCompleted_def lock_task_def IncrementCounterUsage_def
    IncrementMachineUsage_def UpdateStaffEfficiencyAndActive_def DecrementDependentPendingDeps_def Let_def prod.case
  by (intro frame_intros)

lemma complete_post_kept: "queue_kept (complete_post env task now)"
  unfolding complete_post_def InsertDomainEvent_def MarkOrderPartCompletedIfNotDone_def
    CompleteOrderIfAllTasksDone_def
  by (intro frame_intros)

text \<open>The tables after the first part, and the tasks it finds ready.\<close>

definition settle_db :: "TaskModel \<Rightarrow> nat \<Rightarrow> nat \<Rightarrow> int \<Rightarrow> int \<Rightarrow> int \<Rightarrow> int \<Rightarrow> (rat \<Rightarrow> rat) \<Rightarrow> database \<Rightarrow> database" where
  "settle_db t sid mid now tc tm secs eff d =
     release_deps (t_ID t) (credit_staff sid (- 1) secs eff (adjust_machine mid (- 1) tm
       (adjust_counter (t_CounterID t) (- 1) tc (set_tasks (the_task t) (complete_row now) d))))"

lemma complete_pre_Inr:
  assumes "complete_pre env taskID now w = (Inr (task, ready), w')"
  obtains t sid mid tc tm secs eff where
    "t \<in> set (tasks (db w))" "t_ID t = taskID" "t_Status t = TaskStarted" "task = complete_row now t"
    "t_AssignedStaffID t = Some sid" "t_AssignedMachineID t = Some mid"
    "db w' = settle_db t sid mid now tc tm secs eff (db w)" "quiet w w'"
    "set ready = {x \<in> set (tasks (db w')). t_Status x = TaskUnassigned \<and> t_PendingDeps x = 0 \<and>
       depends_on (db w) (t_ID x) taskID}"
proof -
  obtain task' w1 where a: "UpdateTaskStatusCompleted env taskID now w = (Inr task', w1)"
    and rest: "(case (t_AssignedMachineID task', t_AssignedStaffID task', t_StartedAt task') of
       (Some mid, Some sid, Some startedAt) \<Rightarrow>
         and_then (IncrementCounterUsage env (t_CounterID task') (- 1)) (\<lambda>_.
         and_then (IncrementMachineUsage env mid (- 1)) (\<lambda>_.
         and_then (UpdateStaffEfficiencyAndActive env sid (- 1) (t_EstimateSecs task') startedAt now) (\<lambda>_.
         and_then (DecrementDependentPendingDeps env (t_ID task')) (\<lambda>ready. ok (task', ready)))))
     | _ \<Rightarrow> fail (Errorf (task_text (t_ID task') '' missing assignment/start metadata''))) w1 = (Inr (task, ready), w')"
    using assms unfolding complete_pre_def and_then_Inr by blast
  obtain t where t: "t \<in> set (tasks (db w))" "t_ID t = taskID" "t_Status t = TaskStarted"
    "task' = complete_row now t" "db w1 = set_tasks (\<lambda>x. t_ID x = taskID) (complete_row now) (db w)" "quiet w w1"
    using UpdateTaskStatusCompleted_Inr [OF a] by blast
  obtain mid sid startedAt where m: "t_AssignedMachineID t = Some mid" "t_AssignedStaffID t = Some sid"
    "t_StartedAt t = Some startedAt"
    using rest t(4) by (auto simp: complete_row_def split: option.splits)
  with rest t(4) obtain w2 w3 w4 where
    b: "IncrementCounterUsage env (t_CounterID t) (- 1) w1 = (Inr (), w2)" and
    c: "IncrementMachineUsage env mid (- 1) w2 = (Inr (), w3)" and
    e: "UpdateStaffEfficiencyAndActive env sid (- 1) (t_EstimateSecs t) startedAt now w3 = (Inr (), w4)" and
    f: "DecrementDependentPendingDeps env (t_ID t) w4 = (Inr ready, w')" and task: "task = task'"
    by (auto simp: and_then_Inr complete_row_def)
  note B = IncrementCounterUsage_Inr [OF b] and C = IncrementMachineUsage_Inr [OF c]
    and E = UpdateStaffEfficiencyAndActive_Inr [OF e] and D = DecrementDependentPendingDeps_Inr [OF f]
  obtain tc tm where "db w2 = adjust_counter (t_CounterID t) (- 1) tc (db w1)"
    "db w3 = adjust_machine mid (- 1) tm (db w2)" using B C by blast
  then have db': "db w' = settle_db t sid mid now tc tm (actual_secs startedAt now)
      (stored_efficiency (fdiv (float_of_int (t_EstimateSecs t)) (float_of_int (actual_secs startedAt now)))) (db w)"
    using D E t(2,5) by (simp add: settle_db_def the_task_fun)
  have "task_dependencies (db w') = task_dependencies (db w)"
    unfolding db' by (simp add: settle_db_def)
  then have "depends_on (db w') = depends_on (db w)" by (rule depends_on_cong)
  then have "set ready = {x \<in> set (tasks (db w')). t_Status x = TaskUnassigned \<and> t_PendingDeps x = 0 \<and>
       depends_on (db w) (t_ID x) taskID}" using D t(2) by simp
  moreover have "quiet w w'" using t(6) B C D E by (meson quiet_trans)
  ultimately show thesis using that [OF t(1-3) _ m(2,1) db'] task t(4) by blast
qed

lemma finish_core:
  assumes "same_core d d'"
  shows "same_core (finish_order i d) (finish_order i d')"
    and "same_core (set_order_status i X st d) (set_order_status i X st d')"
  using assms by (auto simp: same_core_def finish_order_def all_done_def set_order_status_def)

lemma complete_post_Inr:
  assumes "complete_post env task now w = (Inr u, w')"
  shows "same_core (finish_order (t_OrderID task)
      (set_order_status (t_OrderID task) {OrderConfirmed, OrderInProgress} OrderPartCompleted (db w))) (db w') \<and>
    quiet w w'"
proof -
  let ?i = "t_OrderID task"
  obtain u1 u2 b w1 w2 where
    a: "InsertDomainEvent env ''task'' (FormatUint (t_ID task)) (task_event EventTaskCompleted now (t_ID task)) w = (Inr u1, w1)" and
    m: "MarkOrderPartCompletedIfNotDone env ?i w1 = (Inr u2, w2)" and
    c: "CompleteOrderIfAllTasksDone env ?i w2 = (Inr b, w')"
    using assms unfolding complete_post_def and_then_Inr by auto
  note A = InsertDomainEvent_core [OF a] and M = MarkOrderPartCompletedIfNotDone_Inr [OF m]
    and C = CompleteOrderIfAllTasksDone_Inr [OF c]
  have "db w' = finish_order ?i (set_order_status ?i {OrderConfirmed, OrderInProgress} OrderPartCompleted (db w1))"
    using C M by (simp add: finish_order_def)
  then have "same_core (finish_order ?i
      (set_order_status ?i {OrderConfirmed, OrderInProgress} OrderPartCompleted (db w))) (db w')"
    using finish_core A by simp
  moreover have "quiet w w'" using A M C by (meson quiet_trans)
  ultimately show ?thesis ..
qed

lemma dependents_settled:
  assumes "kitchen_ok (Q, d)" "t \<in> set (tasks d)" "t_Status t \<noteq> TaskUnassigned" "depends_on d i (t_ID t)"
  shows "i \<in> settled_ids d"
proof -
  have k: "keys d" "gated Q d" using assms(1) by (simp_all add: kitchen_ok_def)
  obtain j where "order_of d i j" "order_of d (t_ID t) j"
    using k(2) assms(4) unfolding gated_def local_deps_def depends_on_def by metis
  then have "order_of d i (t_OrderID t)" using order_of_unique [OF k(1) order_ofI [OF assms(2)]] by blast
  moreover have "settled d (t_OrderID t)" using gated_settled [OF k(2) awake [OF assms(2)]] assms(3) by blast
  ultimately show ?thesis by (auto simp: settled_ids_def order_of_def)
qed

text \<open>The queue's contract, as the services use it: only the enqueued id may be new.\<close>

context ready_queue
begin

lemma enqueue_run:
  assumes "enqueue ops (FormatUint i) score w = (r, w')"
  shows "ready_ids ids (queue w') \<subseteq> insert i (ready_ids ids (queue w)) \<and> db w' = db w \<and>
    published w' = published w \<and> aborted w' = aborted w"
proof -
  obtain e q where q: "Enqueue ops (FormatUint i) score (queue w) = (e, q)" by force
  then have w': "w' = w\<lparr>queue := q\<rparr>"
    using assms by (auto simp: enqueue_def split: option.splits)
  have "x = FormatUint i \<or> x \<in> ids (queue w)" if "x \<in> ids q" for x
    using enqueue_idsD [OF q that] .
  then have "ready_ids ids q \<subseteq> insert i (ready_ids ids (queue w))"
    unfolding ready_ids_def using ParseUint_FormatUint_eq by blast
  then show ?thesis by (simp add: w')
qed

lemma release_child_run:
  assumes "release_child env ops s now child w = (r, w')"
  shows "ready_ids ids (queue w') \<subseteq> insert (t_ID child) (ready_ids ids (queue w))"
    and "r = Inr u \<Longrightarrow> same_core (db w) (db w')"
proof -
  have "(ready_ids ids (queue w') \<subseteq> insert (t_ID child) (ready_ids ids (queue w))) \<and>
    (r = Inr u \<longrightarrow> same_core (db w) (db w'))"
  proof (cases "t_Status child = TaskUnassigned \<and> t_PendingDeps child = 0")
    case False
    then show ?thesis using assms by (auto simp: release_child_def)
  next
    case True
    obtain score w1 where q: "queueScore env s (t_BasePriority child) (t_CreatedAt child) w = (Inr score, w1)"
      and w1: "queue w1 = queue w" "db w1 = db w"
      by (simp add: queueScore_def and_then_def Now_def ok_def)
    obtain x w2 where e: "enqueue ops (FormatUint (t_ID child)) score w1 = (x, w2)" by force
    let ?ev = "InsertDomainEvent env ''task'' (FormatUint (t_ID child)) (task_event EventTaskReady now (t_ID child))"
    show ?thesis
    proof (cases x)
      case (Inl a)
      then show ?thesis
        using assms True q e w1 enqueue_run [OF e]
        by (auto simp: release_child_def and_then_def split: sum.splits)
    next
      case (Inr a)
      then have i: "?ev w2 = (r, w')"
        using assms True q e by (simp add: release_child_def and_then_def)
      have "queue w' = queue w2"
        using i queue_kept_tx unfolding InsertDomainEvent_def by (rule queue_keptD [rotated])
      moreover have "same_core (db w) (db w')" if "r = Inr u"
        using InsertDomainEvent_core [of env _ _ _ w2 u w'] i that w1 enqueue_run [OF e] by simp
      ultimately show ?thesis using enqueue_run [OF e] w1 by auto
    qed
  qed
  then show "ready_ids ids (queue w') \<subseteq> insert (t_ID child) (ready_ids ids (queue w))"
    and "r = Inr u \<Longrightarrow> same_core (db w) (db w')" by blast+
qed

lemma release_children_run:
  assumes "for_each (release_child env ops s now) children w = (r, w')"
  shows "ready_ids ids (queue w') \<subseteq> ready_ids ids (queue w) \<union> t_ID ` set children"
    and "r = Inr u \<Longrightarrow> same_core (db w) (db w')"
proof -
  have "ready_ids ids (queue w') \<subseteq> ready_ids ids (queue w) \<union> t_ID ` set children \<and>
    (r = Inr u \<longrightarrow> same_core (db w) (db w'))"
    using assms
  proof (induction children arbitrary: w)
    case (Cons c cs)
    obtain x w1 where h: "release_child env ops s now c w = (x, w1)" by force
    note H = release_child_run [OF h]
    show ?case
    proof (cases x)
      case (Inl e)
      then show ?thesis using Cons.prems h H by (auto simp: and_then_def)
    next
      case (Inr y)
      then have "for_each (release_child env ops s now) cs w1 = (r, w')"
        using Cons.prems h by (simp add: and_then_def)
      from Cons.IH [OF this] show ?thesis
        using H Inr same_core_trans by (auto 4 3)
    qed
  qed auto
  then show "ready_ids ids (queue w') \<subseteq> ready_ids ids (queue w) \<union> t_ID ` set children"
    and "r = Inr u \<Longrightarrow> same_core (db w) (db w')" by blast+
qed

lemma complete_body_run:
  assumes "complete_body env ops s taskID now w = (r, w')" and ok: "kitchen_ok (kitchen_state ids F w)"
  shows "ready_ids ids (queue w') \<union> F \<subseteq> ready_ids ids (queue w) \<union> F \<union> settled_ids (db w)"
    and "r = Inr u \<Longrightarrow> kitchen_run (kitchen_state ids F w) (kitchen_state ids F w')"
proof -
  let ?Q = "ready_ids ids (queue w) \<union> F" and ?Q' = "ready_ids ids (queue w') \<union> F"
  obtain x w1 where pre: "complete_pre env taskID now w = (x, w1)" by force
  have q1: "queue w1 = queue w" using queue_keptD [OF complete_pre_kept pre] .
  have "?Q' \<subseteq> ?Q \<union> settled_ids (db w) \<and> (r = Inr u \<longrightarrow> kitchen_run (kitchen_state ids F w) (kitchen_state ids F w'))"
  proof (cases x)
    case (Inl e)
    then have "w' = w1" "r = Inl e" using assms(1) pre by (auto simp: complete_body_parts and_then_def)
    then show ?thesis using q1 by auto
  next
    case (Inr p)
    obtain task ready where p: "p = (task, ready)" by force
    obtain t sid mid tc tm secs eff where t: "t \<in> set (tasks (db w))" "t_ID t = taskID"
      "t_Status t = TaskStarted" "task = complete_row now t"
      "t_AssignedStaffID t = Some sid" "t_AssignedMachineID t = Some mid"
      "db w1 = settle_db t sid mid now tc tm secs eff (db w)" "quiet w w1"
      "set ready = {x \<in> set (tasks (db w1)). t_Status x = TaskUnassigned \<and> t_PendingDeps x = 0 \<and>
         depends_on (db w) (t_ID x) taskID}"
      by (rule complete_pre_Inr [OF pre [unfolded Inr p]])
    have ready: "t_ID ` set ready \<subseteq> settled_ids (db w)"
    proof (rule image_subsetI)
      fix x assume "x \<in> set ready"
      then have "depends_on (db w) (t_ID x) (t_ID t)" using t(2,9) by blast
      then show "t_ID x \<in> settled_ids (db w)"
        using dependents_settled [OF ok [unfolded kitchen_state_def] t(1)] t(3) by simp
    qed
    obtain y w2 where each: "for_each (release_child env ops s now) ready w1 = (y, w2)" by force
    note E = release_children_run [OF each]
    have post: "and_then (\<lambda>_. (y, w2)) (\<lambda>_. complete_post env task now) w1 = (r, w')"
      using assms(1) pre Inr p each by (simp add: complete_body_parts and_then_def)
    then have "queue w' = queue w2"
      using queue_keptD [OF complete_post_kept, of env task now w2] by (auto simp: and_then_def split: sum.splits)
    then have sub: "?Q' \<subseteq> ?Q \<union> settled_ids (db w)" using E(1) q1 ready by auto
    have "kitchen_run (kitchen_state ids F w) (kitchen_state ids F w')" if "r = Inr u"
    proof -
      have y: "y = Inr ()" and pst: "complete_post env task now w2 = (Inr u, w')"
        using post that by (auto simp: and_then_def split: sum.splits)
      have "same_core (db w1) (db w2)" using E(2) y by simp
      then have "same_core (complete_db t sid mid now tc tm secs eff (db w)) (db w')"
        using complete_post_Inr [OF pst] t(4,7) finish_core same_core_trans
        by (simp add: complete_db_def settle_db_def) blast
      then have "kitchen_step (?Q', db w) (?Q', db w')" by (rule kitchen_step.complete [OF t(1,3,5,6)])
      then show ?thesis
        using kitchen_run_trans [OF run_put [OF sub]] by (simp add: kitchen_state_def kitchen_run_step)
    qed
    then show ?thesis using sub by blast
  qed
  then show "?Q' \<subseteq> ?Q \<union> settled_ids (db w)" and "r = Inr u \<Longrightarrow> kitchen_run (kitchen_state ids F w) (kitchen_state ids F w')"
    by blast+
qed

lemma CompleteTask_run:
  assumes "CompleteTask env ops s taskID w = (r, w')" and ok: "kitchen_ok (kitchen_state ids F w)"
  shows "kitchen_run (kitchen_state ids F w) (kitchen_state ids F w')"
proof -
  obtain t w0 where n: "Now env w = (Inr t, w0)" and b: "transaction env (complete_body env ops s taskID t) w0 = (r, w')"
    using assms unfolding CompleteTask_def and_then_def by (auto simp: Now_def)
  have w0: "kitchen_state ids F w0 = kitchen_state ids F w"
    using Now_Inr [OF n] by (simp add: kitchen_state_def quiet_def)
  have "kitchen_run (kitchen_state ids F w0) (kitchen_state ids F w')"
    using b
  proof (rule transaction_run)
    fix x v v1 assume h: "complete_body env ops s taskID t v = (Inr x, v1)" "db v = db w0" "queue v = queue w0"
    then have "kitchen_ok (kitchen_state ids F v)" using ok w0 by (simp add: kitchen_state_def)
    then show "kitchen_run (kitchen_state ids F v) (kitchen_state ids F v1)"
      using complete_body_run(2) [OF h(1)] by blast
  next
    fix x v v1 assume h: "complete_body env ops s taskID t v = (x, v1)" "db v = db w0" "queue v = queue w0"
    then have "kitchen_ok (kitchen_state ids F v)" using ok w0 by (simp add: kitchen_state_def)
    from complete_body_run(1) [OF h(1) this] h(2)
    show "kitchen_run (kitchen_state ids F v) (ready_ids ids (queue v1) \<union> F, db w0)"
      by (simp add: kitchen_state_def run_put)
  qed
  then show ?thesis by (simp add: w0)
qed

end

section \<open>Requeueing\<close>

lemma requeue_one_kept: "queue_kept (requeue_one env task acc)"
  unfolding requeue_one_def IncrementCounterUsage_def IncrementMachineUsage_def InsertDomainEvent_def
  by (intro frame_intros)

lemma requeue_one_Inr:
  assumes "requeue_one env task acc w = (Inr acc', w')"
    and "t_AssignedStaffID task = Some sid" "t_AssignedMachineID task = Some mid"
  shows "(\<exists>tc tm. same_core (requeue_db task sid mid tc tm (db w)) (db w')) \<and> quiet w w' \<and>
    map t_ID acc' = map t_ID acc @ [t_ID task]"
proof -
  obtain w1 w2 w3 w4 w5 t where
    a: "tx_statement env (modify (\<lambda>n. update_tasks (\<lambda>t. t_ID t = t_ID task) (\<lambda>t. Inr (release_task t)))) w = (Inr (), w1)" and
    b: "tx_statement env (modify (\<lambda>n. update_staff (\<lambda>s. s_ID s = sid)
             (\<lambda>s. map_sum_right (\<lambda>a. s\<lparr>s_ActiveTasks := a\<rparr>) (greatest_add (s_ActiveTasks s) (- 1))))) w1 = (Inr (), w2)" and
    c: "IncrementCounterUsage env (t_CounterID task) (- 1) w2 = (Inr (), w3)" and
    m: "IncrementMachineUsage env mid (- 1) w3 = (Inr (), w4)" and
    n: "Now env w4 = (Inr t, w5)" and
    e: "InsertDomainEvent env ''task'' (FormatUint (t_ID task))
         \<lparr>Type = EventTaskRequeued, Timestamp = Unix t, Payload = FormatUint (t_ID task)\<rparr> w5 = (Inr (), w')" and
    acc: "map t_ID acc' = map t_ID acc @ [t_ID task]"
    using assms unfolding requeue_one_def by (auto simp: and_then_Inr)
  note A = tx_modify_Inr [OF a] and B = tx_modify_Inr [OF b] and C = IncrementCounterUsage_Inr [OF c]
    and M = IncrementMachineUsage_Inr [OF m] and N = Now_Inr [OF n] and E = InsertDomainEvent_core [OF e]
  have "db w1 = set_tasks (the_task task) release_task (db w)"
    using A by (auto simp: the_task_fun intro: update_tasks_Inr)
  moreover have "IncrementStaffActiveTasks env sid (- 1) w1 = (Inr (), w2)"
    using b by (simp add: IncrementStaffActiveTasks_def)
  then have "db w2 = adjust_staff sid (- 1) (db w1)" by (simp add: IncrementStaffActiveTasks_Inr)
  moreover obtain tc tm where "db w3 = adjust_counter (t_CounterID task) (- 1) tc (db w2)"
    "db w4 = adjust_machine mid (- 1) tm (db w3)" using C M by blast
  ultimately have "same_core (requeue_db task sid mid tc tm (db w)) (db w')"
    using N E by (simp add: requeue_db_def)
  moreover have "quiet w w'" using A B C M N E by (meson quiet_trans)
  ultimately show ?thesis using acc by blast
qed

lemma requeue_fold_run:
  assumes "fold_act (requeue_one env) ts acc w = (Inr acc', w')"
    and "\<forall>t \<in> set ts. t \<in> set (tasks (db w)) \<and> expired cutoff t" "distinct (map t_ID ts)"
    and "kitchen_ok (Q, db w)"
  shows "kitchen_run (Q, db w) (Q, db w') \<and> t_ID ` set acc' = t_ID ` set acc \<union> t_ID ` set ts"
  using assms
proof (induction ts arbitrary: acc w)
  case Nil
  then show ?case by simp
next
  case (Cons t ts)
  obtain acc1 w1 where one: "requeue_one env t acc w = (Inr acc1, w1)"
    and rest: "fold_act (requeue_one env) ts acc1 w1 = (Inr acc', w')"
    using Cons.prems(1) by (auto simp: and_then_Inr)
  have t: "t \<in> set (tasks (db w))" "expired cutoff t" using Cons.prems(2) by simp_all
  moreover have "task_ok t" using t(1) Cons.prems(4) by (simp add: kitchen_ok_def tasks_ok_def)
  ultimately obtain sid mid where held: "t_AssignedStaffID t = Some sid" "t_AssignedMachineID t = Some mid"
    by (auto simp: expired_def task_ok_def)
  obtain tc tm where core: "same_core (requeue_db t sid mid tc tm (db w)) (db w1)"
    and acc1: "map t_ID acc1 = map t_ID acc @ [t_ID t]"
    using requeue_one_Inr [OF one held] by blast
  have step: "kitchen_step (Q, db w) (Q, db w1)" by (rule kitchen_step.requeue [OF t held core])
  have "x \<in> set (tasks (db w1))" if "x \<in> set ts" for x
  proof -
    have "t_ID x \<noteq> t_ID t" using Cons.prems(3) that by (auto simp: image_iff)
    moreover have "x \<in> set (tasks (db w))" using Cons.prems(2) that by simp
    ultimately show ?thesis using core by (auto simp: same_core_def requeue_db_tasks map_where_set)
  qed
  then have "\<forall>x \<in> set ts. x \<in> set (tasks (db w1)) \<and> expired cutoff x" using Cons.prems(2) by simp
  from Cons.IH [OF rest this] Cons.prems(3,4) kitchen_step_ok [OF step]
  have run: "kitchen_run (Q, db w1) (Q, db w')" and acc': "t_ID ` set acc' = t_ID ` set acc1 \<union> t_ID ` set ts"
    by simp_all
  have "t_ID ` set acc1 = insert (t_ID t) (t_ID ` set acc)" using arg_cong [OF acc1, of set] by auto
  then show ?case
    using kitchen_run_trans [OF kitchen_run_step [OF step] run] acc' by auto
qed

lemma distinct_key_take_sort:
  "distinct (map f xs) \<Longrightarrow> distinct (map f (take n (sort_key k (any_order env m g xs))))"
proof -
  assume "distinct (map f xs)"
  moreover have "mset (map f (sort_key k (any_order env m g xs))) = mset (map f xs)" by simp
  ultimately have "distinct (map f (sort_key k (any_order env m g xs)))" by (metis mset_eq_imp_distinct_iff)
  then show ?thesis by (simp add: take_map [symmetric])
qed

lemma RequeueExpired_run:
  assumes "RequeueExpiredAssignedTasks env cutoff limit w = (r, w')"
    and ok: "kitchen_ok (kitchen_state ids F w)"
  shows "kitchen_run (kitchen_state ids F w) (kitchen_state ids F w')" and "queue w' = queue w"
    and "r = Inr rows \<Longrightarrow> t_ID ` set rows \<subseteq> settled_ids (db w)"
proof -
  define lim where "lim = (if limit \<le> 0 then 50 else limit)"
  define body where "body = and_then (tx_statement env (query (\<lambda>n d.
      Inr (take (nat lim) (sort_key (the \<circ> t_AssignedAt) (any_order env n t_ID
        (filter (\<lambda>t. expired cutoff t \<and> \<not> row_locked env n (t_ID t)) (tasks d))))))))
      (\<lambda>ts. fold_act (requeue_one env) ts [] :: ('a world, TaskModel list) act)"
  have tr: "transaction env body w = (r, w')"
    using assms(1) by (simp add: RequeueExpiredAssignedTasks_def body_def lim_def Let_def)
  have kept: "queue_kept body"
    unfolding body_def by (intro frame_intros requeue_one_kept)
  have main: "kitchen_run (kitchen_state ids F v) (kitchen_state ids F v1) \<and>
      t_ID ` set rows \<subseteq> settled_ids (db w)"
    if b: "body v = (Inr rows, v1)" and v: "db v = db w" "queue v = queue w" for rows v v1
  proof -
    obtain ts v2 where q: "tx_statement env (query (\<lambda>n d.
      Inr (take (nat lim) (sort_key (the \<circ> t_AssignedAt) (any_order env n t_ID
        (filter (\<lambda>t. expired cutoff t \<and> \<not> row_locked env n (t_ID t)) (tasks d))))))) v = (Inr ts, v2)"
      and f: "fold_act (requeue_one env) ts [] v2 = (Inr rows, v1)"
      using b unfolding body_def and_then_Inr by blast
    note Q = tx_query_Inr [OF q]
    have okv: "kitchen_ok (ready_ids ids (queue w) \<union> F, db w)" using ok by (simp add: kitchen_state_def)
    then have "distinct (map t_ID (tasks (db w)))" by (simp add: kitchen_ok_def keys_def)
    moreover have "ts = take (nat lim) (sort_key (the \<circ> t_AssignedAt) (any_order env (tick v) t_ID
        (filter (\<lambda>t. expired cutoff t \<and> \<not> row_locked env (tick v) (t_ID t)) (tasks (db w)))))"
      using Q v by simp
    ultimately have d: "distinct (map t_ID ts)"
      by (simp only: distinct_key_take_sort distinct_map_filter)
    have mem: "\<forall>t \<in> set ts. t \<in> set (tasks (db w)) \<and> expired cutoff t"
      using Q v by (auto dest: in_set_takeD)
    have "kitchen_run (ready_ids ids (queue w) \<union> F, db v2) (ready_ids ids (queue w) \<union> F, db v1) \<and>
        t_ID ` set rows = t_ID ` set ([] :: TaskModel list) \<union> t_ID ` set ts"
      by (rule requeue_fold_run [OF f _ d]) (use Q v mem okv in auto)
    moreover have "queue v1 = queue v" using queue_keptD [OF kept b] .
    moreover have "t_ID ` set ts \<subseteq> settled_ids (db w)"
    proof -
      have "t_ID t \<in> settled_ids (db w)" if "t \<in> set ts" for t
      proof -
        have t: "t \<in> set (tasks (db w))" "t_Status t \<noteq> TaskUnassigned"
          using mem that by (auto simp: expired_def)
        have "gated (ready_ids ids (queue w) \<union> F) (db w)" using okv by (simp add: kitchen_ok_def)
        then have "settled (db w) (t_OrderID t)" by (rule gated_settled) (use awake t in blast)
        then show ?thesis using t(1) by (auto simp: settled_ids_def)
      qed
      then show ?thesis by auto
    qed
    ultimately show ?thesis using Q v by (simp add: kitchen_state_def)
  qed
  show "kitchen_run (kitchen_state ids F w) (kitchen_state ids F w')"
    using tr kept by (rule transaction_run_kept) (use main in blast)
  show "queue w' = queue w"
    using tr by (cases rule: transaction_outcome) (auto dest: queue_keptD [OF kept])
  show "t_ID ` set rows \<subseteq> settled_ids (db w)" if "r = Inr rows"
    using transaction_Inr [of env body w rows w'] tr that main by fastforce
qed

section \<open>Allocation\<close>

lemma pick_loop_in: "pick_loop score best bestScore sts \<in> insert best (set sts)"
proof (induction sts arbitrary: best bestScore)
  case (Cons st sts)
  show ?case
    using Cons.IH [of st "score st"] Cons.IH [of best bestScore] by (cases "score st < bestScore") auto
qed simp

lemma pickStaff_in: "pickStaff s sts now = Some st \<Longrightarrow> st \<in> set sts"
proof (cases sts)
  case (Cons x xs)
  assume "pickStaff s sts now = Some st"
  then have "st = pick_loop (\<lambda>y. staffScore s y now) x (staffScore s x now) xs" using Cons by simp
  then show ?thesis using pick_loop_in Cons by simp
qed simp

lemma assign_body_kept: "queue_kept (assign_body env s now taskID)"
  unfolding assign_body_def LockTaskForAssignment_def LockCounter_def FindEligibleStaff_def LockMachineForTask_def
    LockStaff_def UpdateTaskAssignment_def IncrementCounterUsage_def IncrementMachineUsage_def
    MarkOrderInProgressIfConfirmed_def IncrementStaffActiveTasks_def InsertDomainEvent_def
  by (intro frame_intros)

text \<open>The second half of the assignment, which records it.\<close>

definition assign_record :: "env \<Rightarrow> TaskModel \<Rightarrow> nat \<Rightarrow> nat \<Rightarrow> int \<Rightarrow> ('q world, nat) act" where
  "assign_record env task sid mid now =
     and_then (UpdateTaskAssignment env (t_ID task) sid mid now) (\<lambda>_.
     and_then (IncrementCounterUsage env (t_CounterID task) 1) (\<lambda>_.
     and_then (IncrementMachineUsage env mid 1) (\<lambda>_.
     and_then (MarkOrderInProgressIfConfirmed env (t_OrderID task)) (\<lambda>_.
     and_then (IncrementStaffActiveTasks env sid 1) (\<lambda>_.
     and_then (InsertDomainEvent env ''task'' (FormatUint (t_ID task))
       \<lparr>Type = EventTaskAssigned, Timestamp = Unix now,
        Payload = assigned_payload (t_ID task) sid mid\<rparr>) (\<lambda>_.
     ok (t_ID task)))))))"

lemma assign_record_Inr:
  assumes "assign_record env t sid mid now w = (Inr r, w')"
  shows "r = t_ID t \<and> quiet w w' \<and> (\<exists>tc tm. same_core (assign_db t sid mid now tc tm (db w)) (db w'))"
proof -
  obtain w6 w7 w8 w9 w10 where u: "UpdateTaskAssignment env (t_ID t) sid mid now w = (Inr (), w6)"
    and cu: "IncrementCounterUsage env (t_CounterID t) 1 w6 = (Inr (), w7)"
    and mu: "IncrementMachineUsage env mid 1 w7 = (Inr (), w8)"
    and od: "MarkOrderInProgressIfConfirmed env (t_OrderID t) w8 = (Inr (), w9)"
    and sa: "IncrementStaffActiveTasks env sid 1 w9 = (Inr (), w10)"
    and ev: "InsertDomainEvent env ''task'' (FormatUint (t_ID t))
       \<lparr>Type = EventTaskAssigned, Timestamp = Unix now,
        Payload = assigned_payload (t_ID t) sid mid\<rparr> w10 = (Inr (), w')" and r: "r = t_ID t"
    using assms unfolding assign_record_def and_then_Inr by auto
  note U = UpdateTaskAssignment_Inr [OF u] and O = MarkOrderInProgressIfConfirmed_Inr [OF od]
    and CU = IncrementCounterUsage_Inr [OF cu] and MU = IncrementMachineUsage_Inr [OF mu]
    and A = IncrementStaffActiveTasks_Inr [OF sa] and E = InsertDomainEvent_core [OF ev]
  obtain tc tm where "db w7 = adjust_counter (t_CounterID t) 1 tc (db w6)"
    "db w8 = adjust_machine mid 1 tm (db w7)" using CU MU by blast
  then have "same_core (assign_db t sid mid now tc tm (db w)) (db w')"
    using U O A E by (simp add: assign_db_def the_task_fun)
  moreover have "quiet w w'" using U CU MU O A E by (meson quiet_trans)
  ultimately show ?thesis using r by blast
qed

text \<open>A successful assignment: which rows were read, what the tables are afterwards.\<close>

lemma assign_body_Inr:
  assumes "assign_body env s now taskID w = (Inr r, w')"
  obtains t c m st tc tm where
    "t \<in> set (tasks (db w))" "t_ID t = taskID" "t_Status t = TaskUnassigned" "t_PendingDeps t = 0"
    "c \<in> set (counters (db w))" "c_ID c = t_CounterID t" "c_InUse c < c_Capacity c"
    "m \<in> set (machines (db w))" "t_MachineID t = Some (m_ID m)" "m_CounterID m = t_CounterID t"
    "m_IsUp m" "m_InUse m < m_Capacity m"
    "st \<in> set (eligible_staff (t_CounterID t) now (db w))"
    "same_core (assign_db t (s_ID st) (m_ID m) now tc tm (db w)) (db w')" "quiet w w'" "r = taskID"
proof -
  obtain t w1 c w2 sts w3 mid m w4 p ls w5 where
    t: "LockTaskForAssignment env taskID w = (Inr t, w1)" and
    c: "LockCounter env (t_CounterID t) w1 = (Inr c, w2)" "\<not> c_Capacity c \<le> c_InUse c" and
    f: "FindEligibleStaff env (t_CounterID t) now w2 = (Inr sts, w3)" and
    mid: "t_MachineID t = Some mid" and
    m: "LockMachineForTask env mid (t_CounterID t) w3 = (Inr m, w4)" and
    p: "pickStaff s sts now = Some p" and l: "LockStaff env (s_ID p) w4 = (Inr ls, w5)" and
    a: "assign_record env t (s_ID p) (m_ID m) now w5 = (Inr r, w')"
    using assms unfolding assign_body_def assign_record_def [symmetric]
    by (auto simp: and_then_Inr [of "LockTaskForAssignment env taskID"] and_then_Inr [of "LockCounter env k" for k]
        and_then_Inr [of "FindEligibleStaff env k n" for k n] and_then_Inr [of "LockMachineForTask env k n" for k n]
        and_then_Inr [of "LockStaff env k" for k] split: if_splits option.splits)
  note T = LockTaskForAssignment_Inr [OF t] and C = LockCounter_Inr [OF c(1)] and S = FindEligibleStaff_Inr [OF f]
    and M = LockMachineForTask_Inr [OF m] and L = LockStaff_Inr [OF l] and A = assign_record_Inr [OF a]
  have "p \<in> scan_staff ` set (eligible_staff (t_CounterID t) now (db w))"
    using pickStaff_in [OF p] S C T by simp
  then obtain st where st: "st \<in> set (eligible_staff (t_CounterID t) now (db w))" "s_ID p = s_ID st" by auto
  obtain tc tm where core: "same_core (assign_db t (s_ID st) (m_ID m) now tc tm (db w)) (db w')"
    using T C S M L A st(2) by auto
  have q: "quiet w w'" using T C S M L A by (meson quiet_trans)
  show thesis
    by (rule that [OF _ _ _ _ _ _ _ _ _ _ _ _ st(1) core q]) (use T C S M A mid c(2) in auto)
qed

lemma assign_body_run:
  assumes "assign_body env s now taskID w = (Inr r, w')" and "taskID \<in> F"
  shows "kitchen_run (kitchen_state ids F w) (kitchen_state ids F w')"
proof -
  obtain t c m st tc tm where h:
    "t \<in> set (tasks (db w))" "t_ID t = taskID" "t_Status t = TaskUnassigned" "t_PendingDeps t = 0"
    "c \<in> set (counters (db w))" "c_ID c = t_CounterID t" "c_InUse c < c_Capacity c"
    "m \<in> set (machines (db w))" "t_MachineID t = Some (m_ID m)" "m_CounterID m = t_CounterID t"
    "m_IsUp m" "m_InUse m < m_Capacity m"
    "st \<in> set (eligible_staff (t_CounterID t) now (db w))"
    "same_core (assign_db t (s_ID st) (m_ID m) now tc tm (db w)) (db w')" "quiet w w'"
    using assign_body_Inr [OF assms(1)] by metis
  have "t_ID t \<in> ready_ids ids (queue w) \<union> F" using h(2) assms(2) by simp
  from kitchen_step.assign [OF h(1,3,4) this h(5-14)]
  show ?thesis using quiet_queue [OF h(15)] by (simp add: kitchen_state_def kitchen_run_step)
qed

lemma statement_query_keeps:
  "statement env (query f) w = (r, w') \<Longrightarrow> db w' = db w \<and> queue w' = queue w"
  by (elim statement_outcome) auto

lemma GetTaskByID_id: "GetTaskByID env taskID w = (Inr t, w') \<Longrightarrow> t_ID t = taskID"
  by (auto simp: GetTaskByID_def dest!: query_Inr sql_first_Inr)

lemma queueScore_run: "queueScore env s b c w = (r, w') \<Longrightarrow> (\<exists>x. r = Inr x) \<and> db w' = db w \<and> queue w' = queue w"
  by (auto simp: queueScore_def and_then_def Now_def ok_def)

lemma ready_run: "ready_ids ids q' \<subseteq> insert i (ready_ids ids q) \<Longrightarrow> i \<in> F \<Longrightarrow> ready_ids ids q' \<union> F \<subseteq> ready_ids ids q \<union> F"
  by blast

text \<open>The way back to the queue of an id whose assignment failed.\<close>

definition put_back :: "env \<Rightarrow> 'q ready_queue_ops \<Rightarrow> KitchenAppService \<Rightarrow> nat \<Rightarrow> nat \<Rightarrow> ('q world, nat) act" where
  "put_back env ops s taskID firstAssigned =
     and_then (attempt (GetTaskByID env taskID)) (\<lambda>g.
              case g of
                Inl _ \<Rightarrow> ok firstAssigned
              | Inr task \<Rightarrow>
                  if t_Status task = TaskUnassigned
                  then and_then (queueScore env s (t_BasePriority task) (t_CreatedAt task)) (\<lambda>score.
                       and_then (attempt (enqueue ops (FormatUint (t_ID task)) score)) (\<lambda>_.
                       ok firstAssigned))
                  else ok firstAssigned)"

context ready_queue
begin

lemma put_back_run:
  assumes "put_back env ops s taskID firstAssigned w = (r, w')" and "taskID \<in> F"
  shows "kitchen_run (kitchen_state ids F w) (kitchen_state ids F w')"
proof -
  obtain g w1 where g: "GetTaskByID env taskID w = (g, w1)" by force
  have w1: "db w1 = db w" "queue w1 = queue w"
    using statement_query_keeps g [unfolded GetTaskByID_def] by blast+
  have "db w' = db w \<and> ready_ids ids (queue w') \<union> F \<subseteq> ready_ids ids (queue w) \<union> F"
  proof (cases "\<exists>t. g = Inr t \<and> t_Status t = TaskUnassigned")
    case False
    then show ?thesis
      using assms(1) g w1 by (auto simp: put_back_def and_then_def attempt_def split: sum.splits)
  next
    case True
    then obtain t where t: "g = Inr t" "t_Status t = TaskUnassigned" by blast
    obtain sc w2 where q: "queueScore env s (t_BasePriority t) (t_CreatedAt t) w1 = (sc, w2)" by force
    obtain score where sc: "sc = Inr score" "db w2 = db w" "queue w2 = queue w"
      using queueScore_run [OF q] w1 by auto
    obtain x w3 where e: "enqueue ops (FormatUint (t_ID t)) score w2 = (x, w3)" by force
    have "w' = w3"
      using assms(1) g t q sc(1) e by (simp add: put_back_def and_then_def attempt_def ok_def)
    then show ?thesis
      using enqueue_run [OF e] sc GetTaskByID_id [of env taskID w t w1] g t(1) assms(2) by auto
  qed
  then show ?thesis by (simp add: kitchen_state_def run_idle)
qed

lemma allocate_one_run:
  assumes "allocate_one env ops s now raw firstAssigned w = (r, w')"
    and F: "\<And>n. ParseUint raw = Inr n \<Longrightarrow> n \<in> F"
  shows "kitchen_run (kitchen_state ids F w) (kitchen_state ids F w') \<and> (\<exists>x. r = Inr x)"
proof (cases "ParseUint raw")
  case (Inl e)
  then show ?thesis using assms(1) by (simp add: allocate_one_def)
next
  case (Inr taskID)
  then have tid: "taskID \<in> F" by (rule F)
  obtain a w1 where a: "transaction env (assign_body env s now taskID) w = (a, w1)" by force
  have run: "kitchen_run (kitchen_state ids F w) (kitchen_state ids F w1)"
    using a assign_body_kept by (rule transaction_run_kept) (use assign_body_run tid in blast)
  show ?thesis
  proof (cases a)
    case (Inr i)
    then show ?thesis
      using assms(1) \<open>ParseUint raw = Inr taskID\<close> a run
      by (auto simp: allocate_one_def and_then_def attempt_def ok_def)
  next
    case (Inl e)
    then have "put_back env ops s taskID firstAssigned w1 = (r, w')"
      using assms(1) \<open>ParseUint raw = Inr taskID\<close> a
      by (simp add: allocate_one_def put_back_def and_then_def attempt_def)
    moreover have "\<exists>x. r = Inr x"
      using calculation by (auto simp: put_back_def and_then_def attempt_def ok_def queueScore_def Now_def
          split: sum.splits prod.splits if_splits)
    ultimately show ?thesis using put_back_run tid run kitchen_run_trans by blast
  qed
qed

lemma allocate_fold_run:
  assumes "fold_act (allocate_one env ops s now) raws acc w = (r, w')"
    and "\<forall>raw \<in> set raws. \<forall>n. ParseUint raw = Inr n \<longrightarrow> n \<in> F"
  shows "kitchen_run (kitchen_state ids F w) (kitchen_state ids F w')"
  using assms
proof (induction raws arbitrary: acc w)
  case (Cons raw raws)
  obtain x w1 where one: "allocate_one env ops s now raw acc w = (x, w1)" by force
  then have run: "kitchen_run (kitchen_state ids F w) (kitchen_state ids F w1)" and "\<exists>y. x = Inr y"
    using allocate_one_run [OF one] Cons.prems(2) by auto
  then obtain y where "x = Inr y" by blast
  then have "fold_act (allocate_one env ops s now) raws y w1 = (r, w')"
    using Cons.prems(1) one by (simp add: and_then_def)
  then have "kitchen_run (kitchen_state ids F w1) (kitchen_state ids F w')"
    using Cons.IH Cons.prems(2) by simp
  then show ?case by (rule kitchen_run_trans [OF run])
qed simp

lemma requeue_enqueue_run:
  assumes "for_each (requeue_enqueue env ops s) rows w = (r, w')"
  shows "ready_ids ids (queue w') \<subseteq> ready_ids ids (queue w) \<union> t_ID ` set rows \<and> db w' = db w"
  using assms
proof (induction rows arbitrary: w)
  case (Cons t ts)
  obtain sc w1 where q: "queueScore env s (fadd (t_BasePriority t) 10) (t_CreatedAt t) w = (sc, w1)" by force
  obtain score where sc: "sc = Inr score" "db w1 = db w" "queue w1 = queue w"
    using queueScore_run [OF q] by auto
  obtain x w2 where e: "enqueue ops (FormatUint (t_ID t)) score w1 = (x, w2)" by force
  note E = enqueue_run [OF e]
  have "requeue_enqueue env ops s t w = (x, w2)"
    using q sc(1) e by (simp add: requeue_enqueue_def and_then_def)
  then have "w' = w2 \<or> for_each (requeue_enqueue env ops s) ts w2 = (r, w')"
    using Cons.prems by (auto simp: and_then_def split: sum.splits)
  then show ?case using Cons.IH [of w2] E sc by auto
qed simp

lemma requeueExpired_run:
  assumes "requeueExpiredAssignedTasks env ops s now w = (r, w')" and ok: "kitchen_ok (kitchen_state ids F w)"
  shows "kitchen_run (kitchen_state ids F w) (kitchen_state ids F w')"
proof -
  let ?S = "settled_ids (db w)"
  obtain x w1 where a: "RequeueExpiredAssignedTasks env (now - assignTTL s) 50 w = (x, w1)" by force
  have put: "kitchen_run (kitchen_state ids F w) (kitchen_state ids (F \<union> ?S) w)"
    unfolding kitchen_state_def by (rule run_put) blast
  have ok': "kitchen_ok (kitchen_state ids (F \<union> ?S) w)" using kitchen_run_ok [OF put ok] .
  note R = RequeueExpired_run [OF a ok']
  have last: "kitchen_run (kitchen_state ids (F \<union> ?S) w1) (kitchen_state ids F w')"
  proof (cases x)
    case (Inl e)
    then have "w' = w1" using assms(1) a by (auto simp: requeueExpiredAssignedTasks_def and_then_def)
    then show ?thesis unfolding kitchen_state_def by (intro run_idle) auto
  next
    case (Inr rows)
    then have "for_each (requeue_enqueue env ops s) rows w1 = (r, w')"
      using assms(1) a by (simp add: requeueExpiredAssignedTasks_def and_then_def)
    from requeue_enqueue_run [OF this] R(3) [OF Inr]
    have "ready_ids ids (queue w') \<union> F \<subseteq> ready_ids ids (queue w1) \<union> (F \<union> ?S) \<and> db w' = db w1" by blast
    then show ?thesis unfolding kitchen_state_def by (intro run_idle) auto
  qed
  show ?thesis using kitchen_run_trans [OF put kitchen_run_trans [OF R(1) last]] .
qed

lemma AllocateOnce_run:
  assumes "AllocateOnce env ops s w = (r, w')" and ok: "kitchen_ok (kitchen_state ids F w)"
  shows "kitchen_run (kitchen_state ids F w) (kitchen_state ids F w')"
proof -
  obtain t w0 where n: "Now env w = (Inr t, w0)" by (simp add: Now_def)
  have w0: "kitchen_state ids F w0 = kitchen_state ids F w"
    using Now_Inr [OF n] by (simp add: kitchen_state_def quiet_def)
  obtain x w1 where a: "requeueExpiredAssignedTasks env ops s t w0 = (x, w1)" by force
  have run1: "kitchen_run (kitchen_state ids F w) (kitchen_state ids F w1)"
    using requeueExpired_run [OF a, of F] ok w0 by simp
  show ?thesis
  proof (cases x)
    case (Inl e)
    then show ?thesis using assms(1) n a run1 by (auto simp: AllocateOnce_def and_then_def)
  next
    case (Inr u)
    obtain p w2 where p: "pop_top ops 20 w1 = (p, w2)" by force
    then obtain q2 where pq: "PopTopN ops 20 (queue w1) = (p, q2)" "w2 = w1\<lparr>queue := q2\<rparr>"
      by (auto simp: pop_top_def split: prod.splits)
    define G where "G = (case p of Inl _ \<Rightarrow> {} | Inr raws \<Rightarrow> {n. \<exists>raw \<in> set raws. ParseUint raw = Inr n})"
    have "ready_ids ids q2 \<union> G \<subseteq> ready_ids ids (queue w1)"
      unfolding G_def ready_ids_def using pop_idsD pop_membersD pq(1) by (fastforce split: sum.splits)
    then have run2: "kitchen_run (kitchen_state ids F w1) (kitchen_state ids (F \<union> G) w2)"
      unfolding kitchen_state_def pq(2) by (intro run_idle) auto
    have "w' = w2 \<or> (\<exists>raws. p = Inr raws \<and> fold_act (allocate_one env ops s t) raws 0 w2 = (r, w'))"
      using assms(1) n a Inr p by (auto simp: AllocateOnce_def and_then_def ok_def split: sum.splits if_splits)
    then have "kitchen_run (kitchen_state ids (F \<union> G) w2) (kitchen_state ids (F \<union> G) w')"
    proof (elim disjE exE conjE)
      fix raws assume "p = Inr raws" and f: "fold_act (allocate_one env ops s t) raws 0 w2 = (r, w')"
      then have "\<forall>raw \<in> set raws. \<forall>n. ParseUint raw = Inr n \<longrightarrow> n \<in> F \<union> G" by (auto simp: G_def)
      then show ?thesis by (rule allocate_fold_run [OF f])
    qed simp
    moreover have "kitchen_run (kitchen_state ids (F \<union> G) w') (kitchen_state ids F w')"
      unfolding kitchen_state_def by (intro run_idle) auto
    ultimately show ?thesis using run1 run2 kitchen_run_trans by blast
  qed
qed

end

end
