(* ===== verification/OrderRefinement.thy ===== *)
theory OrderRefinement imports
  Refinement
begin

text \<open>
  The confirmation of an order implements the transitions of the kitchen: its reads change
  nothing, the creation of order and tasks is one transition, and so are the insertion of the
  dependencies and the count of them, both while the order is dormant. What is enqueued at the end
  belongs to an order that has settled.
\<close>

section \<open>Reads\<close>

definition readonly :: "('q world, 'a) act \<Rightarrow> bool" where
  "readonly m \<longleftrightarrow> (\<forall>w. db (snd (m w)) = db w \<and> queue (snd (m w)) = queue w)"

lemma readonlyD: "readonly m \<Longrightarrow> m w = (r, w') \<Longrightarrow> db w' = db w \<and> queue w' = queue w"
  unfolding readonly_def by (metis snd_conv)

lemma readonly_rules [frame_intros]:
  "readonly (ok x)" "readonly (fail e)" "readonly (Now env)" "readonly (range_keys env ks)"
  "readonly m \<Longrightarrow> (\<And>x. readonly (f x)) \<Longrightarrow> readonly (and_then m f)"
  "readonly m \<Longrightarrow> readonly m' \<Longrightarrow> readonly (if b then m else m')"
  "readonly m \<Longrightarrow> (\<And>y. readonly (g y)) \<Longrightarrow> readonly (case o1 of None \<Rightarrow> m | Some y \<Rightarrow> g y)"
  by (auto simp: readonly_def ok_def fail_def Now_def range_keys_def and_then_def
      split: option.splits prod.splits sum.splits; metis snd_conv)+

lemma readonly_query [frame_intros]: "readonly (statement env (query f))"
  unfolding readonly_def using statement_query_keeps by (metis prod.collapse)

section \<open>The plan of an order\<close>

text \<open>The confirmation up to the first write, and the rest of it.\<close>

definition explode :: "env \<Rightarrow> ConfirmOrderRequest \<Rightarrow> (string \<times> RecipeStepModel list) list \<Rightarrow>
    (string \<times> (int \<times> int list) list) list \<Rightarrow> (nat \<rightharpoonup> int) \<Rightarrow> string list \<Rightarrow>
    ('q world, TaskModel list \<times> taskDepPair list) act" where
  "explode env req stepsByItem explicitDepsByItem machineCapByID order_of_items =
     (\<lambda>w. (add_items (int_rank env (tick w)) stepsByItem explicitDepsByItem machineCapByID
             (map (\<lambda>k. (k, the (map_of (Items req) k))) order_of_items) [] [],
           w\<lparr>tick := Suc (tick w)\<rparr>))"

definition confirm_plan :: "env \<Rightarrow> ConfirmOrderRequest \<Rightarrow> ('q world, string \<times> TaskModel list \<times> taskDepPair list) act" where
  "confirm_plan env req =
     (if length (Items req) = 0 then fail (Errorf ''items are required'')
      else
        and_then (if ExternalOrderID req = [] then and_then (Now env) (\<lambda>t. ok (default_order_id t))
                  else ok (ExternalOrderID req)) (\<lambda>externalID.
        and_then (range_keys env (map fst (Items req))) (\<lambda>itemKeys.
        and_then (GetActiveRecipeStepsByItems env itemKeys) (\<lambda>stepsByItem.
        and_then (GetRecipeStepDependenciesByItems env itemKeys) (\<lambda>explicitDepsByItem.
        and_then (range_keys env (map fst stepsByItem)) (\<lambda>stepKeys.
        and_then (GetMachineCapacitiesByIDs env (machine_ids stepKeys stepsByItem)) (\<lambda>machineCapByID.
        and_then (range_keys env (map fst (Items req))) (\<lambda>order_of_items.
        and_then (explode env req stepsByItem explicitDepsByItem machineCapByID order_of_items) (\<lambda>(taskRows, depLinks).
        case check_links (int (length taskRows)) depLinks of
          Some e \<Rightarrow> fail e
        | None \<Rightarrow> if length taskRows = 0 then fail (Errorf ''no tasks generated for order'')
                  else ok (externalID, taskRows, depLinks))))))))))"

definition confirm_store ::
  "env \<Rightarrow> 'q ready_queue_ops \<Rightarrow> KitchenAppService \<Rightarrow> string \<Rightarrow> TaskModel list \<Rightarrow> taskDepPair list \<Rightarrow>
     ('q world, nat \<times> nat list) act" where
  "confirm_store env ops s externalID taskRows depLinks =
     and_then (CreateOrderWithTasks env externalID taskRows []) (\<lambda>(order, ts).
        and_then (store_links env (o_ID order) ts depLinks) (\<lambda>_.
        and_then (ListOrderReadyTasks env (o_ID order)) (\<lambda>readyTasks.
        and_then (fold_act (publish_ready env ops s) readyTasks []) (\<lambda>readyIDs.
        ok (o_ID order, readyIDs)))))"

lemma ConfirmOrder_parts:
  "ConfirmOrder env ops s req =
     and_then (confirm_plan env req) (\<lambda>(externalID, taskRows, depLinks).
       confirm_store env ops s externalID taskRows depLinks)"
proof (cases "length (Items req) = 0")
  case True
  then show ?thesis by (simp add: ConfirmOrder_def confirm_plan_def)
next
  case False
  have tail: "(case x of (taskRows, depLinks) \<Rightarrow>
        case check_links (int (length taskRows)) depLinks of
          Some e \<Rightarrow> fail e
        | None \<Rightarrow> if length taskRows = 0 then fail (Errorf ''no tasks generated for order'')
                  else confirm_store env ops s externalID taskRows depLinks) =
    and_then (case x of (taskRows, depLinks) \<Rightarrow>
        case check_links (int (length taskRows)) depLinks of
          Some e \<Rightarrow> fail e
        | None \<Rightarrow> if length taskRows = 0 then fail (Errorf ''no tasks generated for order'')
                  else ok (externalID, taskRows, depLinks))
      (\<lambda>(externalID, taskRows, depLinks). confirm_store env ops s externalID taskRows depLinks)" for x externalID
    by (cases x) (auto split: option.splits)
  show ?thesis
    using False
    unfolding ConfirmOrder_def confirm_plan_def confirm_store_def [symmetric] explode_def [symmetric]
    by (simp only: tail [symmetric] if_False and_then_assoc)
qed

lemma explode_run:
  "explode env req a b c e w = (r, w') \<longleftrightarrow>
     r = add_items (int_rank env (tick w)) a b c (map (\<lambda>k. (k, the (map_of (Items req) k))) e) [] [] \<and>
     w' = w\<lparr>tick := Suc (tick w)\<rparr>"
  by (auto simp: explode_def)

lemma readonly_explode [frame_intros]: "readonly (explode env req a b c e)"
  by (simp add: readonly_def explode_def)

lemma readonly_case_prod [frame_intros]: "(\<And>a b. readonly (f a b)) \<Longrightarrow> readonly (case p of (a, b) \<Rightarrow> f a b)"
  by (cases p) simp

lemma confirm_plan_readonly: "readonly (confirm_plan env req)"
  unfolding confirm_plan_def GetActiveRecipeStepsByItems_def GetRecipeStepDependenciesByItems_def
    GetMachineCapacitiesByIDs_def Let_def
  by (intro frame_intros)

text \<open>Every task of the plan is a fresh row.\<close>

definition fresh_row :: "TaskModel \<Rightarrow> bool" where
  "fresh_row t \<longleftrightarrow> t_Status t = TaskUnassigned \<and> t_PendingDeps t = 0 \<and> t_AssignedStaffID t = None \<and>
     t_AssignedMachineID t = None \<and> t_StartedAt t = None"

lemma fresh_new_task [simp]: "fresh_row (new_task item step)"
  by (simp add: fresh_row_def new_task_def)

lemma add_steps_fresh:
  "add_steps item steps rows m = Inr (rows', m') \<Longrightarrow> list_all fresh_row rows \<Longrightarrow> list_all fresh_row rows'"
  by (induction item steps rows m rule: add_steps.induct) (auto simp: Let_def split: if_splits)

lemma add_copies_fresh:
  "add_copies rank item steps deps caps n rows links = Inr (rows', links') \<Longrightarrow>
     list_all fresh_row rows \<Longrightarrow> list_all fresh_row rows'"
  by (induction rank item steps deps caps n rows links rule: add_copies.induct)
    (auto split: sum.splits dest: add_steps_fresh)

lemma add_items_fresh:
  "add_items rank st dp caps its rows links = Inr (rows', links') \<Longrightarrow>
     list_all fresh_row rows \<Longrightarrow> list_all fresh_row rows'"
  by (induction rank st dp caps its rows links rule: add_items.induct)
    (auto simp: Let_def split: sum.splits if_splits dest: add_copies_fresh)

lemma confirm_plan_Inr:
  assumes "confirm_plan env req w = (Inr (externalID, taskRows, depLinks), w')"
  shows "taskRows \<noteq> [] \<and> list_all fresh_row taskRows \<and> check_links (int (length taskRows)) depLinks = None"
  using assms unfolding confirm_plan_def
  by (auto simp: and_then_Inr explode_run split: if_splits option.splits dest!: add_items_fresh [OF sym])

section \<open>Creation\<close>

lemma insert_order_Inr:
  assumes "tx_statement env (insert_order env ext) w = (Inr ord, w')"
  shows "o_ID ord \<notin> o_ID ` set (orders (db w)) \<and> o_Status ord = OrderConfirmed \<and>
    o_ExternalOrderID ord = ext \<and> same_core (create_db ord [] (db w)) (db w') \<and> quiet w w'"
  using assms
  by (auto simp: tx_statement_Inr insert_order_def Let_def create_db_def same_core_def quiet_def split: if_splits)

lemma insert_task_Inr:
  assumes "tx_statement env (insert_task env task) w = (Inr row, w')"
  shows "t_ID row \<notin> t_ID ` set (tasks (db w)) \<and>
    row = task\<lparr>t_ID := t_ID row, t_CreatedAt := t_CreatedAt row\<rparr> \<and>
    same_core ((db w)\<lparr>tasks := tasks (db w) @ [row]\<rparr>) (db w') \<and> quiet w w'"
  using assms
  by (auto simp: tx_statement_Inr insert_task_def Let_def same_core_def quiet_def split: if_splits)

text \<open>\<open>created i task row\<close>: \<open>row\<close> is what the insert makes of \<open>task\<close> for order \<open>i\<close>.\<close>

definition created :: "nat \<Rightarrow> TaskModel \<Rightarrow> TaskModel \<Rightarrow> bool" where
  "created i task row \<longleftrightarrow> row = task\<lparr>t_OrderID := i, t_Status := TaskUnassigned, t_ID := t_ID row,
     t_CreatedAt := t_CreatedAt row\<rparr>"

lemma created_sel:
  "created i task row \<Longrightarrow> t_OrderID row = i \<and> t_Status row = TaskUnassigned \<and>
     t_PendingDeps row = t_PendingDeps task \<and> t_AssignedStaffID row = t_AssignedStaffID task \<and>
     t_AssignedMachineID row = t_AssignedMachineID task \<and> t_StartedAt row = t_StartedAt task \<and>
     t_Description row = t_Description task \<and> t_CounterID row = t_CounterID task \<and>
     t_MachineID row = t_MachineID task"
  by (cases row, cases task) (simp add: created_def)

lemma create_task_Inr:
  "create_task env i t acc w = (Inr rows, w') \<longleftrightarrow>
     (\<exists>row. tx_statement env (insert_task env (t\<lparr>t_OrderID := i, t_Status := TaskUnassigned\<rparr>)) w = (Inr row, w') \<and>
       rows = acc @ [row])"
  by (auto simp: create_task_def and_then_Inr)

lemma create_fold_Inr:
  assumes "fold_act (create_task env i) ts acc w = (Inr rows, w')" and "distinct (map t_ID (tasks (db w)))"
  shows "\<exists>new. rows = acc @ new \<and> list_all2 (created i) ts new \<and>
    same_core ((db w)\<lparr>tasks := tasks (db w) @ new\<rparr>) (db w') \<and>
    distinct (map t_ID (tasks (db w) @ new)) \<and> quiet w w'"
  using assms
proof (induction ts arbitrary: acc w)
  case Nil
  then show ?case by auto
next
  case (Cons t ts)
  obtain row w1 where i: "tx_statement env (insert_task env (t\<lparr>t_OrderID := i, t_Status := TaskUnassigned\<rparr>)) w = (Inr row, w1)"
    and rest: "fold_act (create_task env i) ts (acc @ [row]) w1 = (Inr rows, w')"
    using Cons.prems(1) by (auto simp: and_then_Inr create_task_Inr)
  note I = insert_task_Inr [OF i]
  have tasks1: "tasks (db w1) = tasks (db w) @ [row]" using I by (simp add: same_core_def)
  then have "distinct (map t_ID (tasks (db w1)))" using I Cons.prems(2) by simp
  from Cons.IH [OF rest this] obtain new where new: "rows = (acc @ [row]) @ new" "list_all2 (created i) ts new"
    "same_core ((db w1)\<lparr>tasks := tasks (db w1) @ new\<rparr>) (db w')"
    "distinct (map t_ID (tasks (db w1) @ new))" "quiet w1 w'" by blast
  have "created i t row" using I by (simp add: created_def)
  moreover have "same_core ((db w)\<lparr>tasks := tasks (db w) @ row # new\<rparr>) (db w')"
    using I new(3) tasks1 by (simp add: same_core_def)
  ultimately show ?case
    using new tasks1 I by (intro exI [of _ "row # new"]) (auto intro: quiet_trans)
qed

definition create_body :: "env \<Rightarrow> string \<Rightarrow> TaskModel list \<Rightarrow> ('q world, OrderModel \<times> TaskModel list) act" where
  "create_body env externalOrderID ts =
     and_then (tx_statement env (insert_order env externalOrderID)) (\<lambda>order.
       and_then (fold_act (create_task env (o_ID order)) ts []) (\<lambda>rows. ok (order, rows)))"

lemma CreateOrder_body: "CreateOrderWithTasks env ext ts [] = transaction env (create_body env ext ts)"
  by (simp add: CreateOrderWithTasks_def create_body_def)

lemma create_body_kept: "queue_kept (create_body env ext ts)"
  unfolding create_body_def create_task_def by (intro frame_intros)

text \<open>What a successful creation says of its result.\<close>

definition new_order :: "database \<Rightarrow> TaskModel list \<Rightarrow> OrderModel \<Rightarrow> TaskModel list \<Rightarrow> database \<Rightarrow> bool" where
  "new_order d ts ord rows d' \<longleftrightarrow> list_all2 (created (o_ID ord)) ts rows \<and>
     new_rows ord rows \<and> o_ID ord \<notin> o_ID ` set (orders d) \<and> distinct (map t_ID (tasks d @ rows)) \<and>
     same_core (create_db ord rows d) d'"

lemma create_body_Inr:
  assumes "create_body env ext ts w = (Inr (ord, rows), w')" and "distinct (map t_ID (tasks (db w)))"
    and "ts \<noteq> []" "list_all fresh_row ts"
  shows "new_order (db w) ts ord rows (db w') \<and> quiet w w' \<and> o_ExternalOrderID ord = ext"
proof -
  obtain w1 where o: "tx_statement env (insert_order env ext) w = (Inr ord, w1)"
    and f: "fold_act (create_task env (o_ID ord)) ts [] w1 = (Inr rows, w')"
    using assms(1) by (auto simp: create_body_def and_then_Inr)
  note O = insert_order_Inr [OF o]
  have t1: "tasks (db w1) = tasks (db w)" using O by (simp add: same_core_def create_db_def)
  from create_fold_Inr [OF f] t1 assms(2) have F: "list_all2 (created (o_ID ord)) ts rows"
    "same_core ((db w1)\<lparr>tasks := tasks (db w1) @ rows\<rparr>) (db w')" "distinct (map t_ID (tasks (db w) @ rows))"
    "quiet w1 w'" by auto
  have "rows \<noteq> []" using F(1) assms(3) by auto
  moreover have "t_OrderID t = o_ID ord \<and> t_Status t = TaskUnassigned \<and> t_PendingDeps t = 0 \<and>
        t_AssignedStaffID t = None \<and> t_AssignedMachineID t = None \<and> t_StartedAt t = None"
    if "t \<in> set rows" for t
    using list_all2_source [OF F(1) that] assms(4) by (auto simp: fresh_row_def list_all_iff dest!: created_sel)
  ultimately have "new_rows ord rows" using O by (simp add: new_rows_def)
  moreover have "same_core (create_db ord rows (db w)) (db w')"
    using O F(2) by (simp add: same_core_def create_db_def)
  ultimately show ?thesis using O F by (auto simp: new_order_def intro: quiet_trans)
qed

section \<open>Dependencies\<close>

text \<open>The state of a new order before its dependencies are counted.\<close>

definition newborn :: "nat set \<Rightarrow> database \<Rightarrow> nat \<Rightarrow> TaskModel list \<Rightarrow> bool" where
  "newborn Q d i rows \<longleftrightarrow> set rows = {t \<in> set (tasks d). t_OrderID t = i} \<and>
     (\<forall>t \<in> set rows. t_Status t = TaskUnassigned \<and> t_PendingDeps t = 0 \<and> t_ID t \<notin> Q)"

lemma newborn_dormant: "newborn Q d i rows \<Longrightarrow> dormant Q d i"
  by (auto simp: newborn_def dormant_def)

lemma newborn_created:
  assumes "kitchen_ok (Q, d)" "new_order d ts ord rows d'"
  shows "newborn Q d' (o_ID ord) rows" and "\<forall>td \<in> set (task_dependencies d'). td_TaskID td \<notin> t_ID ` set rows"
proof -
  have n: "new_rows ord rows" "o_ID ord \<notin> o_ID ` set (orders d)" "distinct (map t_ID (tasks d @ rows))"
    and core: "same_core (create_db ord rows d) d'" using assms(2) by (auto simp: new_order_def)
  have tasks: "tasks d' = tasks d @ rows" and deps: "task_dependencies d' = task_dependencies d"
    using core by (simp_all add: same_core_def)
  have old: "t_OrderID t \<noteq> o_ID ord" if "t \<in> set (tasks d)" for t
    using that assms(1) n(2) unfolding kitchen_ok_def orders_ok_def by (metis (no_types, lifting) case_prodD image_eqI)
  have fresh: "t_ID t \<notin> t_ID ` set (tasks d)" if "t \<in> set rows" for t
    using n(3) that by (auto simp: disjoint_iff)
  have "Q \<subseteq> t_ID ` set (tasks d)" using assms(1) by (simp add: kitchen_ok_def known_def)
  then show "newborn Q d' (o_ID ord) rows"
    using old fresh n(1) by (auto simp: newborn_def tasks new_rows_def)
  have "td_TaskID td \<in> t_ID ` set (tasks d)" if "td \<in> set (task_dependencies d)" for td
  proof -
    have "local_deps d" using assms(1) by (simp add: kitchen_ok_def gated_def)
    then show ?thesis using that unfolding local_deps_def order_of_def by (metis image_eqI)
  qed
  then show "\<forall>td \<in> set (task_dependencies d'). td_TaskID td \<notin> t_ID ` set rows"
    using fresh unfolding deps by (metis imageE)
qed

lemma check_links_None:
  "check_links n links = None \<Longrightarrow> link \<in> set links \<Longrightarrow>
     0 \<le> TaskIdx link \<and> TaskIdx link < n \<and> 0 \<le> DepIdx link \<and> DepIdx link < n \<and> TaskIdx link \<noteq> DepIdx link"
  by (induction links) (auto split: if_splits)

lemma build_deps_source:
  "td \<in> set (build_deps ts links seen) \<Longrightarrow>
     \<exists>link \<in> set links. td_TaskID td = t_ID (ts ! nat (TaskIdx link)) \<and>
       td_DependsOnTaskID td = t_ID (ts ! nat (DepIdx link))"
  by (induction ts links seen rule: build_deps.induct) (auto simp: Let_def split: if_splits)

lemma build_deps_local:
  assumes "newborn Q d i rows" "check_links (int (length rows)) links = None"
    "td \<in> set (build_deps rows links seen)"
  shows "order_of d (td_TaskID td) i \<and> order_of d (td_DependsOnTaskID td) i"
proof -
  obtain link where l: "link \<in> set links" "td_TaskID td = t_ID (rows ! nat (TaskIdx link))"
    "td_DependsOnTaskID td = t_ID (rows ! nat (DepIdx link))"
    using build_deps_source [OF assms(3)] by blast
  then have "rows ! nat (TaskIdx link) \<in> set rows" "rows ! nat (DepIdx link) \<in> set rows"
    using check_links_None [OF assms(2) l(1)] by auto
  then show ?thesis using assms(1) l(2,3) unfolding newborn_def order_of_def by auto
qed

text \<open>A single statement that may fail, or lose its reply: the tables before or after it.\<close>

lemma insert_deps_outcome:
  assumes "statement env (insert_deps deps) w = (r, w')"
  shows "queue w' = queue w \<and>
    (db w' = db w \<and> (\<exists>e. r = Inl e) \<or>
     db w' = link_db deps (db w) \<and> distinct (map dep_key (task_dependencies (db w) @ deps)))"
  using assms
  by (cases rule: statement_outcome)
    (auto simp: insert_deps_def modify_def link_db_def split: if_splits)

lemma recount_outcome:
  assumes "RecalculatePendingDepsForOrder env i w = (r, w')"
  shows "queue w' = queue w \<and> (db w' = db w \<and> (\<exists>e. r = Inl e) \<or> db w' = recount_db i (db w))"
proof -
  let ?f = "\<lambda>d. update_tasks (\<lambda>t. 0 < dep_count d i (t_ID t))
       (\<lambda>t. map_sum_right (\<lambda>p. t\<lparr>t_PendingDeps := p\<rparr>) (int4 (dep_count d i (t_ID t)))) d"
  have eff: "d' = recount_db i d" if "?f d = Inr d'" for d d'
    unfolding recount_db_def using that by (rule update_tasks_Inr) (auto simp: int4_Inr)
  have "statement env (modify (\<lambda>n. ?f)) w = (r, w')"
    using assms by (simp add: RecalculatePendingDepsForOrder_def)
  then show ?thesis
    by (cases rule: statement_outcome) (auto simp: modify_def split: sum.splits dest: eff)
qed

lemma recount_settles:
  assumes "keys d" "local_deps d" "newborn Q d i rows"
  shows "settled (recount_db i d) i"
proof -
  let ?d = "recount_db i d"
  have "t_Status x = TaskUnassigned" if "x \<in> set (tasks d)" "t_OrderID x = i" for x
    using that assms(3) by (auto simp: newborn_def)
  then have nd: "\<not> is_done d k" if "order_of d k i" for k
    using that keys_the_task [OF assms(1)] unfolding is_done_def order_of_def
    by (metis TaskStatus.distinct(5))
  have dn: "is_done ?d = is_done d" by (rule recount_is_done)
  have op: "open_deps ?d (t_ID t) = count (\<lambda>td. td_TaskID td = t_ID t) (task_dependencies d)"
    if "t \<in> set (tasks d)" "t_OrderID t = i" for t
    unfolding open_deps_def dn recount_sel
  proof (rule count_cong)
    fix td assume td: "td \<in> set (task_dependencies d)"
    have "\<not> is_done d (td_DependsOnTaskID td)" if "td_TaskID td = t_ID t"
    proof -
      obtain j where "order_of d (td_TaskID td) j" "order_of d (td_DependsOnTaskID td) j"
        using assms(2) td unfolding local_deps_def by blast
      moreover have "order_of d (td_TaskID td) i"
        using order_ofI [OF \<open>t \<in> set (tasks d)\<close>] \<open>t_OrderID t = i\<close> that by simp
      ultimately show ?thesis using nd order_of_unique [OF assms(1)] by blast
    qed
    then show "td_TaskID td = t_ID t \<and> \<not> is_done d (td_DependsOnTaskID td) \<longleftrightarrow> td_TaskID td = t_ID t" by blast
  qed
  have "task_settled ?d x" if x: "x \<in> set (tasks ?d)" "t_OrderID x = i" for x
  proof -
    obtain t where t: "t \<in> set (tasks d)" "x = (if 0 < dep_count d i (t_ID t)
        then t\<lparr>t_PendingDeps := dep_count d i (t_ID t)\<rparr> else t)"
      using x(1) by (auto simp: recount_tasks)
    have o: "t_OrderID t = i" using x(2) t(2) by (auto split: if_splits)
    then have c: "dep_count d i (t_ID t) = open_deps ?d (t_ID t)"
      using dep_count_order [OF assms(1) t(1)] op t(1) by simp
    have "t_Status t = TaskUnassigned" "t_PendingDeps t = 0" using assms(3) t(1) o by (auto simp: newborn_def)
    then show ?thesis using t(2) c open_deps_nonneg [of ?d "t_ID t"]
      by (auto simp: task_settled_def simp del: open_deps_nonneg)
  qed
  then show ?thesis by (simp add: settled_def)
qed

lemma store_links_run:
  assumes "store_links env i rows links w = (r, w')" and ok: "kitchen_ok (kitchen_state ids F w)"
    and new: "newborn (ready_ids ids (queue w) \<union> F) (db w) i rows"
    and none: "\<forall>td \<in> set (task_dependencies (db w)). td_TaskID td \<notin> t_ID ` set rows"
    and links: "check_links (int (length rows)) links = None"
  shows "kitchen_run (kitchen_state ids F w) (kitchen_state ids F w')"
    and "r = Inr u \<Longrightarrow> settled (db w') i"
proof -
  let ?Q = "ready_ids ids (queue w) \<union> F"
  have "kitchen_run (kitchen_state ids F w) (kitchen_state ids F w') \<and> (r = Inr u \<longrightarrow> settled (db w') i)"
  proof (cases "links = []")
    case True
    then have "w' = w" using assms(1) by (auto simp: store_links_def)
    moreover have "open_deps (db w) (t_ID t) = 0" if "t \<in> set rows" for t
      using none that unfolding open_deps_def count_zero by (metis image_eqI)
    ultimately show ?thesis using new by (auto simp: settled_def task_settled_def newborn_def)
  next
    case False
    let ?deps = "build_deps rows links []"
    obtain x w1 where a: "InsertTaskDependencies env ?deps w = (x, w1)" by force
    have out: "queue w1 = queue w \<and> (db w1 = db w \<and> (\<exists>e. x = Inl e) \<or>
        db w1 = link_db ?deps (db w) \<and> distinct (map dep_key (task_dependencies (db w) @ ?deps)))"
    proof (cases "?deps = []")
      case True
      then have "w1 = w" using a by (simp add: InsertTaskDependencies_def)
      then show ?thesis
        using True ok by (simp add: link_db_def kitchen_ok_def kitchen_state_def keys_def)
    next
      case nonempty: False
      then have "statement env (insert_deps ?deps) w = (x, w1)" using a by (simp add: InsertTaskDependencies_def)
      from insert_deps_outcome [OF this] show ?thesis .
    qed
    have local: "\<forall>td \<in> set ?deps. order_of (db w) (td_TaskID td) i \<and> order_of (db w) (td_DependsOnTaskID td) i"
      using build_deps_local [OF new links] by blast
    have run1: "kitchen_run (?Q, db w) (?Q, db w1)"
      using out kitchen_step.link [OF _ newborn_dormant [OF new] local same_core_refl]
      by (auto intro: kitchen_run_step)
    have new1: "newborn ?Q (db w1) i rows" using new out by (auto simp: newborn_def)
    have ok1: "kitchen_ok (?Q, db w1)" using kitchen_run_ok [OF run1] ok by (simp add: kitchen_state_def)
    have "(\<exists>e. x = Inl e \<and> r = Inl e) \<and> w' = w1 \<or> RecalculatePendingDepsForOrder env i w1 = (r, w')"
      using assms(1) False a by (auto simp: store_links_def and_then_def split: sum.splits)
    then show ?thesis
    proof (elim disjE conjE exE)
      assume "RecalculatePendingDepsForOrder env i w1 = (r, w')"
      from recount_outcome [OF this]
      have q: "queue w' = queue w1" and d: "db w' = db w1 \<and> (\<exists>e. r = Inl e) \<or> db w' = recount_db i (db w1)" by auto
      have run2: "kitchen_run (?Q, db w1) (?Q, db w')"
        using d kitchen_step.recount [OF newborn_dormant [OF new1] same_core_refl] by (auto intro: kitchen_run_step)
      have "settled (db w') i" if "r = Inr u"
        using d that recount_settles [OF _ _ new1] ok1 by (auto simp: kitchen_ok_def gated_def)
      then show ?thesis
        using kitchen_run_trans [OF run1 run2] q out by (simp add: kitchen_state_def)
    qed (use run1 out in \<open>simp add: kitchen_state_def\<close>)
  qed
  then show "kitchen_run (kitchen_state ids F w) (kitchen_state ids F w')" and "r = Inr u \<Longrightarrow> settled (db w') i"
    by blast+
qed

section \<open>Confirmation\<close>

lemma InsertDomainEventNoTx_any:
  "InsertDomainEventNoTx env ty i ev w = (r, w') \<Longrightarrow> same_core (db w) (db w') \<and> queue w' = queue w"
proof -
  have core: "same_core d d'" if "insert_event env ty i ev n d = (q, d')" for n d q d'
    using that by (auto simp: insert_event_def Let_def same_core_def split: if_splits)
  assume "InsertDomainEventNoTx env ty i ev w = (r, w')"
  then have "statement env (insert_event env ty i ev) w = (r, w')" by (simp add: InsertDomainEventNoTx_def)
  then show ?thesis by (cases rule: statement_outcome) (auto dest: core)
qed

context ready_queue
begin

lemma publish_ready_run:
  assumes "publish_ready env ops s t acc w = (r, w')"
  shows "ready_ids ids (queue w') \<subseteq> insert (t_ID t) (ready_ids ids (queue w)) \<and> same_core (db w) (db w')"
proof -
  obtain sc w1 where q: "queueScore env s (t_BasePriority t) (t_CreatedAt t) w = (sc, w1)" by force
  obtain score where sc: "sc = Inr score" "db w1 = db w" "queue w1 = queue w"
    using queueScore_run [OF q] by auto
  obtain x w2 where e: "enqueue ops (FormatUint (t_ID t)) score w1 = (x, w2)" by force
  note E = enqueue_run [OF e]
  show ?thesis
  proof (cases x)
    case (Inl a)
    then show ?thesis using assms q sc e E by (auto simp: publish_ready_def and_then_def)
  next
    case (Inr u)
    obtain n w3 where now: "Now env w2 = (Inr n, w3)" by (simp add: Now_def)
    obtain y w4 where ev: "InsertDomainEventNoTx env ''task'' (FormatUint (t_ID t))
        (task_event EventTaskReady n (t_ID t)) w3 = (y, w4)" by force
    have "w' = w4"
      using assms q sc e Inr now ev by (auto simp: publish_ready_def and_then_def ok_def split: sum.splits)
    then show ?thesis
      using InsertDomainEventNoTx_any [OF ev] Now_Inr [OF now] E sc by (simp add: quiet_def)
  qed
qed

lemma publish_fold_run:
  assumes "fold_act (publish_ready env ops s) rows acc w = (r, w')"
  shows "ready_ids ids (queue w') \<subseteq> ready_ids ids (queue w) \<union> t_ID ` set rows \<and> same_core (db w) (db w')"
  using assms
proof (induction rows arbitrary: acc w)
  case (Cons t ts)
  obtain x w1 where p: "publish_ready env ops s t acc w = (x, w1)" by force
  note P = publish_ready_run [OF p]
  have "w' = w1 \<or> (\<exists>acc1. fold_act (publish_ready env ops s) ts acc1 w1 = (r, w'))"
    using Cons.prems p by (auto simp: and_then_def split: sum.splits)
  then show ?case using Cons.IH [of _ w1] P same_core_trans [of "db w" "db w1" "db w'"] by auto
qed simp

lemma publish_settled_run:
  assumes "and_then (ListOrderReadyTasks env i) (\<lambda>ts. and_then (fold_act (publish_ready env ops s) ts [])
      (\<lambda>readyIDs. ok (i, readyIDs))) w = (r, w')" and "settled (db w) i"
  shows "kitchen_run (kitchen_state ids F w) (kitchen_state ids F w')"
proof -
  obtain x w1 where l: "ListOrderReadyTasks env i w = (x, w1)" by force
  have w1: "db w1 = db w" "queue w1 = queue w"
    using statement_query_keeps l [unfolded ListOrderReadyTasks_def] by blast+
  show ?thesis
  proof (cases x)
    case (Inl e)
    then show ?thesis using assms(1) l w1 by (auto simp: and_then_def kitchen_state_def)
  next
    case (Inr ts)
    have "set ts \<subseteq> {t \<in> set (tasks (db w)). t_OrderID t = i}"
      using query_Inr [OF l [unfolded ListOrderReadyTasks_def Inr]] by auto
    then have sub: "t_ID ` set ts \<subseteq> settled_ids (db w)" using assms(2) by (auto simp: settled_ids_def)
    obtain y w2 where f: "fold_act (publish_ready env ops s) ts [] w1 = (y, w2)" by force
    have "w' = w2" using assms(1) l Inr f by (auto simp: and_then_def ok_def split: sum.splits)
    then have q: "ready_ids ids (queue w') \<subseteq> ready_ids ids (queue w) \<union> settled_ids (db w)"
      and d: "same_core (db w) (db w')" using publish_fold_run [OF f] w1 sub by (auto, blast)
    have "kitchen_run (kitchen_state ids F w) (ready_ids ids (queue w') \<union> F, db w)"
      unfolding kitchen_state_def using q by (intro run_put) blast
    moreover have "kitchen_run (ready_ids ids (queue w') \<union> F, db w) (kitchen_state ids F w')"
      unfolding kitchen_state_def using d by (intro run_idle) auto
    ultimately show ?thesis by (rule kitchen_run_trans)
  qed
qed

lemma CreateOrder_run:
  assumes "CreateOrderWithTasks env ext ts [] w = (r, w')" and ok: "kitchen_ok (kitchen_state ids F w)"
    and "ts \<noteq> []" "list_all fresh_row ts"
  shows "kitchen_run (kitchen_state ids F w) (kitchen_state ids F w')"
    and "r = Inr (ord, rows) \<Longrightarrow> new_order (db w) ts ord rows (db w') \<and> queue w' = queue w"
proof -
  have tr: "transaction env (create_body env ext ts) w = (r, w')"
    using assms(1) by (simp add: CreateOrder_body)
  have d: "distinct (map t_ID (tasks (db w)))"
    using ok by (simp add: kitchen_state_def kitchen_ok_def keys_def)
  show "kitchen_run (kitchen_state ids F w) (kitchen_state ids F w')"
    using tr create_body_kept
  proof (rule transaction_run_kept)
    fix x v v1 assume b: "create_body env ext ts v = (Inr x, v1)" and v: "db v = db w" "queue v = queue w"
    obtain ord rows where x: "x = (ord, rows)" by force
    have B: "new_order (db v) ts ord rows (db v1) \<and> quiet v v1"
      using create_body_Inr [OF b [unfolded x]] v d assms(3,4) by simp
    then have "kitchen_step (ready_ids ids (queue w) \<union> F, db v) (ready_ids ids (queue w) \<union> F, db v1)"
      by (intro kitchen_step.create) (auto simp: new_order_def)
    then show "kitchen_run (kitchen_state ids F v) (kitchen_state ids F v1)"
      using B v by (simp add: kitchen_state_def quiet_def kitchen_run_step)
  qed
  show "new_order (db w) ts ord rows (db w') \<and> queue w' = queue w" if r: "r = Inr (ord, rows)"
  proof -
    obtain w1 where b: "create_body env ext ts (w\<lparr>tick := Suc (tick w), aborted := False\<rparr>) = (Inr (ord, rows), w1)"
      and w': "w' = w1\<lparr>tick := Suc (tick w1)\<rparr>"
      using transaction_Inr [OF tr [unfolded r]] by blast
    show ?thesis
      using create_body_Inr [OF b] d assms(3,4) by (simp add: w' quiet_def)
  qed
qed

lemma confirm_store_run:
  assumes "confirm_store env ops s ext ts links w = (r, w')" and ok: "kitchen_ok (kitchen_state ids F w)"
    and ts: "ts \<noteq> []" "list_all fresh_row ts" and links: "check_links (int (length ts)) links = None"
  shows "kitchen_run (kitchen_state ids F w) (kitchen_state ids F w')"
proof -
  obtain x w1 where c: "CreateOrderWithTasks env ext ts [] w = (x, w1)" by force
  note run1 = CreateOrder_run(1) [OF c ok ts]
  note ok1 = kitchen_run_ok [OF run1 ok]
  show ?thesis
  proof (cases x)
    case (Inl e)
    then show ?thesis using assms(1) c run1 by (auto simp: confirm_store_def and_then_def)
  next
    case (Inr p)
    obtain ord rows where p: "x = (Inr (ord, rows))" using Inr by (cases p) auto
    have C: "new_order (db w) ts ord rows (db w1)" "queue w1 = queue w"
      using CreateOrder_run(2) [OF c ok ts p] by auto
    have "kitchen_ok (ready_ids ids (queue w1) \<union> F, db w)" using ok C(2) by (simp add: kitchen_state_def)
    note new = newborn_created [OF this C(1)]
    have len: "length rows = length ts" using C(1) by (auto simp: new_order_def dest: list_all2_lengthD)
    obtain y w2 where l: "store_links env (o_ID ord) rows links w1 = (y, w2)" by force
    note L = store_links_run [OF l ok1 new links [folded len]]
    have run2: "kitchen_run (kitchen_state ids F w) (kitchen_state ids F w2)"
      using run1 L(1) by (rule kitchen_run_trans)
    show ?thesis
    proof (cases y)
      case (Inl e)
      then show ?thesis using assms(1) c p l run2 by (auto simp: confirm_store_def and_then_def)
    next
      case (Inr u)
      then have "and_then (ListOrderReadyTasks env (o_ID ord)) (\<lambda>ts. and_then (fold_act (publish_ready env ops s) ts [])
        (\<lambda>readyIDs. ok (o_ID ord, readyIDs))) w2 = (r, w')"
        using assms(1) c p l by (simp add: confirm_store_def and_then_def)
      then have "kitchen_run (kitchen_state ids F w2) (kitchen_state ids F w')"
        by (rule publish_settled_run) (rule L(2) [OF Inr])
      then show ?thesis by (rule kitchen_run_trans [OF run2])
    qed
  qed
qed

lemma ConfirmOrder_run:
  assumes "ConfirmOrder env ops s req w = (r, w')" and ok: "kitchen_ok (kitchen_state ids F w)"
  shows "kitchen_run (kitchen_state ids F w) (kitchen_state ids F w')"
proof -
  obtain x w1 where p: "confirm_plan env req w = (x, w1)" by force
  have w1: "kitchen_state ids F w1 = kitchen_state ids F w"
    using readonlyD [OF confirm_plan_readonly p] by (simp add: kitchen_state_def)
  show ?thesis
  proof (cases x)
    case (Inl e)
    then show ?thesis using assms(1) p w1 by (auto simp: ConfirmOrder_parts and_then_def)
  next
    case (Inr t)
    obtain ext ts links where t: "t = (ext, ts, links)" by (metis prod.collapse)
    then have "confirm_store env ops s ext ts links w1 = (r, w')"
      using assms(1) p Inr by (simp add: ConfirmOrder_parts and_then_def)
    then show ?thesis
      using confirm_store_run [of env s ext ts links w1 r w' F] confirm_plan_Inr [OF p [unfolded Inr t]] ok w1
      by simp
  qed
qed

end

end
