(* ===== verification/Messaging.thy ===== *)
theory Messaging imports
  Store
begin

text \<open>
  Package \<open>internal/messaging\<close>: the in-memory topic (a bounded channel) and the Kafka topic with its
  retries. The broker is the environment's: \<open>published\<close> holds the messages it has accepted, and a
  write that reports an error may have been accepted all the same.
\<close>

section \<open>The in-memory topic\<close>

record InMemoryTopic =
  buffer :: nat
  events :: "DomainEvent list"

definition NewInMemoryTopic :: "int \<Rightarrow> InMemoryTopic" where
  "NewInMemoryTopic n = \<lparr>buffer = nat (if n \<le> 0 then 256 else n), events = []\<rparr>"

text \<open>
  A \<open>select\<close> with several ready cases takes any of them (\<open>coin\<close>), and blocks when none is ready.
  \<open>ctx_done\<close> is the error of a context that is done.
\<close>

datatype 'a selected = Blocks | Returns 'a

definition topic_Publish ::
  "error option \<Rightarrow> bool \<Rightarrow> DomainEvent \<Rightarrow> InMemoryTopic \<Rightarrow> (error option) selected \<times> InMemoryTopic" where
  "topic_Publish ctx_done coin event t =
     (case (ctx_done, length (events t) < buffer t) of
        (Some e, False) \<Rightarrow> (Returns (Some e), t)
      | (Some e, True) \<Rightarrow> if coin then (Returns (Some e), t) else (Returns None, t\<lparr>events := events t @ [event]\<rparr>)
      | (None, True) \<Rightarrow> (Returns None, t\<lparr>events := events t @ [event]\<rparr>)
      | (None, False) \<Rightarrow> (Blocks, t))"

text \<open>One round of the consumer's loop: the event it hands to the handler, or the end of the loop.\<close>

datatype consumed = Handed DomainEvent | Stopped error

definition topic_Receive :: "error option \<Rightarrow> bool \<Rightarrow> InMemoryTopic \<Rightarrow> consumed selected \<times> InMemoryTopic" where
  "topic_Receive ctx_done coin t =
     (case (ctx_done, events t) of
        (Some e, []) \<Rightarrow> (Returns (Stopped e), t)
      | (Some e, evt # rest) \<Rightarrow> if coin then (Returns (Stopped e), t) else (Returns (Handed evt), t\<lparr>events := rest\<rparr>)
      | (None, evt # rest) \<Rightarrow> (Returns (Handed evt), t\<lparr>events := rest\<rparr>)
      | (None, []) \<Rightarrow> (Blocks, t))"

text \<open>
  Publishers and the consumer as a step relation; the last two components are the events accepted
  and the events handed over so far.
\<close>

type_synonym topic_state = "InMemoryTopic \<times> DomainEvent list \<times> DomainEvent list"

inductive topic_step :: "topic_state \<Rightarrow> topic_state \<Rightarrow> bool" where
  publish: "topic_Publish done coin event t = (Returns None, t') \<Longrightarrow>
    topic_step (t, sent, got) (t', sent @ [event], got)"
| refused: "topic_Publish done coin event t = (Returns (Some e), t') \<Longrightarrow>
    topic_step (t, sent, got) (t', sent, got)"
| receive: "topic_Receive done coin t = (Returns (Handed event), t') \<Longrightarrow>
    topic_step (t, sent, got) (t', sent, got @ [event])"
| stop: "topic_Receive done coin t = (Returns (Stopped e), t') \<Longrightarrow>
    topic_step (t, sent, got) (t', sent, got)"

inductive_cases topic_stepE: "topic_step s s'"

definition topic_inv :: "topic_state \<Rightarrow> bool" where
  "topic_inv s \<longleftrightarrow> (case s of (t, sent, got) \<Rightarrow> sent = got @ events t \<and> length (events t) \<le> buffer t)"

lemma topic_step_inv: "topic_step s s' \<Longrightarrow> topic_inv s \<Longrightarrow> topic_inv s'"
  by (induction rule: topic_step.induct)
    (auto simp: topic_inv_def topic_Publish_def topic_Receive_def split: option.splits list.splits if_splits bool.splits)

lemma topic_run_inv: "topic_step\<^sup>*\<^sup>* s s' \<Longrightarrow> topic_inv s \<Longrightarrow> topic_inv s'"
  by (induction rule: rtranclp_induct) (auto intro: topic_step_inv)

text \<open>
  The loop of \<open>Consume\<close> over a number of rounds, each with its context and its choice; it returns
  with the first error of the context or of the handler, and otherwise waits for the next round.
\<close>

fun topic_Consume ::
  "(error option \<times> bool) list \<Rightarrow> (DomainEvent \<Rightarrow> ('s, unit) act) \<Rightarrow> InMemoryTopic \<Rightarrow> 's \<Rightarrow>
     error option \<times> InMemoryTopic \<times> 's" where
  "topic_Consume [] handler t s = (None, t, s)"
| "topic_Consume ((ctx_done, coin) # rounds) handler t s =
     (case topic_Receive ctx_done coin t of
        (Blocks, t') \<Rightarrow> topic_Consume rounds handler t' s
      | (Returns (Stopped e), t') \<Rightarrow> (Some e, t', s)
      | (Returns (Handed evt), t') \<Rightarrow>
          (case handler evt s of
             (Inl e, s') \<Rightarrow> (Some e, t', s')
           | (Inr _, s') \<Rightarrow> topic_Consume rounds handler t' s'))"

lemma topic_Consume_in_order:
  assumes "topic_Consume rounds handler t s = (r, t', s')" and "\<And>evt s. \<exists>s'. handler evt s = (Inr (), s')"
  shows "\<exists>taken. events t = taken @ events t' \<and> for_each handler taken s = (Inr (), s')"
  using assms(1)
proof (induction rounds arbitrary: t s)
  case (Cons round rounds)
  obtain d c where round: "round = (d, c)" by force
  have receives: "x = Blocks \<and> t1 = t \<or> (\<exists>e. x = Returns (Stopped e) \<and> t1 = t) \<or>
      (\<exists>evt. x = Returns (Handed evt) \<and> events t = evt # events t1)" if "topic_Receive d c t = (x, t1)" for x t1
    using that by (auto simp: topic_Receive_def split: option.splits list.splits if_splits)
  obtain x t1 where x: "topic_Receive d c t = (x, t1)" by force
  consider "x = Blocks" "t1 = t" | e where "x = Returns (Stopped e)" "t1 = t"
    | evt where "x = Returns (Handed evt)" "events t = evt # events t1" using receives [OF x] by blast
  then show ?case
  proof cases
    case (3 evt)
    obtain s1 where s1: "handler evt s = (Inr (), s1)" using assms(2) by blast
    then have "topic_Consume rounds handler t1 s1 = (r, t', s')" using Cons.prems round x 3 by simp
    from Cons.IH [OF this] obtain taken where "events t1 = taken @ events t'" "for_each handler taken s1 = (Inr (), s')"
      by blast
    then show ?thesis using 3 s1 by (intro exI [of _ "evt # taken"]) (simp add: and_then_def)
  qed (use Cons round x in \<open>auto simp: ok_def\<close>)
qed (simp add: ok_def)

section \<open>The Kafka topic\<close>

record KafkaConfig =
  Brokers :: "string list"
  TopicName :: string
  GroupID :: string
  Partition :: int
  FromBeginning :: bool

text \<open>What the constructor asks of the client library: a writer, and a reader if one is wanted.\<close>

datatype start_offset = FirstOffset | LastOffset

record ReaderConfig =
  reader_Brokers :: "string list"
  reader_Topic :: string
  reader_Start :: start_offset
  reader_GroupID :: string
  reader_Partition :: int

record KafkaTopic =
  writer :: "string list \<times> string"
  reader :: "ReaderConfig option"

definition NewKafkaTopic :: "KafkaConfig \<Rightarrow> error + KafkaTopic" where
  "NewKafkaTopic cfg =
     (if length (Brokers cfg) = 0 then Inl (Errorf ''at least one kafka broker is required'')
      else if TrimSpace (TopicName cfg) = [] then Inl (Errorf ''kafka topic is required'')
      else let startOffset = (if FromBeginning cfg then FirstOffset else LastOffset);
               readerCfg = \<lparr>reader_Brokers = Brokers cfg, reader_Topic = TopicName cfg,
                            reader_Start = startOffset, reader_GroupID = [], reader_Partition = 0\<rparr>;
               rd = (if TrimSpace (GroupID cfg) \<noteq> [] \<or> 0 \<le> Partition cfg
                     then Some (if TrimSpace (GroupID cfg) \<noteq> [] then readerCfg\<lparr>reader_GroupID := GroupID cfg\<rparr>
                                else readerCfg\<lparr>reader_Partition := Partition cfg\<rparr>)
                     else None)
           in Inr \<lparr>writer = (Brokers cfg, TopicName cfg), reader = rd\<rparr>)"

text \<open>\<open>Close\<close> closes the reader and the writer whatever happens and returns the first error.\<close>

definition kafka_Close :: "error option \<Rightarrow> error option \<Rightarrow> KafkaTopic \<Rightarrow> error option" where
  "kafka_Close reader_err writer_err t =
     (let firstErr = (if reader t \<noteq> None then reader_err else None)
      in if writer_err \<noteq> None \<and> firstErr = None then writer_err else firstErr)"

definition ctx_Err :: "env \<Rightarrow> ('q world, bool) act" where
  "ctx_Err env = (\<lambda>w. (Inr (cancelled env (tick w)), w\<lparr>tick := Suc (tick w)\<rparr>))"

definition ctx_error :: error where "ctx_error = DriverError ''context canceled''"

definition WriteMessages :: "env \<Rightarrow> Message \<Rightarrow> ('q world, unit) act" where
  "WriteMessages env msg = (\<lambda>w.
     let w1 = w\<lparr>tick := Suc (tick w)\<rparr>
     in case deliver env (tick w) of
          None \<Rightarrow> (Inr (), w1\<lparr>published := published w @ [msg]\<rparr>)
        | Some (accepted, e) \<Rightarrow> (Inl e, if accepted then w1\<lparr>published := published w @ [msg]\<rparr> else w1))"

text \<open>The pauses between attempts (\<open>150\<close> and \<open>200\<close> milliseconds times the attempt) only take time.\<close>

fun publish_loop :: "env \<Rightarrow> Message \<Rightarrow> nat list \<Rightarrow> error \<Rightarrow> ('q world, unit) act" where
  "publish_loop env msg [] lastErr = fail (Errorf (''publish failed after retries: '' @ error_text lastErr))"
| "publish_loop env msg (k # ks) lastErr =
     and_then (attempt (WriteMessages env msg)) (\<lambda>r.
     case r of
       Inr _ \<Rightarrow> ok ()
     | Inl e \<Rightarrow> and_then (ctx_Err env) (\<lambda>c. if c then fail ctx_error else publish_loop env msg ks e))"

definition kafka_Publish :: "env \<Rightarrow> DomainEvent \<Rightarrow> ('q world, unit) act" where
  "kafka_Publish env event =
     and_then (Now env) (\<lambda>t.
     publish_loop env \<lparr>g_Key = Type event, g_Value = Marshal_event event, g_Time = t\<rparr> [1, 2, 3] ErrNotFound)"

text \<open>
  The consumer's loop over what the reader delivers: \<open>Reading\<close> when it waits for the next message,
  \<open>Finished e\<close> when \<open>Consume\<close> has returned \<open>e\<close>. The result of one message is \<open>None\<close> when the context
  ended, otherwise whether some attempt succeeded.
\<close>

datatype consume_state = Reading | Finished "error option"

fun handle_loop :: "env \<Rightarrow> (DomainEvent \<Rightarrow> ('q world, unit) act) \<Rightarrow> DomainEvent \<Rightarrow> nat list \<Rightarrow> ('q world, bool option) act" where
  "handle_loop env handler evt [] = ok (Some False)"
| "handle_loop env handler evt (k # ks) =
     and_then (attempt (handler evt)) (\<lambda>r.
     case r of
       Inr _ \<Rightarrow> ok (Some True)
     | Inl e \<Rightarrow> and_then (ctx_Err env) (\<lambda>c. if c then ok None else handle_loop env handler evt ks))"

fun consume_loop :: "env \<Rightarrow> (DomainEvent \<Rightarrow> ('q world, unit) act) \<Rightarrow> (error + json) list \<Rightarrow> ('q world, consume_state) act" where
  "consume_loop env handler [] = ok Reading"
| "consume_loop env handler (Inl e # reads) =
     and_then (ctx_Err env) (\<lambda>c. if c then ok (Finished None) else ok (Finished (Some e)))"
| "consume_loop env handler (Inr value # reads) =
     (case Unmarshal_event value of
        Inl _ \<Rightarrow> consume_loop env handler reads
      | Inr evt \<Rightarrow>
          and_then (handle_loop env handler evt [1, 2, 3]) (\<lambda>handled.
          if handled = None then ok (Finished None) else consume_loop env handler reads))"

definition kafka_Consume ::
  "env \<Rightarrow> KafkaTopic \<Rightarrow> (DomainEvent \<Rightarrow> ('q world, unit) act) \<Rightarrow> (error + json) list \<Rightarrow> ('q world, consume_state) act" where
  "kafka_Consume env t handler reads =
     (if reader t = None then ok (Finished (Some (Errorf ''kafka reader is not configured'')))
      else consume_loop env handler reads)"

section \<open>What publishing guarantees\<close>

text \<open>
  The contract of \<open>outbox.Publisher\<close>: tables, queue and transaction are left alone, what was
  accepted stays accepted, and a success means that a message with the event was accepted.
\<close>

definition carries :: "DomainEvent \<Rightarrow> Message \<Rightarrow> bool" where
  "carries event msg \<longleftrightarrow> g_Key msg = Type event \<and> g_Value msg = Marshal_event event"

locale publisher =
  fixes publish :: "DomainEvent \<Rightarrow> ('q world, unit) act"
  assumes publish_frame: "publish ev w = (r, w') \<Longrightarrow>
      db w' = db w \<and> queue w' = queue w \<and> aborted w' = aborted w"
    and publish_grows: "publish ev w = (r, w') \<Longrightarrow>
      \<exists>new. published w' = published w @ new \<and> (\<forall>m \<in> set new. carries ev m)"
    and publish_sent: "publish ev w = (Inr u, w') \<Longrightarrow>
      \<exists>new m. published w' = published w @ new @ [m] \<and> carries ev m"
begin

lemma publish_sent_in: "publish ev w = (Inr u, w') \<Longrightarrow> \<exists>m \<in> set (published w'). carries ev m"
  using publish_sent by fastforce

lemma publish_keeps_sent: "publish ev w = (r, w') \<Longrightarrow> set (published w) \<subseteq> set (published w')"
  using publish_grows by fastforce

end

lemma WriteMessages_run:
  "WriteMessages env msg w = (r, w') \<Longrightarrow> db w' = db w \<and> queue w' = queue w \<and> aborted w' = aborted w \<and>
     (published w' = published w @ [msg] \<or> published w' = published w \<and> (\<exists>e. r = Inl e))"
  by (auto simp: WriteMessages_def Let_def split: option.splits prod.splits if_splits)

lemma publish_loop_run:
  "publish_loop env msg ks e w = (r, w') \<Longrightarrow> db w' = db w \<and> queue w' = queue w \<and> aborted w' = aborted w \<and>
     (\<exists>n. n \<le> length ks \<and> published w' = published w @ replicate n msg \<and> (r = Inr () \<longrightarrow> 0 < n))"
proof (induction ks arbitrary: e w)
  case Nil
  then show ?case by auto
next
  case (Cons k ks)
  obtain x w1 where a: "WriteMessages env msg w = (x, w1)" by force
  note A = WriteMessages_run [OF a]
  show ?case
  proof (cases x)
    case (Inr u)
    then have "w' = w1" "r = Inr ()" using Cons.prems a by (auto simp: and_then_def attempt_def)
    then show ?thesis using A Inr by (intro conjI exI [of _ 1]) auto
  next
    case (Inl err)
    let ?w2 = "w1\<lparr>tick := Suc (tick w1)\<rparr>"
    obtain n0 where n0: "n0 \<le> 1" "published w1 = published w @ replicate n0 msg"
      using A by (metis One_nat_def append_Nil2 le_numeral_extra(3,4) replicate_0 replicate_Suc zero_le_one)
    show ?thesis
    proof (cases "cancelled env (tick w1)")
      case True
      then have "w' = ?w2" "\<exists>e. r = Inl e"
        using Cons.prems a Inl by (auto simp: and_then_def attempt_def ctx_Err_def)
      then show ?thesis using A n0 by (intro conjI exI [of _ n0]) auto
    next
      case False
      then have "publish_loop env msg ks err ?w2 = (r, w')"
        using Cons.prems a Inl by (simp add: and_then_def attempt_def ctx_Err_def)
      from Cons.IH [OF this] obtain n where "n \<le> length ks"
        "published w' = published w1 @ replicate n msg" "r = Inr () \<longrightarrow> 0 < n"
        "db w' = db w1" "queue w' = queue w1" "aborted w' = aborted w1" by auto
      then show ?thesis
        using A n0 by (intro conjI exI [of _ "n0 + n"]) (auto simp: replicate_add)
    qed
  qed
qed

lemma kafka_Publish_run:
  assumes "kafka_Publish env event w = (r, w')"
  shows "db w' = db w \<and> queue w' = queue w \<and> aborted w' = aborted w \<and>
    (\<exists>n m. n \<le> 3 \<and> published w' = published w @ replicate n m \<and> carries event m \<and> (r = Inr () \<longrightarrow> 0 < n))"
proof -
  let ?m = "\<lparr>g_Key = Type event, g_Value = Marshal_event event, g_Time = clock env (tick w)\<rparr>"
  have run: "publish_loop env ?m [1, 2, 3] ErrNotFound (w\<lparr>tick := Suc (tick w)\<rparr>) = (r, w')"
    using assms by (simp only: kafka_Publish_def and_then_def Now_def) simp
  have "carries event ?m" by (simp add: carries_def)
  then show ?thesis using publish_loop_run [OF run] by auto
qed

interpretation kafka: publisher "kafka_Publish env" for env
proof unfold_locales
  fix ev :: DomainEvent and w w' :: "'a world" and r
  assume "kafka_Publish env ev w = (r, w')"
  note R = kafka_Publish_run [OF this]
  show "db w' = db w \<and> queue w' = queue w \<and> aborted w' = aborted w" using R by blast
  show "\<exists>new. published w' = published w @ new \<and> (\<forall>m \<in> set new. carries ev m)"
    using R by (metis in_set_replicate)
next
  fix ev :: DomainEvent and w w' :: "'a world" and u
  assume "kafka_Publish env ev w = (Inr u, w')"
  from kafka_Publish_run [OF this]
  obtain n m where "published w' = published w @ replicate n m" "carries ev m" "0 < n" by auto
  moreover from this obtain k where "n = Suc k" by (cases n) auto
  ultimately have "published w' = published w @ replicate k m @ [m]" by (simp add: replicate_append_same)
  then show "\<exists>new m. published w' = published w @ new @ [m] \<and> carries ev m"
    using \<open>carries ev m\<close> by blast
qed

section \<open>What consuming guarantees\<close>

text \<open>The events a batch of vals decodes to; the others are skipped.\<close>

definition decoded :: "json list \<Rightarrow> DomainEvent list" where
  "decoded vals = List.map_filter (\<lambda>v. case Unmarshal_event v of Inl _ \<Rightarrow> None | Inr evt \<Rightarrow> Some evt) vals"

lemma decoded_simps [simp]:
  "decoded [] = []"
  "decoded (v # vs) = (case Unmarshal_event v of Inl _ \<Rightarrow> decoded vs | Inr evt \<Rightarrow> evt # decoded vs)"
  by (simp_all add: decoded_def map_filter_simps split: sum.splits)

lemma handle_loop_returns:
  assumes "\<And>n. \<not> cancelled env n"
  shows "\<exists>b w'. handle_loop env handler evt ks w = (Inr (Some b), w')"
proof (induction ks arbitrary: w)
  case (Cons k ks)
  obtain r w1 where h: "handler evt w = (r, w1)" by force
  then show ?case
    using Cons.IH [of "w1\<lparr>tick := Suc (tick w1)\<rparr>"] assms
    by (cases r) (auto simp: and_then_def attempt_def ctx_Err_def ok_def)
qed (auto simp: ok_def intro: exI [of _ False])

lemma consume_loop_returns:
  assumes "\<And>n. \<not> cancelled env n"
  shows "\<exists>w'. consume_loop env handler (map Inr vals) w = (Inr Reading, w')"
proof (induction vals arbitrary: w)
  case (Cons v vs)
  show ?case
  proof (cases "Unmarshal_event v")
    case (Inr evt)
    obtain b w1 where "handle_loop env handler evt [1, 2, 3] w = (Inr (Some b), w1)"
      using handle_loop_returns [OF assms] by blast
    then show ?thesis using Inr Cons.IH [of w1] by (simp add: and_then_def)
  qed (simp add: Cons.IH)
qed (simp add: ok_def)

lemma consume_loop_in_order:
  assumes "\<And>evt w. \<exists>w'. handler evt w = (Inr (), w')"
  shows "consume_loop env handler (map Inr vals) = and_then (for_each handler (decoded vals)) (\<lambda>_. ok Reading)"
proof (induction vals)
  case (Cons v vs)
  show ?case
  proof (cases "Unmarshal_event v")
    case (Inr evt)
    have once: "handle_loop env handler evt [1, 2, 3] = and_then (handler evt) (\<lambda>_. ok (Some True))"
    proof
      fix w
      obtain w' where "handler evt w = (Inr (), w')" using assms by blast
      then show "handle_loop env handler evt [1, 2, 3] w = and_then (handler evt) (\<lambda>_. ok (Some True)) w"
        by (simp add: and_then_def attempt_def ok_def)
    qed
    show ?thesis using Inr Cons.IH by (simp add: once and_then_assoc del: handle_loop.simps One_nat_def)
  qed (simp add: Cons.IH)
qed simp

section \<open>Properties\<close>

text \<open>A consuming topic and an environment for the witnesses.\<close>

definition sample_topic :: KafkaTopic where
  "sample_topic = \<lparr>writer = ([''localhost:9092''], ''events''),
     reader = Some \<lparr>reader_Brokers = [''localhost:9092''], reader_Topic = ''events'', reader_Start = LastOffset,
       reader_GroupID = ''g'', reader_Partition = 0\<rparr>\<rparr>"

definition live :: env where
  "live = \<lparr>clock = (\<lambda>n. 0), fault = (\<lambda>n. None), deliver = (\<lambda>n. None), cancelled = (\<lambda>n. False),
     row_locked = (\<lambda>n i. False), row_rank = (\<lambda>n i. i), key_rank = (\<lambda>n k. 0), int_rank = (\<lambda>n m i. 0)\<rparr>"

definition blank_world :: "nat world" where
  "blank_world = \<lparr>db = \<lparr>orders = [], counters = [], staff = [], staff_skills = [], machines = [],
     recipe_steps = [], recipe_step_dependencies = [], tasks = [], task_dependencies = [], domain_events = [],
     orders_seq = 0, tasks_seq = 0, domain_events_seq = 0\<rparr>, aborted = False, queue = 0, published = [], tick = 0\<rparr>"

text \<open>
  C28: The in-memory topic is a bounded first-in-first-out channel: whatever publishers and the
  consumer do, and whether or not contexts end, the events handed to the consumer followed by
  those still buffered are exactly the events accepted, in order, and the buffer is never exceeded.
\<close>

theorem topic_fifo:
  assumes "topic_step\<^sup>*\<^sup>* (NewInMemoryTopic n, [], []) (t, sent, got)"
  shows "sent = got @ events t \<and> length (events t) \<le> buffer t"
proof -
  have "topic_inv (NewInMemoryTopic n, [], [])" by (simp add: topic_inv_def NewInMemoryTopic_def)
  from topic_run_inv [OF assms this] show ?thesis by (simp add: topic_inv_def)
qed

theorem topic_fifo_witness:
  "\<exists>t. topic_step\<^sup>*\<^sup>* (NewInMemoryTopic 1, [], []) (t, [zero_DomainEvent], []) \<and> length (events t) \<le> buffer t"
proof -
  let ?t = "\<lparr>buffer = 1, events = [zero_DomainEvent]\<rparr>"
  have "topic_step (NewInMemoryTopic 1, [], []) (?t, [] @ [zero_DomainEvent], [])"
    by (rule topic_step.publish [of None True]) (simp add: topic_Publish_def NewInMemoryTopic_def)
  then have "topic_step\<^sup>*\<^sup>* (NewInMemoryTopic 1, [], []) (?t, [zero_DomainEvent], [])" by simp
  from topic_fifo [OF this] this show ?thesis by blast
qed

text \<open>
  C27: Publishing to Kafka tries at most three times, touches neither tables nor queue, sends nothing
  but the event, and reports success only when the broker has accepted it.
\<close>

theorem kafka_publish_outcome:
  assumes "kafka_Publish env event w = (r, w')"
  shows "db w' = db w \<and> queue w' = queue w \<and>
    (\<exists>n m. n \<le> 3 \<and> published w' = published w @ replicate n m \<and> g_Key m = Type event \<and>
       g_Value m = Marshal_event event \<and> (r = Inr () \<longrightarrow> 0 < n))"
  using kafka_Publish_run [OF assms] by (auto simp: carries_def)

theorem kafka_publish_outcome_witness:
  "\<exists>w'. kafka_Publish live zero_DomainEvent blank_world = (Inr (), w') \<and> db w' = db blank_world \<and>
     published w' \<noteq> []"
proof -
  obtain w' where w': "kafka_Publish live zero_DomainEvent blank_world = (Inr (), w')"
    by (simp add: kafka_Publish_def and_then_def Now_def attempt_def WriteMessages_def live_def ok_def)
  from kafka_publish_outcome [OF this] obtain n m where "db w' = db blank_world" "0 < n"
    "published w' = published blank_world @ replicate n m" by auto
  then show ?thesis using w' by (intro exI [of _ w']) simp
qed

text \<open>
  C29: One bad message does not stop the consumer: with a reader, as long as the context is alive and
  reads succeed, it always comes back to reading, whatever the handler does: undecodable messages are
  skipped and events that cannot be handled are dropped after three attempts.
\<close>

theorem consumer_never_blocks:
  assumes "\<And>n. \<not> cancelled env n" and "reader t \<noteq> None"
  shows "\<exists>w'. kafka_Consume env t handler (map Inr vals) w = (Inr Reading, w')"
  using consume_loop_returns [OF assms(1)] assms(2) by (simp add: kafka_Consume_def)

theorem consumer_never_blocks_witness:
  "\<exists>w'. kafka_Consume live sample_topic (\<lambda>_. fail ErrNotFound) (map Inr [Marshal_event zero_DomainEvent, JBool True])
     blank_world = (Inr Reading, w')"
  by (rule consumer_never_blocks) (simp_all add: live_def sample_topic_def)

text \<open>
  C30: With a handler that succeeds, the consumer hands it every decodable event once, in the order of
  the messages.
\<close>

theorem consumer_in_order:
  assumes "\<And>evt w. \<exists>w'. handler evt w = (Inr (), w')" and "reader t \<noteq> None"
  shows "kafka_Consume env t handler (map Inr vals) = and_then (for_each handler (decoded vals)) (\<lambda>_. ok Reading)"
  using consume_loop_in_order [where handler = handler, OF assms(1)] assms(2) by (auto simp: kafka_Consume_def)

theorem consumer_in_order_witness:
  "kafka_Consume live sample_topic (\<lambda>evt (w :: nat world). (Inr (), w\<lparr>tick := Suc (tick w)\<rparr>))
     (map Inr [JBool True, Marshal_event zero_DomainEvent]) =
   and_then (for_each (\<lambda>evt w. (Inr (), w\<lparr>tick := Suc (tick w)\<rparr>)) [zero_DomainEvent]) (\<lambda>_. ok Reading)"
proof -
  have "decoded [JBool True, Marshal_event zero_DomainEvent] = [zero_DomainEvent]"
    by (simp add: Unmarshal_Marshal_event zero_DomainEvent_def int64_id)
  then show ?thesis
    using consumer_in_order [where handler = "\<lambda>evt (w :: nat world). (Inr (), w\<lparr>tick := Suc (tick w)\<rparr>)"
        and t = sample_topic and env = live and vals = "[JBool True, Marshal_event zero_DomainEvent]"]
    by (simp add: sample_topic_def)
qed

text \<open>
  The constructor accepts exactly the configurations with a broker and a topic name that is not
  blank; it makes a reader exactly when a consumer group or a partition is given, and the group wins.
\<close>

lemma kafka_topic_validation:
  "case NewKafkaTopic cfg of
     Inl e \<Rightarrow> Brokers cfg = [] \<or> TrimSpace (TopicName cfg) = []
   | Inr t \<Rightarrow> Brokers cfg \<noteq> [] \<and> TrimSpace (TopicName cfg) \<noteq> [] \<and> writer t = (Brokers cfg, TopicName cfg) \<and>
       (case reader t of
          None \<Rightarrow> TrimSpace (GroupID cfg) = [] \<and> Partition cfg < 0
        | Some r \<Rightarrow> reader_Topic r = TopicName cfg \<and>
            (if TrimSpace (GroupID cfg) \<noteq> [] then reader_GroupID r = GroupID cfg
             else reader_GroupID r = [] \<and> reader_Partition r = Partition cfg \<and> 0 \<le> Partition cfg))"
  by (auto simp: NewKafkaTopic_def Let_def)

end
