(* ===== verification/Outbox.thy ===== *)
theory Outbox imports
  EventRepo
  Messaging
  Lifecycle
begin

text \<open>
  \<open>internal/outbox/dispatcher.go\<close>: the dispatcher locks a batch of due events, publishes each and
  marks it, all in one transaction. What the broker has accepted is not rolled back with it, so an
  event may be delivered again, but none is marked as published without having been accepted.
\<close>

section \<open>The dispatcher\<close>

record Dispatcher =
  batchSize :: int
  interval :: int

definition NewDispatcher :: Dispatcher where
  "NewDispatcher = \<lparr>batchSize = 100, interval = 300 * Millisecond\<rparr>"

text \<open>\<open>attempt*attempt\<close> and the product with a second are 64-bit multiplications that wrap around.\<close>

definition backoff :: "int \<Rightarrow> int" where
  "backoff n =
     (let a = (if n < 1 then 1 else n);
          d = int64 (int64 (a * a) * Second)
      in if 5 * Minute < d then 5 * Minute else d)"

definition mark_retry :: "env \<Rightarrow> DomainEventModel \<Rightarrow> string \<Rightarrow> ('q world, unit) act" where
  "mark_retry env row errText =
     and_then (Now env) (\<lambda>t.
     and_then (attempt (MarkOutboxRetry env (e_ID row) errText (t + backoff (e_Attempts row + 1)))) (\<lambda>_.
     ok ()))"

definition dispatch_row ::
  "env \<Rightarrow> (DomainEvent \<Rightarrow> ('q world, unit) act) \<Rightarrow> DomainEventModel \<Rightarrow> ('q world, unit) act" where
  "dispatch_row env publish row =
     (case Unmarshal_event (e_Payload row) of
        Inl _ \<Rightarrow> mark_retry env row ''invalid event payload''
      | Inr evt \<Rightarrow>
          and_then (attempt (publish evt)) (\<lambda>r.
          case r of
            Inl e \<Rightarrow> mark_retry env row (error_text e)
          | Inr _ \<Rightarrow> and_then (Now env) (\<lambda>t. MarkOutboxPublished env (e_ID row) t)))"

definition DispatchOnce ::
  "env \<Rightarrow> Dispatcher \<Rightarrow> (DomainEvent \<Rightarrow> ('q world, unit) act) \<Rightarrow> ('q world, unit) act" where
  "DispatchOnce env d publish =
     and_then (Now env) (\<lambda>now.
     transaction env (
       and_then (LockPendingOutboxEvents env now (batchSize d)) (\<lambda>rows.
       for_each (dispatch_row env publish) rows)))"

text \<open>The loop of \<open>Run\<close> over a number of ticks: an error of a round is logged, nothing else.\<close>

fun dispatcher_Run ::
  "env \<Rightarrow> Dispatcher \<Rightarrow> (DomainEvent \<Rightarrow> ('q world, unit) act) \<Rightarrow> nat \<Rightarrow> ('q world, unit) act" where
  "dispatcher_Run env d publish 0 = ok ()"
| "dispatcher_Run env d publish (Suc n) =
     and_then (attempt (DispatchOnce env d publish)) (\<lambda>_. dispatcher_Run env d publish n)"

section \<open>Backoff\<close>

lemma backoff_small:
  assumes "1 \<le> n" and "n \<le> 96038"
  shows "backoff n = min (n * n) 300 * Second"
proof -
  have sq: "n * n \<le> 96038 * 96038" using assms by (intro mult_mono) auto
  have "0 < n * n" using assms by simp
  then have "int64 (n * n) = n * n" using sq by (intro int64_id) auto
  moreover have "int64 (n * n * Second) = n * n * Second"
    using sq \<open>0 < n * n\<close> by (intro int64_id) (auto simp: Second_def)
  ultimately show ?thesis using assms by (simp add: backoff_def Let_def Minute_def Second_def min_def)
qed

text \<open>
  From attempt 96039 on the product can overflow: that very attempt has a negative delay. The failed
  attempts of an event are counted without a limit.
\<close>

lemma backoff_overflows: "backoff 96039 < 0"
  by (simp add: backoff_def Let_def int64_def Second_def Minute_def)

section \<open>Published means accepted\<close>

text \<open>
  Every event marked as published was accepted by the broker. The predicate is kept whatever
  happens: a roll-back only unmarks events, and the broker forgets nothing.
\<close>

definition delivered :: "DomainEventModel \<Rightarrow> Message list \<Rightarrow> bool" where
  "delivered e msgs \<longleftrightarrow> (\<exists>ev. Unmarshal_event (e_Payload e) = Inr ev \<and> (\<exists>m \<in> set msgs. carries ev m))"

definition outbox_ok :: "DomainEventModel list \<Rightarrow> Message list \<Rightarrow> bool" where
  "outbox_ok es msgs \<longleftrightarrow> distinct (map e_ID es) \<and> (\<forall>e \<in> set es. e_PublishedAt e \<noteq> None \<longrightarrow> delivered e msgs)"

lemma outbox_ok_mono: "outbox_ok es msgs \<Longrightarrow> set msgs \<subseteq> set msgs' \<Longrightarrow> outbox_ok es msgs'"
  unfolding outbox_ok_def delivered_def by blast

text \<open>Rows are never removed, and their identity, payload and publication are permanent.\<close>

definition same_event :: "DomainEventModel \<Rightarrow> DomainEventModel \<Rightarrow> bool" where
  "same_event e e' \<longleftrightarrow> e_ID e' = e_ID e \<and> e_EventType e' = e_EventType e \<and> e_AggregateID e' = e_AggregateID e \<and>
     e_Payload e' = e_Payload e \<and> (e_PublishedAt e \<noteq> None \<longrightarrow> e_PublishedAt e' \<noteq> None)"

definition events_kept :: "DomainEventModel list \<Rightarrow> DomainEventModel list \<Rightarrow> bool" where
  "events_kept es es' \<longleftrightarrow> list_all2 same_event es es'"

lemma events_kept_refl [simp]: "events_kept es es"
  by (simp add: events_kept_def same_event_def list_all2_same)

lemma events_kept_trans: "events_kept a b \<Longrightarrow> events_kept b c \<Longrightarrow> events_kept a c"
  unfolding events_kept_def by (rule list_all2_trans [of same_event same_event]) (auto simp: same_event_def)

text \<open>A statement of the dispatcher touches the outbox only.\<close>

definition only_events :: "database \<Rightarrow> database \<Rightarrow> bool" where
  "only_events d d' \<longleftrightarrow> d' = d\<lparr>domain_events := domain_events d'\<rparr>"

lemma only_events_refl [simp]: "only_events d d"
  by (simp add: only_events_def)

lemma only_events_trans: "only_events a b \<Longrightarrow> only_events b c \<Longrightarrow> only_events a c"
  by (metis (no_types, lifting) database.surjective database.update_convs(10) only_events_def)

lemma only_events_core: "only_events d d' \<Longrightarrow> same_core d d'"
  unfolding only_events_def same_core_def
  by (metis database.select_convs database.surjective database.update_convs(10))

lemma tx_modify_outcome:
  assumes "tx_statement env (modify f) w = (r, w')"
  shows "queue w' = queue w \<and> published w' = published w \<and>
    (db w' = db w \<and> (\<exists>e. r = Inl e) \<or> (\<exists>n. f n (db w) = Inr (db w')))"
proof (cases "aborted w")
  case True
  then show ?thesis using assms by (auto simp: tx_statement_def)
next
  case False
  obtain q v where s: "statement env (modify f) w = (q, v)" by force
  have w': "db w' = db v" "queue w' = queue v" "published w' = published v" "(\<exists>e. q = Inl e) \<Longrightarrow> \<exists>e. r = Inl e"
    using assms False s by (auto simp: tx_statement_def split: sum.splits)
  from s show ?thesis
    by (cases rule: statement_outcome) (use w' in \<open>auto simp: modify_def split: sum.splits\<close>)
qed

lemma tx_query_any:
  assumes "tx_statement env (query f) w = (r, w')"
  shows "db w' = db w" "queue w' = queue w" "published w' = published w"
proof -
  have st: "db v = db w \<and> queue v = queue w \<and> published v = published w"
    if "statement env (query f) w = (q, v)" for q v
    using that by (cases rule: statement_outcome) auto
  then show "db w' = db w" "queue w' = queue w" "published w' = published w"
    using assms by (auto simp: tx_statement_def split: if_splits prod.splits sum.splits)
qed

lemma update_events_map:
  assumes "update_events P f d = Inr d'" and "\<And>e e'. P e \<Longrightarrow> f e = Inr e' \<Longrightarrow> same_event e e'"
  shows "only_events d d'" and "events_kept (domain_events d) (domain_events d')"
    and "list_all2 (\<lambda>e e'. if P e then f e = Inr e' else e' = e) (domain_events d) (domain_events d')"
proof -
  obtain es where es: "sql_update P f (domain_events d) = Inr es" "d' = d\<lparr>domain_events := es\<rparr>"
    using assms(1) by (auto simp: update_events_def)
  then show "only_events d d'" by (simp add: only_events_def)
  show l: "list_all2 (\<lambda>e e'. if P e then f e = Inr e' else e' = e) (domain_events d) (domain_events d')"
    using es by (simp add: sql_update_Inr)
  show "events_kept (domain_events d) (domain_events d')"
    unfolding events_kept_def using l
    by (rule list_all2_mono) (auto simp: same_event_def split: if_splits dest: assms(2))
qed

lemma MarkOutboxRetry_outcome:
  assumes "MarkOutboxRetry env i txt t w = (r, w')"
  shows "queue w' = queue w \<and> published w' = published w \<and> only_events (db w) (db w') \<and>
    events_kept (domain_events (db w)) (domain_events (db w')) \<and>
    (outbox_ok (domain_events (db w)) msgs \<longrightarrow> outbox_ok (domain_events (db w')) msgs)"
proof -
  let ?f = "\<lambda>e. map_sum_right (\<lambda>a. e\<lparr>e_Attempts := a, e_LastError := Some txt, e_NextRetryAt := Some t\<rparr>)
              (int4 (e_Attempts e + 1))"
  have out: "queue w' = queue w \<and> published w' = published w \<and>
      (db w' = db w \<or> update_events (\<lambda>e. e_ID e = i) ?f (db w) = Inr (db w'))"
    using tx_modify_outcome [OF assms [unfolded MarkOutboxRetry_def]] by blast
  have "only_events (db w) (db w') \<and> events_kept (domain_events (db w)) (domain_events (db w')) \<and>
    (outbox_ok (domain_events (db w)) msgs \<longrightarrow> outbox_ok (domain_events (db w')) msgs)"
  proof (cases "db w' = db w")
    case False
    then have u: "update_events (\<lambda>e. e_ID e = i) ?f (db w) = Inr (db w')" using out by blast
    note U = update_events_map [OF u]
    have same: "e_ID e' = e_ID e \<and> e_Payload e' = e_Payload e \<and> e_PublishedAt e' = e_PublishedAt e"
      if "if e_ID e = i then ?f e = Inr e' else e' = e" for e e'
      using that by (auto split: if_splits)
    have l: "list_all2 (\<lambda>e e'. if e_ID e = i then ?f e = Inr e' else e' = e) (domain_events (db w)) (domain_events (db w'))"
      by (rule U(3)) (auto simp: same_event_def)
    have "map e_ID (domain_events (db w')) = map e_ID (domain_events (db w))"
      using l by (induction rule: list_all2_induct) (auto dest: same)
    moreover have "\<exists>e \<in> set (domain_events (db w)). e_Payload e' = e_Payload e \<and> e_PublishedAt e' = e_PublishedAt e"
      if "e' \<in> set (domain_events (db w'))" for e'
      using list_all2_source [OF l that] same by blast
    ultimately have "outbox_ok (domain_events (db w)) msgs \<longrightarrow> outbox_ok (domain_events (db w')) msgs"
      unfolding outbox_ok_def delivered_def by metis
    moreover have "only_events (db w) (db w')" "events_kept (domain_events (db w)) (domain_events (db w'))"
      by (rule U, auto simp: same_event_def)+
    ultimately show ?thesis by blast
  qed simp
  then show ?thesis using out by blast
qed

lemma MarkOutboxPublished_outcome:
  assumes "MarkOutboxPublished env i t w = (r, w')"
  shows "queue w' = queue w \<and> published w' = published w \<and> only_events (db w) (db w') \<and>
    events_kept (domain_events (db w)) (domain_events (db w')) \<and>
    ((\<forall>e \<in> set (domain_events (db w)). e_ID e = i \<longrightarrow> delivered e msgs) \<longrightarrow>
     outbox_ok (domain_events (db w)) msgs \<longrightarrow> outbox_ok (domain_events (db w')) msgs)"
proof -
  let ?f = "\<lambda>e. Inr (e\<lparr>e_PublishedAt := Some t, e_LastError := None, e_NextRetryAt := None\<rparr>) ::
    error + DomainEventModel"
  have out: "queue w' = queue w \<and> published w' = published w \<and>
      (db w' = db w \<or> update_events (\<lambda>e. e_ID e = i) ?f (db w) = Inr (db w'))"
    using tx_modify_outcome [OF assms [unfolded MarkOutboxPublished_def]] by blast
  have "only_events (db w) (db w') \<and> events_kept (domain_events (db w)) (domain_events (db w')) \<and>
    ((\<forall>e \<in> set (domain_events (db w)). e_ID e = i \<longrightarrow> delivered e msgs) \<longrightarrow>
     outbox_ok (domain_events (db w)) msgs \<longrightarrow> outbox_ok (domain_events (db w')) msgs)"
  proof (cases "db w' = db w")
    case False
    then have u: "update_events (\<lambda>e. e_ID e = i) ?f (db w) = Inr (db w')" using out by blast
    note U = update_events_map [OF u]
    have l: "list_all2 (\<lambda>e e'. if e_ID e = i then ?f e = Inr e' else e' = e) (domain_events (db w)) (domain_events (db w'))"
      by (rule U(3)) (auto simp: same_event_def)
    have "map e_ID (domain_events (db w')) = map e_ID (domain_events (db w))"
      using l by (induction rule: list_all2_induct) (auto split: if_splits)
    moreover have "\<exists>e \<in> set (domain_events (db w)). e_Payload e' = e_Payload e \<and>
        (e_PublishedAt e' = e_PublishedAt e \<or> e_ID e = i)" if "e' \<in> set (domain_events (db w'))" for e'
      using list_all2_source [OF l that] by (auto split: if_splits intro: bexI)
    ultimately have "(\<forall>e \<in> set (domain_events (db w)). e_ID e = i \<longrightarrow> delivered e msgs) \<longrightarrow>
        outbox_ok (domain_events (db w)) msgs \<longrightarrow> outbox_ok (domain_events (db w')) msgs"
      unfolding outbox_ok_def delivered_def by metis
    moreover have "only_events (db w) (db w')" "events_kept (domain_events (db w)) (domain_events (db w'))"
      by (rule U, auto simp: same_event_def)+
    ultimately show ?thesis by blast
  qed simp
  then show ?thesis using out by blast
qed

text \<open>What a round may do to the world, from any state.\<close>

definition outbox_step :: "'q world \<Rightarrow> 'q world \<Rightarrow> bool" where
  "outbox_step w w' \<longleftrightarrow> queue w' = queue w \<and> only_events (db w) (db w') \<and>
     events_kept (domain_events (db w)) (domain_events (db w')) \<and> set (published w) \<subseteq> set (published w') \<and>
     (outbox_ok (domain_events (db w)) (published w) \<longrightarrow> outbox_ok (domain_events (db w')) (published w'))"

lemma outbox_step_refl: "db w' = db w \<Longrightarrow> queue w' = queue w \<Longrightarrow> published w' = published w \<Longrightarrow> outbox_step w w'"
  by (simp add: outbox_step_def)

lemma outbox_step_trans: "outbox_step a b \<Longrightarrow> outbox_step b c \<Longrightarrow> outbox_step a c"
  unfolding outbox_step_def using only_events_trans events_kept_trans by (metis subset_trans)

lemma mark_retry_step:
  assumes "mark_retry env row txt w = (r, w')"
  shows "outbox_step w w' \<and> r = Inr ()"
proof -
  let ?w = "w\<lparr>tick := Suc (tick w)\<rparr>"
  obtain x v where m: "MarkOutboxRetry env (e_ID row) txt (clock env (tick w) + backoff (e_Attempts row + 1)) ?w = (x, v)"
    by force
  then have "w' = v \<and> r = Inr ()"
    using assms by (auto simp: mark_retry_def and_then_def Now_def attempt_def ok_def)
  then show ?thesis
    using MarkOutboxRetry_outcome [OF m, of "published w"] by (simp add: outbox_step_def)
qed

context publisher
begin

lemma dispatch_row_step:
  assumes "dispatch_row env publish row w = (r, w')"
    and row: "\<forall>e \<in> set (domain_events (db w)). e_ID e = e_ID row \<longrightarrow> e_Payload e = e_Payload row"
  shows "outbox_step w w'"
proof (cases "Unmarshal_event (e_Payload row)")
  case (Inl e)
  then have "mark_retry env row ''invalid event payload'' w = (r, w')" using assms(1) by (simp add: dispatch_row_def)
  then show ?thesis using mark_retry_step by blast
next
  case (Inr evt)
  obtain x w1 where p: "publish evt w = (x, w1)" by force
  have same: "db w1 = db w" "queue w1 = queue w" and grows: "set (published w) \<subseteq> set (published w1)"
    using publish_frame [OF p] publish_keeps_sent [OF p] by auto
  have first: "outbox_step w w1"
    using same grows by (simp add: outbox_step_def outbox_ok_mono)
  show ?thesis
  proof (cases x)
    case (Inl e)
    then have "mark_retry env row (error_text e) w1 = (r, w')"
      using assms(1) p Inr by (simp add: dispatch_row_def and_then_def attempt_def)
    then show ?thesis using mark_retry_step first outbox_step_trans by blast
  next
    case sent: (Inr u)
    let ?w = "w1\<lparr>tick := Suc (tick w1)\<rparr>"
    have m: "MarkOutboxPublished env (e_ID row) (clock env (tick w1)) ?w = (r, w')"
      using assms(1) p Inr sent by (simp add: dispatch_row_def and_then_def attempt_def Now_def)
    have "\<exists>msg \<in> set (published w1). carries evt msg" using publish_sent_in p sent by blast
    then have "delivered e (published w1)" if "e \<in> set (domain_events (db w))" "e_ID e = e_ID row" for e
      using row that Inr by (auto simp: delivered_def)
    then show ?thesis
      using MarkOutboxPublished_outcome [OF m, of "published w1"] same grows outbox_ok_mono [OF _ grows]
      by (auto simp: outbox_step_def)
  qed
qed

lemma dispatch_rows_step:
  assumes "for_each (dispatch_row env publish) rows w = (r, w')"
    and "\<forall>row \<in> set rows. \<forall>e \<in> set (domain_events (db w)). e_ID e = e_ID row \<longrightarrow> e_Payload e = e_Payload row"
  shows "outbox_step w w'"
  using assms
proof (induction rows arbitrary: w)
  case Nil
  then show ?case by (simp add: outbox_step_refl)
next
  case (Cons row rows)
  obtain x w1 where one: "dispatch_row env publish row w = (x, w1)" by force
  have step: "outbox_step w w1" 
    by (rule dispatch_row_step [OF one]) (use Cons.prems(2) in \<open>meson list.set_intros(1)\<close>)
  have kept: "events_kept (domain_events (db w)) (domain_events (db w1))" using step by (simp add: outbox_step_def)
  have "\<forall>row \<in> set rows. \<forall>e \<in> set (domain_events (db w1)). e_ID e = e_ID row \<longrightarrow> e_Payload e = e_Payload row"
  proof (intro ballI impI)
    fix q e assume q: "q \<in> set rows" and e: "e \<in> set (domain_events (db w1))" "e_ID e = e_ID q"
    obtain e0 where "e0 \<in> set (domain_events (db w))" "same_event e0 e"
      using list_all2_source [OF kept [unfolded events_kept_def] e(1)] by blast
    then show "e_Payload e = e_Payload q"
      using Cons.prems(2) q e(2) unfolding same_event_def by (metis list.set_intros(2))
  qed
  note rest = this
  have "for_each (dispatch_row env publish) rows w1 = (r, w')" if "\<exists>u. x = Inr u"
    using that Cons.prems(1) one by (auto simp: and_then_def)
  moreover have "w' = w1" if "\<nexists>u. x = Inr u"
    using that Cons.prems(1) one by (cases x) (auto simp: and_then_def)
  ultimately consider "w' = w1" | "for_each (dispatch_row env publish) rows w1 = (r, w')" by blast
  then show ?case using Cons.IH [OF _ rest] step outbox_step_trans by cases blast+
qed

text \<open>A round of the dispatcher: rows are only published with a message, and nothing is lost.\<close>

lemma DispatchOnce_step:
  assumes "DispatchOnce env d publish w = (r, w')" and ok: "distinct (map e_ID (domain_events (db w)))"
  shows "queue w' = queue w \<and> same_core (db w) (db w') \<and>
    events_kept (domain_events (db w)) (domain_events (db w')) \<and> set (published w) \<subseteq> set (published w') \<and>
    (outbox_ok (domain_events (db w)) (published w) \<longrightarrow> outbox_ok (domain_events (db w')) (published w'))"
proof -
  let ?now = "clock env (tick w)"
  define body where "body = and_then (LockPendingOutboxEvents env ?now (batchSize d))
      (\<lambda>rows. for_each (dispatch_row env publish) rows)"
  have tr: "transaction env body (w\<lparr>tick := Suc (tick w)\<rparr>) = (r, w')"
    using assms(1) by (simp add: DispatchOnce_def and_then_def Now_def body_def)
  have step: "outbox_step v v'" if b: "body v = (x, v')" and v: "db v = db w" for x v v'
  proof -
    obtain y v1 where l: "LockPendingOutboxEvents env ?now (batchSize d) v = (y, v1)" by force
    have q: "\<exists>f. tx_statement env (query f) v = (y, v1)"
      using l unfolding LockPendingOutboxEvents_def Let_def by blast
    then have v1: "db v1 = db v" "queue v1 = queue v" "published v1 = published v"
      using tx_query_any by blast+
    show ?thesis
    proof (cases y)
      case (Inl e)
      then have "v' = v1" using b l by (auto simp: body_def and_then_def)
      then show ?thesis using v1 by (simp add: outbox_step_refl)
    next
      case (Inr rows)
      have "set rows \<subseteq> set (domain_events (db w))"
        using l Inr v unfolding LockPendingOutboxEvents_def Let_def
        by (auto dest!: tx_query_Inr in_set_takeD)
      then have "\<forall>row \<in> set rows. \<forall>e \<in> set (domain_events (db v1)). e_ID e = e_ID row \<longrightarrow> e_Payload e = e_Payload row"
        using v1(1) v distinct_key_eq [OF ok] by (metis subsetD)
      moreover have "for_each (dispatch_row env publish) rows v1 = (x, v')"
        using b l Inr by (simp add: body_def and_then_def)
      ultimately have "outbox_step v1 v'" using dispatch_rows_step by blast
      then show ?thesis using v1 outbox_step_refl outbox_step_trans by blast
    qed
  qed
  from tr show ?thesis
  proof (cases rule: transaction_outcome)
    case not_begun
    then show ?thesis by (simp add: same_tables_core same_tables_eqs)
  next
    case (committed x w1)
    then show ?thesis using step [OF committed(1)] by (simp add: outbox_step_def only_events_core)
  next
    case (rolled_back q w1)
    then show ?thesis
      using step [OF rolled_back(1)]
      by (auto simp: outbox_step_def same_tables_core same_tables_eqs intro: outbox_ok_mono)
  qed
qed

end

section \<open>A healthy round\<close>

text \<open>
  Nothing fails, nothing is locked, the broker accepts: every due event of the batch is published,
  in the order of its ids, and marked.
\<close>

definition healthy :: "env \<Rightarrow> bool" where
  "healthy env \<longleftrightarrow> (\<forall>n. fault env n = None \<and> deliver env n = None) \<and> (\<forall>n i. \<not> row_locked env n i)"

definition event_of :: "DomainEventModel \<Rightarrow> DomainEvent" where
  "event_of e = (case Unmarshal_event (e_Payload e) of Inl _ \<Rightarrow> zero_DomainEvent | Inr ev \<Rightarrow> ev)"

definition mark_row :: "int \<Rightarrow> DomainEventModel \<Rightarrow> DomainEventModel" where
  "mark_row t e = e\<lparr>e_PublishedAt := Some t, e_LastError := None, e_NextRetryAt := None\<rparr>"

lemma mark_row_simps [simp]: "e_ID (mark_row t e) = e_ID e" "mark_row t (mark_row u e) = mark_row t e"
  by (simp_all add: mark_row_def)

definition message_of :: "DomainEventModel \<Rightarrow> Message \<Rightarrow> bool" where
  "message_of e m \<longleftrightarrow> g_Key m = Type (event_of e) \<and> g_Value m = Marshal_event (event_of e)"

lemma update_events_mark:
  "update_events P (\<lambda>e. Inr (mark_row t e)) d = Inr (d\<lparr>domain_events := map_where P (mark_row t) (domain_events d)\<rparr>)"
  by (simp add: update_events_def sql_update_pure map_where_def)

lemma publish_healthy:
  assumes "healthy env"
  shows "kafka_Publish env ev w = (Inr (), w\<lparr>tick := tick w + 2, published := published w @
    [\<lparr>g_Key = Type ev, g_Value = Marshal_event ev, g_Time = clock env (tick w)\<rparr>]\<rparr>)"
  using assms by (simp add: healthy_def kafka_Publish_def and_then_def Now_def attempt_def WriteMessages_def ok_def)

lemma dispatch_row_healthy:
  assumes "healthy env" and "\<not> aborted w" and "Unmarshal_event (e_Payload row) = Inr ev"
  shows "\<exists>w' t m. dispatch_row env (kafka_Publish env) row w = (Inr (), w') \<and> \<not> aborted w' \<and> tick w \<le> tick w' \<and> queue w' = queue w \<and>
    published w' = published w @ [m] \<and> message_of row m \<and>
    db w' = (db w)\<lparr>domain_events := map_where (\<lambda>e. e_ID e = e_ID row) (mark_row t) (domain_events (db w))\<rparr>"
proof -
  have f: "fault env n = None" for n using assms(1) by (simp add: healthy_def)
  let ?t = "clock env (Suc (Suc (tick w)))"
  have m: "MarkOutboxPublished env (e_ID row) ?t v =
      (Inr (), v\<lparr>tick := Suc (tick v), db := (db v)\<lparr>domain_events :=
        map_where (\<lambda>e. e_ID e = e_ID row) (mark_row ?t) (domain_events (db v))\<rparr>\<rparr>)" if "\<not> aborted v" for v
    using that f
    by (simp add: MarkOutboxPublished_def tx_statement_def statement_def modify_def mark_row_def [symmetric]
        update_events_mark)
  show ?thesis
    using assms(2,3) f
    by (simp add: dispatch_row_def and_then_def attempt_def publish_healthy [OF assms(1)] Now_def m
        message_of_def event_of_def) (rule exI, rule refl)
qed

lemma dispatch_rows_healthy:
  assumes "healthy env" and "\<not> aborted w" and "\<forall>row \<in> set rows. \<exists>ev. Unmarshal_event (e_Payload row) = Inr ev"
  shows "\<exists>w' ms. for_each (dispatch_row env (kafka_Publish env)) rows w = (Inr (), w') \<and> \<not> aborted w' \<and>
    tick w \<le> tick w' \<and> queue w' = queue w \<and> published w' = published w @ ms \<and> list_all2 message_of rows ms \<and>
    only_events (db w) (db w') \<and>
    list_all2 (\<lambda>e e'. if e_ID e \<in> e_ID ` set rows then \<exists>t. e' = mark_row t e else e' = e)
      (domain_events (db w)) (domain_events (db w'))"
  using assms(2,3)
proof (induction rows arbitrary: w)
  case Nil
  then show ?case by (simp add: ok_def list_all2_same)
next
  case (Cons row rows)
  obtain ev where "Unmarshal_event (e_Payload row) = Inr ev" using Cons.prems(2) by auto
  from dispatch_row_healthy [OF assms(1) Cons.prems(1) this]
  obtain w1 t m where one: "dispatch_row env (kafka_Publish env) row w = (Inr (), w1)" "\<not> aborted w1" "tick w \<le> tick w1"
    "queue w1 = queue w" "published w1 = published w @ [m]" "message_of row m"
    "db w1 = (db w)\<lparr>domain_events := map_where (\<lambda>e. e_ID e = e_ID row) (mark_row t) (domain_events (db w))\<rparr>"
    by blast
  obtain w' ms where rest: "for_each (dispatch_row env (kafka_Publish env)) rows w1 = (Inr (), w')" "\<not> aborted w'" "tick w1 \<le> tick w'"
    "queue w' = queue w1" "published w' = published w1 @ ms" "list_all2 message_of rows ms"
    "only_events (db w1) (db w')"
    "list_all2 (\<lambda>e e'. if e_ID e \<in> e_ID ` set rows then \<exists>t. e' = mark_row t e else e' = e)
      (domain_events (db w1)) (domain_events (db w'))"
    using Cons.IH [OF one(2)] Cons.prems(2) by auto
  have "list_all2 (\<lambda>e e'. e' = (if e_ID e = e_ID row then mark_row t e else e)) (domain_events (db w)) (domain_events (db w1))"
    by (simp add: one(7) map_where_def list_all2_conv_all_nth)
  then have "list_all2 (\<lambda>e e'. if e_ID e \<in> e_ID ` set (row # rows) then \<exists>t. e' = mark_row t e else e' = e)
      (domain_events (db w)) (domain_events (db w'))"
    using rest(8)
  proof (rule list_all2_trans [rotated])
    fix e e1 e2
    assume e1: "e1 = (if e_ID e = e_ID row then mark_row t e else e)"
      and e2: "if e_ID e1 \<in> e_ID ` set rows then \<exists>t. e2 = mark_row t e1 else e2 = e1"
    show "if e_ID e \<in> e_ID ` set (row # rows) then \<exists>t. e2 = mark_row t e else e2 = e"
    proof (cases "e_ID e = e_ID row")
      case True
      then show ?thesis using e1 e2 by (cases "e_ID row \<in> e_ID ` set rows") auto
    next
      case False
      then show ?thesis using e1 e2 by (cases "e_ID e \<in> e_ID ` set rows") auto
    qed
  qed
  moreover have "only_events (db w) (db w1)" by (simp add: only_events_def one(7))
  then have "only_events (db w) (db w')" using rest(7) by (rule only_events_trans)
  moreover have "for_each (dispatch_row env (kafka_Publish env)) (row # rows) w = (Inr (), w')"
    using one(1) rest(1) by (simp add: and_then_def)
  ultimately show ?case using one rest by (intro exI [of _ w'] exI [of _ "m # ms"]) auto
qed

text \<open>The batch of a round.\<close>

definition due_batch :: "Dispatcher \<Rightarrow> int \<Rightarrow> database \<Rightarrow> DomainEventModel list" where
  "due_batch d now dt = take (nat (batchSize d)) (sort_key e_ID (filter (due now) (domain_events dt)))"

lemma DispatchOnce_healthy:
  assumes "healthy env" and "0 < batchSize d" and "\<forall>e \<in> set (domain_events (db w)). \<exists>ev. Unmarshal_event (e_Payload e) = Inr ev"
  defines "batch \<equiv> due_batch d (clock env (tick w)) (db w)"
  shows "\<exists>w' ms. DispatchOnce env d (kafka_Publish env) w = (Inr (), w') \<and> tick w \<le> tick w' \<and> queue w' = queue w \<and>
    published w' = published w @ ms \<and> list_all2 message_of batch ms \<and> only_events (db w) (db w') \<and>
    list_all2 (\<lambda>e e'. if e_ID e \<in> e_ID ` set batch then \<exists>t. e' = mark_row t e else e' = e)
      (domain_events (db w)) (domain_events (db w'))"
proof -
  have f: "fault env n = None" for n using assms(1) by (simp add: healthy_def)
  let ?w0 = "w\<lparr>tick := Suc (Suc (tick w)), aborted := False\<rparr>"
  let ?w1 = "w\<lparr>tick := Suc (Suc (Suc (tick w))), aborted := False\<rparr>"
  have l: "LockPendingOutboxEvents env (clock env (tick w)) (batchSize d) ?w0 = (Inr batch, ?w1)"
    using assms(1,2)
    by (simp add: LockPendingOutboxEvents_def tx_statement_def statement_def query_def healthy_def batch_def due_batch_def)
  have "\<forall>row \<in> set batch. \<exists>ev. Unmarshal_event (e_Payload row) = Inr ev"
    using assms(3) by (auto simp: batch_def due_batch_def dest!: in_set_takeD)
  then obtain w2 ms where r: "for_each (dispatch_row env (kafka_Publish env)) batch ?w1 = (Inr (), w2)" "\<not> aborted w2" "tick w \<le> tick w2"
    "queue w2 = queue w" "published w2 = published w @ ms" "list_all2 message_of batch ms" "only_events (db w) (db w2)"
    "list_all2 (\<lambda>e e'. if e_ID e \<in> e_ID ` set batch then \<exists>t. e' = mark_row t e else e' = e)
      (domain_events (db w)) (domain_events (db w2))"
    using dispatch_rows_healthy [OF assms(1), of ?w1 batch] by auto
  have "DispatchOnce env d (kafka_Publish env) w = (Inr (), w2\<lparr>tick := Suc (tick w2)\<rparr>)"
    using l r(1,2) f by (simp add: DispatchOnce_def and_then_def Now_def transaction_def)
  then show ?thesis using r by (intro exI [of _ "w2\<lparr>tick := Suc (tick w2)\<rparr>"] exI [of _ ms]) simp
qed

section \<open>Properties\<close>

text \<open>
  C24: The delay before the retry of a failed event is min(n*n, 300) seconds for every attempt up to
  96038, without overflow, and the bound is sharp: attempt 96039 overflows to a negative delay.
\<close>

theorem backoff_exact:
  assumes "1 \<le> n" and "n \<le> 96038"
  shows "backoff n = min (n * n) 300 * Second \<and> backoff 96039 < 0"
  using backoff_small [OF assms] backoff_overflows by simp

theorem backoff_exact_witness: "backoff 7 = 49 * Second \<and> backoff 96038 = 300 * Second"
  using backoff_exact [of 7] backoff_exact [of 96038] by simp

text \<open>
  C16: A healthy round of the dispatcher succeeds, publishes exactly the due events of its batch in the
  order of their ids, one message each, marks exactly those as published and touches nothing else.
\<close>

theorem healthy_round_publishes_batch:
  assumes "healthy env" and "0 < batchSize d"
    and "\<forall>e \<in> set (domain_events (db w)). \<exists>ev. Unmarshal_event (e_Payload e) = Inr ev"
  shows "\<exists>w' ms. DispatchOnce env d (kafka_Publish env) w = (Inr (), w') \<and> queue w' = queue w \<and>
    published w' = published w @ ms \<and>
    list_all2 message_of (due_batch d (clock env (tick w)) (db w)) ms \<and>
    db w' = (db w)\<lparr>domain_events := domain_events (db w')\<rparr> \<and>
    list_all2 (\<lambda>e e'. if e_ID e \<in> e_ID ` set (due_batch d (clock env (tick w)) (db w)) then \<exists>t. e' = mark_row t e else e' = e)
      (domain_events (db w)) (domain_events (db w'))"
  using DispatchOnce_healthy [OF assms] unfolding only_events_def by blast

definition outbox_world :: "nat world" where
  "outbox_world = blank_world\<lparr>db := (db blank_world)\<lparr>domain_events :=
     [event_row 2 ''task'' ''7'' zero_DomainEvent 0, event_row 1 ''task'' ''7'' zero_DomainEvent 0]\<rparr>\<rparr>"

theorem healthy_round_publishes_batch_witness:
  "\<exists>w' ms. DispatchOnce live NewDispatcher (kafka_Publish live) outbox_world = (Inr (), w') \<and>
     published w' = ms \<and> length ms = 2"
proof -
  have h: "healthy live" "0 < batchSize NewDispatcher" by (simp_all add: healthy_def live_def NewDispatcher_def)
  have dec: "\<forall>e \<in> set (domain_events (db outbox_world)). \<exists>ev. Unmarshal_event (e_Payload e) = Inr ev"
    by (simp add: outbox_world_def event_row_def Unmarshal_Marshal_event zero_DomainEvent_def int64_id)
  have "length (due_batch NewDispatcher (clock live (tick outbox_world)) (db outbox_world)) = 2"
    by (simp add: due_batch_def NewDispatcher_def outbox_world_def due_def event_row_def)
  then show ?thesis
    using healthy_round_publishes_batch [OF h dec] by (auto simp: outbox_world_def blank_world_def dest: list_all2_lengthD)
qed

end
