(* ===== verification/OutboxFrame.thy ===== *)
theory OutboxFrame imports
  OrderRefinement
  Outbox
begin

text \<open>
  The other services only append to the outbox: whatever an operation does, and whether its
  transaction commits or not, every event marked as published stays one the broker has accepted.
\<close>

definition outbox_at :: "Message list \<Rightarrow> 'q world \<Rightarrow> bool" where
  "outbox_at msgs w \<longleftrightarrow> published w = msgs \<and> outbox_ok (domain_events (db w)) msgs"

text \<open>A statement is good for the outbox when it takes a good table to a good one.\<close>

definition outbox_stmt :: "'a stmt \<Rightarrow> bool" where
  "outbox_stmt body \<longleftrightarrow> (\<forall>n d msgs. outbox_ok (domain_events d) msgs \<longrightarrow>
     outbox_ok (domain_events (snd (body n d))) msgs)"

named_theorems outbox_intros \<open>operations that keep the outbox\<close>

lemma outbox_statement [outbox_intros]: "outbox_stmt body \<Longrightarrow> keeps (outbox_at msgs) (statement env body)"
  by (auto simp: keeps_def outbox_at_def outbox_stmt_def statement_def Let_def
      split: option.splits prod.splits if_splits; metis snd_conv)

lemma outbox_tx [outbox_intros]:
  assumes "outbox_stmt body"
  shows "keeps (outbox_at msgs) (tx_statement env body)"
proof (rule keepsI)
  fix w r w' assume ok: "outbox_at msgs w" and run: "tx_statement env body w = (r, w')"
  obtain x v where s: "statement env body w = (x, v)" by force
  have "outbox_at msgs v" using keepsD [OF outbox_statement [OF assms] ok s] .
  then show "outbox_at msgs w'"
    using run s ok by (auto simp: tx_statement_def outbox_at_def split: if_splits sum.splits)
qed

lemma outbox_query [outbox_intros]: "outbox_stmt (query f)"
  by (simp add: outbox_stmt_def query_def)

lemma outbox_modify [outbox_intros]:
  "(\<And>n d d'. f n d = Inr d' \<Longrightarrow> domain_events d' = domain_events d) \<Longrightarrow> outbox_stmt (modify f)"
  by (auto simp: outbox_stmt_def modify_def split: sum.splits)

lemma update_events_frame:
  "update_tasks P f d = Inr d' \<Longrightarrow> domain_events d' = domain_events d"
  "update_orders P1 g d = Inr d' \<Longrightarrow> domain_events d' = domain_events d"
  "update_counters P2 h d = Inr d' \<Longrightarrow> domain_events d' = domain_events d"
  "update_machines P3 k d = Inr d' \<Longrightarrow> domain_events d' = domain_events d"
  "update_staff P4 l d = Inr d' \<Longrightarrow> domain_events d' = domain_events d"
  by (auto simp: update_tasks_def update_orders_def update_counters_def update_machines_def update_staff_def)

lemma outbox_insert_event [outbox_intros]: "outbox_stmt (insert_event env ty i ev)"
  by (auto simp: outbox_stmt_def insert_event_def Let_def outbox_ok_def split: if_splits)

lemma outbox_insert_rows [outbox_intros]:
  "outbox_stmt (insert_order env ext)" "outbox_stmt (insert_task env t)"
  by (auto simp: outbox_stmt_def insert_order_def insert_task_def Let_def split: if_splits)

lemma outbox_insert_deps [outbox_intros]: "outbox_stmt (insert_deps deps)"
  unfolding insert_deps_def by (rule outbox_modify) (auto split: if_splits)

lemma outbox_clock [outbox_intros]:
  "keeps (outbox_at msgs) (Now env)" "keeps (outbox_at msgs) (range_keys env ks)"
  "keeps (outbox_at msgs) (explode env req a b c e)"
  by (auto simp: keeps_def outbox_at_def Now_def range_keys_def explode_def)

lemma outbox_queue [outbox_intros]:
  "keeps (outbox_at msgs) (enqueue ops i score)" "keeps (outbox_at msgs) (pop_top ops n)"
  by (auto simp: keeps_def outbox_at_def enqueue_def pop_top_def split: prod.splits option.splits)

lemma outbox_transaction [outbox_intros]:
  assumes "keeps (outbox_at msgs) body"
  shows "keeps (outbox_at msgs) (transaction env body)"
proof (rule keepsI)
  fix w r w' assume ok: "outbox_at msgs w" and run: "transaction env body w = (r, w')"
  have b: "outbox_at msgs v1" if "body (w\<lparr>tick := Suc (tick w), aborted := False\<rparr>) = (q, v1)" for q v1
    using keepsD [OF assms _ that] ok by (simp add: outbox_at_def)
  from run show "outbox_at msgs w'"
  proof (cases rule: transaction_outcome)
    case not_begun
    then show ?thesis using ok by (simp add: outbox_at_def same_tables_eqs)
  next
    case (committed x w1)
    then show ?thesis using b [OF committed(1)] by (simp add: outbox_at_def)
  next
    case (rolled_back q w1)
    then show ?thesis using b [OF rolled_back(1)] ok by (simp add: outbox_at_def same_tables_eqs)
  qed
qed

lemma outbox_case_prod [outbox_intros]:
  "(\<And>a b. p = (a, b) \<Longrightarrow> keeps P (f a b)) \<Longrightarrow> keeps P (case p of (a, b) \<Rightarrow> f a b)"
  by (cases p) simp

lemmas repo_defs = UpdateTaskStatusStarted_def UpdateTaskStatusCompleted_def lock_task_def
  InsertDomainEvent_def InsertDomainEventNoTx_def IncrementCounterUsage_def IncrementMachineUsage_def
  UpdateStaffEfficiencyAndActive_def DecrementDependentPendingDeps_def MarkOrderPartCompletedIfNotDone_def
  CompleteOrderIfAllTasksDone_def MarkOrderInProgressIfConfirmed_def LockTaskForAssignment_def LockCounter_def
  FindEligibleStaff_def LockMachineForTask_def LockStaff_def UpdateTaskAssignment_def
  IncrementStaffActiveTasks_def requeue_one_def RequeueExpiredAssignedTasks_def GetTaskByID_def
  create_task_def CreateOrderWithTasks_def InsertTaskDependencies_def RecalculatePendingDepsForOrder_def
  ListOrderReadyTasks_def GetActiveRecipeStepsByItems_def GetRecipeStepDependenciesByItems_def
  GetMachineCapacitiesByIDs_def queueScore_def

lemma outbox_StartTask: "keeps (outbox_at msgs) (StartTask env taskID)"
  unfolding StartTask_def start_body_def repo_defs
  by (intro outbox_intros frame_intros) (erule update_events_frame)+

lemma outbox_CompleteTask: "keeps (outbox_at msgs) (CompleteTask env ops s taskID)"
  unfolding CompleteTask_def complete_body_def release_child_def repo_defs Let_def
  by (intro outbox_intros frame_intros) (erule update_events_frame)+

lemma outbox_AllocateOnce: "keeps (outbox_at msgs) (AllocateOnce env ops s)"
  unfolding AllocateOnce_def requeueExpiredAssignedTasks_def requeue_enqueue_def allocate_one_def
    assign_body_def repo_defs Let_def
  by (intro outbox_intros frame_intros) (erule update_events_frame)+

lemma outbox_ConfirmOrder: "keeps (outbox_at msgs) (ConfirmOrder env ops s req)"
  unfolding ConfirmOrder_parts confirm_plan_def confirm_store_def store_links_def publish_ready_def repo_defs Let_def
  by (intro outbox_intros frame_intros) (erule update_events_frame)+

end
