(* ===== verification/Samples.thy ===== *)
theory Samples imports
  OrderRefinement
  Outbox
begin

text \<open>
  A small kitchen to apply the theorems to: one counter, one machine and one cook. \<open>empty_kitchen\<close>
  has no order yet; in \<open>kitchen_at st\<close> an order of two tasks is under way, the first one with the status \<open>st\<close> and the
  second waiting for it, and in \<open>second_course\<close> the second one has been assigned.
\<close>

definition calm :: env where
  "calm = \<lparr>clock = (\<lambda>n. 1000000000 * int n), fault = (\<lambda>n. None), deliver = (\<lambda>n. None),
     cancelled = (\<lambda>n. False), row_locked = (\<lambda>n i. False), row_rank = (\<lambda>n i. i),
     key_rank = (\<lambda>n k. length k), int_rank = (\<lambda>n m i. nat i)\<rparr>"

definition tea_step :: "nat \<Rightarrow> int \<Rightarrow> string \<Rightarrow> RecipeStepModel" where
  "tea_step i so desc = \<lparr>r_ID = i, r_ItemKey = ''tea'', r_StepOrder = so, r_Description = desc,
     r_CounterID = 1, r_MachineID = Some 1, r_EstimateSecs = 30, r_BasePriority = 1,
     r_IsActive = True, r_CreatedAt = 0\<rparr>"

definition empty_kitchen :: database where
  "empty_kitchen = \<lparr>orders = [],
     counters = [\<lparr>c_ID = 1, c_Name = ''hot'', c_Capacity = 2, c_InUse = 0, c_UpdatedAt = 0\<rparr>],
     staff = [\<lparr>s_ID = 1, s_Name = ''Ann'', s_ShiftStart = 0, s_ShiftEnd = 10 ^ 15, s_MaxParallel = 2,
       s_EfficiencyMultiplier = 1, s_ActiveTasks = 0, s_ActiveSeconds = 0, s_OnBreak = False, s_CreatedAt = 0\<rparr>],
     staff_skills = [\<lparr>k_StaffID = 1, k_CounterID = 1\<rparr>],
     machines = [\<lparr>m_ID = 1, m_Name = ''kettle'', m_CounterID = 1, m_MachineType = ''kettle'',
       m_Capacity = 1, m_InUse = 0, m_IsUp = True, m_UpdatedAt = 0\<rparr>],
     recipe_steps = [tea_step 1 1 ''boil water'', tea_step 2 2 ''serve''],
     recipe_step_dependencies = [], tasks = [], task_dependencies = [], domain_events = [],
     orders_seq = 0, tasks_seq = 0, domain_events_seq = 0\<rparr>"

definition tea_task :: "nat \<Rightarrow> TaskStatus \<Rightarrow> int \<Rightarrow> TaskModel" where
  "tea_task i st pending = \<lparr>t_ID = i, t_OrderID = 1, t_Description = ''tea'', t_CounterID = 1,
     t_MachineID = Some 1, t_EstimateSecs = 30, t_BasePriority = 1, t_PendingDeps = pending,
     t_AssignedStaffID = None, t_AssignedMachineID = None, t_Status = st, t_AssignmentVersion = 0,
     t_ClaimedBy = None, t_ClaimedUntil = None, t_AssignedAt = None, t_StartedAt = None,
     t_CompletedAt = None, t_CreatedAt = 0\<rparr>"

definition held_task :: "nat \<Rightarrow> TaskStatus \<Rightarrow> TaskModel" where
  "held_task i st = (tea_task i st 0)\<lparr>t_AssignedStaffID := Some 1, t_AssignedMachineID := Some 1,
     t_AssignedAt := Some 0, t_StartedAt := (if st = TaskAssigned then None else Some 0)\<rparr>"

definition kitchen_at :: "TaskStatus \<Rightarrow> database" where
  "kitchen_at st = empty_kitchen\<lparr>
     orders := [\<lparr>o_ID = 1, o_ExternalOrderID = ''a'', o_Status = OrderInProgress, o_CreatedAt = 0\<rparr>],
     counters := [\<lparr>c_ID = 1, c_Name = ''hot'', c_Capacity = 2, c_InUse = 1, c_UpdatedAt = 0\<rparr>],
     staff := [\<lparr>s_ID = 1, s_Name = ''Ann'', s_ShiftStart = 0, s_ShiftEnd = 10 ^ 15, s_MaxParallel = 2,
       s_EfficiencyMultiplier = 1, s_ActiveTasks = 1, s_ActiveSeconds = 0, s_OnBreak = False, s_CreatedAt = 0\<rparr>],
     machines := [\<lparr>m_ID = 1, m_Name = ''kettle'', m_CounterID = 1, m_MachineType = ''kettle'',
       m_Capacity = 1, m_InUse = 1, m_IsUp = True, m_UpdatedAt = 0\<rparr>],
     tasks := [held_task 1 st, tea_task 2 TaskUnassigned 1],
     task_dependencies := [\<lparr>td_TaskID = 2, td_DependsOnTaskID = 1\<rparr>],
     orders_seq := 1, tasks_seq := 2\<rparr>"

definition world_of :: "database \<Rightarrow> InMemoryReadyQueue world" where
  "world_of d = \<lparr>db = d, aborted = False, queue = NewInMemoryReadyQueue, published = [], tick = 100\<rparr>"

definition mem_ids :: "InMemoryReadyQueue \<Rightarrow> string set" where
  "mem_ids q = fst ` set (items q)"

lemma mem_contract: "ready_queue in_memory mem_ids"
  unfolding mem_ids_def by (rule mem.ready_queue_axioms)

lemma no_ids [simp]: "ready_ids mem_ids NewInMemoryReadyQueue = {}"
  by (simp add: ready_ids_def mem_ids_def NewInMemoryReadyQueue_def)

lemma kitchen_state_world_of [simp]: "kitchen_state mem_ids {} (world_of d) = ({}, d)"
  by (simp add: kitchen_state_def world_of_def)

lemma empty_kitchen_ok: "kitchen_ok ({}, empty_kitchen)"
  by (simp add: kitchen_ok_def empty_kitchen_def keys_def tasks_ok_def figures_ok_def accounts_def
      limits_ok_def in_limits_def orders_ok_def gated_def local_deps_def settled_def known_def)

lemmas kitchen_at_defs = kitchen_at_def empty_kitchen_def held_task_def tea_task_def

lemma kitchen_at_gated:
  assumes "st = TaskAssigned \<or> st = TaskStarted"
  shows "gated {} (kitchen_at st)" and "settled (kitchen_at st) i"
proof -
  have "order_of (kitchen_at st) 2 1" "order_of (kitchen_at st) 1 1"
    by (simp_all add: order_of_def kitchen_at_defs)
  then have "local_deps (kitchen_at st)" by (auto simp: local_deps_def kitchen_at_defs)
  moreover have "\<not> is_done (kitchen_at st) 1"
    using assms by (auto simp: is_done_def kitchen_at_defs)
  then have "open_deps (kitchen_at st) 2 = 1" "open_deps (kitchen_at st) 1 = 0"
    by (simp_all add: open_deps_def kitchen_at_defs)
  then have "settled (kitchen_at st) i" for i
    using assms by (auto simp: settled_def task_settled_def kitchen_at_def held_task_def tea_task_def)
  ultimately show "gated {} (kitchen_at st)" "settled (kitchen_at st) i" by (simp_all add: gated_def)
qed

lemma kitchen_at_ok:
  assumes "st = TaskAssigned \<or> st = TaskStarted"
  shows "kitchen_ok ({}, kitchen_at st)"
proof -
  have "keys (kitchen_at st)" by (simp add: keys_def kitchen_at_defs)
  moreover have "tasks_ok (kitchen_at st)"
    using assms by (elim disjE) (simp_all add: tasks_ok_def task_ok_def kitchen_at_defs)
  moreover have "figures_ok (kitchen_at st)"
    using assms by (elim disjE) (simp_all add: figures_ok_def accounts_def occupies_def kitchen_at_defs)
  moreover have "limits_ok (kitchen_at st)" by (simp add: limits_ok_def in_limits_def kitchen_at_defs)
  moreover have "statuses (kitchen_at st) 1 = {st, TaskUnassigned}"
  proof -
    have "{t \<in> set (tasks (kitchen_at st)). t_OrderID t = 1} = {held_task 1 st, tea_task 2 TaskUnassigned 1}"
      by (auto simp: kitchen_at_def held_task_def tea_task_def)
    then show ?thesis by (simp add: statuses_def held_task_def tea_task_def)
  qed
  then have "orders_ok (kitchen_at st)"
    using assms by (elim disjE) (simp_all add: orders_ok_def status_fits_def kitchen_at_defs)
  moreover have "known {} (kitchen_at st)" by (simp add: known_def)
  ultimately show ?thesis using kitchen_at_gated(1) [OF assms] by (simp add: kitchen_ok_def)
qed

text \<open>The first task is done, the second one assigned.\<close>

definition second_course :: database where
  "second_course = (kitchen_at TaskCompleted)\<lparr>
     orders := [\<lparr>o_ID = 1, o_ExternalOrderID = ''a'', o_Status = OrderPartCompleted, o_CreatedAt = 0\<rparr>],
     tasks := [(held_task 1 TaskCompleted)\<lparr>t_CompletedAt := Some 0\<rparr>, held_task 2 TaskAssigned]\<rparr>"

lemmas second_course_defs = second_course_def kitchen_at_defs

lemma second_course_ok: "kitchen_ok ({}, second_course)"
proof -
  have "keys second_course" by (simp add: keys_def second_course_defs)
  moreover have "tasks_ok second_course"
    by (simp add: tasks_ok_def task_ok_def second_course_defs)
  moreover have "figures_ok second_course"
    by (simp add: figures_ok_def accounts_def occupies_def second_course_defs)
  moreover have "limits_ok second_course" by (simp add: limits_ok_def in_limits_def second_course_defs)
  moreover have "statuses second_course 1 = {TaskCompleted, TaskAssigned}"
  proof -
    have "{t \<in> set (tasks second_course). t_OrderID t = 1} =
        {(held_task 1 TaskCompleted)\<lparr>t_CompletedAt := Some 0\<rparr>, held_task 2 TaskAssigned}"
      by (auto simp: second_course_def held_task_def tea_task_def)
    then show ?thesis by (simp add: statuses_def held_task_def tea_task_def)
  qed
  then have "orders_ok second_course" by (auto simp: orders_ok_def status_fits_def second_course_defs)
  moreover have "known {} second_course" by (simp add: known_def)
  moreover have "gated {} second_course"
  proof -
    have "order_of second_course 2 1" "order_of second_course 1 1"
      by (simp_all add: order_of_def second_course_defs)
    then have "local_deps second_course" by (auto simp: local_deps_def second_course_defs)
    moreover have "is_done second_course 1" by (simp add: is_done_def second_course_defs)
    then have "open_deps second_course i = 0" for i
      by (simp add: open_deps_def second_course_defs)
    then have "settled second_course i" for i
      by (auto simp: settled_def task_settled_def second_course_defs)
    ultimately show ?thesis by (simp add: gated_def)
  qed
  ultimately show ?thesis by (simp add: kitchen_ok_def)
qed

lemma started_sample:
  obtains w where "StartTask calm 1 (world_of (kitchen_at TaskAssigned)) = (Inr (), w)"
    "tasks (db w) = [start_row 100000000000 (held_task 1 TaskAssigned), tea_task 2 TaskUnassigned 1]"
proof -
  have "fst (StartTask calm 1 (world_of (kitchen_at TaskAssigned))) = Inr ()" by code_simp
  moreover have "tasks (db (snd (StartTask calm 1 (world_of (kitchen_at TaskAssigned))))) =
    [start_row 100000000000 (held_task 1 TaskAssigned), tea_task 2 TaskUnassigned 1]" by code_simp
  ultimately show ?thesis using that by (metis prod.collapse)
qed

lemma second_started:
  obtains w where "StartTask calm 2 (world_of second_course) = (Inr (), w)"
    "tasks (db w) = [(held_task 1 TaskCompleted)\<lparr>t_CompletedAt := Some 0\<rparr>, start_row 100000000000 (held_task 2 TaskAssigned)]"
    "task_dependencies (db w) = task_dependencies second_course" "staff (db w) = staff second_course"
    "orders (db w) = orders second_course"
proof -
  let ?r = "StartTask calm 2 (world_of second_course)"
  have "fst ?r = Inr ()" by code_simp
  moreover have "tasks (db (snd ?r)) = [(held_task 1 TaskCompleted)\<lparr>t_CompletedAt := Some 0\<rparr>,
      start_row 100000000000 (held_task 2 TaskAssigned)]" by code_simp
  moreover have "task_dependencies (db (snd ?r)) = task_dependencies second_course" by code_simp
  moreover have "staff (db (snd ?r)) = staff second_course" by code_simp
  moreover have "orders (db (snd ?r)) = orders second_course" by code_simp
  ultimately show ?thesis using that by (metis prod.collapse)
qed

lemma no_sample_events:
  "domain_events empty_kitchen = []" "domain_events second_course = []" "domain_events (kitchen_at st) = []"
  by (simp_all add: second_course_defs)

text \<open>A kitchen whose only event has been published.\<close>

definition ready_event :: DomainEvent where
  "ready_event = \<lparr>Type = EventTaskReady, Timestamp = 1, Payload = ''7''\<rparr>"

definition told_world :: "InMemoryReadyQueue world" where
  "told_world = (world_of (empty_kitchen\<lparr>domain_events :=
     [(event_row 1 ''task'' ''7'' ready_event 0)\<lparr>e_PublishedAt := Some 5\<rparr>], domain_events_seq := 1\<rparr>))
     \<lparr>published := [\<lparr>g_Key = EventTaskReady, g_Value = Marshal_event ready_event, g_Time = 4\<rparr>]\<rparr>"

lemma told_world_delivered: "outbox_ok (domain_events (db told_world)) (published told_world)"
  by (simp add: outbox_ok_def delivered_def carries_def told_world_def world_of_def event_row_def
      Unmarshal_Marshal_event ready_event_def int64_def)

lemma kitchen_ok_core: "same_core d d' \<Longrightarrow> kitchen_ok (Q, d) \<Longrightarrow> kitchen_ok (Q, d')"
  using kitchen_step_ok kitchen_step.idle by blast

lemma told_world_kitchen: "kitchen_ok (kitchen_state mem_ids {} told_world)"
proof -
  have "kitchen_ok ({}, db told_world)"
    by (rule kitchen_ok_core [OF _ empty_kitchen_ok]) (simp add: same_core_def told_world_def world_of_def)
  moreover have "kitchen_state mem_ids {} told_world = ({}, db told_world)"
    by (simp add: told_world_def kitchen_state_def world_of_def)
  ultimately show ?thesis by simp
qed

end
