(* ===== verification/Kitchen.thy ===== *)
theory Kitchen imports
  OutboxFrame
  Samples
begin

text \<open>
  The kitchen as a whole: clients confirm, start and complete, workers allocate, the dispatcher
  publishes, in any order and each in any environment. What is reachable satisfies the invariant of
  the kitchen, and from the invariant follow the promises of the program.
\<close>

section \<open>The system\<close>

inductive service_step :: "'q ready_queue_ops \<Rightarrow> KitchenAppService \<Rightarrow> 'q world \<Rightarrow> 'q world \<Rightarrow> bool"
  for ops s where
  confirm: "ConfirmOrder env ops s req w = (confirmed, w') \<Longrightarrow> service_step ops s w w'"
| allocate: "AllocateOnce env ops s w = (allocated, w') \<Longrightarrow> service_step ops s w w'"
| start: "StartTask env taskID w = (started, w') \<Longrightarrow> service_step ops s w w'"
| complete: "CompleteTask env ops s taskID w = (completed, w') \<Longrightarrow> service_step ops s w w'"
| get: "GetTask env taskID w = (task, w') \<Longrightarrow> service_step ops s w w'"
| dispatch: "DispatchOnce env dispatcher (kafka_Publish env) w = (dispatched, w') \<Longrightarrow> service_step ops s w w'"

inductive_cases service_stepE: "service_step ops s w w'"

definition service_run :: "'q ready_queue_ops \<Rightarrow> KitchenAppService \<Rightarrow> 'q world \<Rightarrow> 'q world \<Rightarrow> bool" where
  "service_run ops s = (service_step ops s)\<^sup>*\<^sup>*"

definition world_ok :: "('q \<Rightarrow> string set) \<Rightarrow> 'q world \<Rightarrow> bool" where
  "world_ok ids w \<longleftrightarrow> kitchen_ok (kitchen_state ids {} w) \<and> outbox_ok (domain_events (db w)) (published w)"

lemma outbox_keepsD:
  "keeps (outbox_at (published w)) m \<Longrightarrow> m w = (r, w') \<Longrightarrow>
     outbox_ok (domain_events (db w)) (published w) \<Longrightarrow> outbox_ok (domain_events (db w')) (published w')"
  using keepsD [of "outbox_at (published w)" m w r w'] by (simp add: outbox_at_def)

lemma GetTask_run: "GetTask env taskID w = (r, w') \<Longrightarrow> db w' = db w \<and> queue w' = queue w"
  using statement_query_keeps by (fastforce simp: GetTask_def GetTaskByID_def)

lemma outbox_GetTask: "keeps (outbox_at msgs) (GetTask env taskID)"
  unfolding GetTask_def GetTaskByID_def by (intro outbox_intros)

context ready_queue
begin

lemma service_step_kitchen:
  assumes "service_step ops s w w'" and "world_ok ids w"
  shows "kitchen_run (kitchen_state ids {} w) (kitchen_state ids {} w')"
  using assms(1)
proof cases
  case (dispatch env d r)
  have "distinct (map e_ID (domain_events (db w)))" using assms(2) by (simp add: world_ok_def outbox_ok_def)
  then show ?thesis
    using kafka.DispatchOnce_step [OF dispatch] by (simp add: kitchen_state_def run_idle)
next
  case (get env i r)
  then show ?thesis using GetTask_run [OF get] by (simp add: kitchen_state_def)
next
  case (confirm env req r)
  then show ?thesis using ConfirmOrder_run [OF confirm] assms(2) by (simp add: world_ok_def)
next
  case (allocate env r)
  then show ?thesis using AllocateOnce_run [OF allocate] assms(2) by (simp add: world_ok_def)
next
  case (start env i r)
  then show ?thesis by (rule StartTask_run)
next
  case (complete env i r)
  then show ?thesis using CompleteTask_run [OF complete] assms(2) by (simp add: world_ok_def)
qed

lemma service_step_outbox:
  assumes "service_step ops s w w'" and "world_ok ids w"
  shows "outbox_ok (domain_events (db w')) (published w')"
  using assms(1)
proof cases
  case (dispatch env d r)
  then show ?thesis
    using kafka.DispatchOnce_step [OF dispatch] assms(2) by (simp add: world_ok_def outbox_ok_def)
next
  case (confirm env req r)
  then show ?thesis using outbox_keepsD [OF outbox_ConfirmOrder] assms(2) by (auto simp: world_ok_def)
next
  case (allocate env r)
  then show ?thesis using outbox_keepsD [OF outbox_AllocateOnce] assms(2) by (auto simp: world_ok_def)
next
  case (start env i r)
  then show ?thesis using outbox_keepsD [OF outbox_StartTask] assms(2) by (auto simp: world_ok_def)
next
  case (complete env i r)
  then show ?thesis using outbox_keepsD [OF outbox_CompleteTask] assms(2) by (auto simp: world_ok_def)
next
  case (get env i r)
  then show ?thesis using outbox_keepsD [OF outbox_GetTask] assms(2) by (auto simp: world_ok_def)
qed

lemma service_step_ok:
  assumes "service_step ops s w w'" and "world_ok ids w"
  shows "world_ok ids w'"
proof -
  have "kitchen_ok (kitchen_state ids {} w)" using assms(2) by (simp add: world_ok_def)
  from kitchen_run_ok [OF service_step_kitchen [OF assms] this] show ?thesis
    using service_step_outbox [OF assms] by (simp add: world_ok_def)
qed

lemma service_run_ok:
  assumes "service_run ops s w w'" and "world_ok ids w"
  shows "world_ok ids w' \<and> kitchen_run (kitchen_state ids {} w) (kitchen_state ids {} w')"
  using assms unfolding service_run_def
proof (induction rule: rtranclp_induct)
  case (step v v')
  then show ?case using service_step_ok service_step_kitchen kitchen_run_trans by blast
qed simp

end

section \<open>What the invariant means\<close>

lemma kitchen_gate:
  assumes "kitchen_ok (Q, d)" "t \<in> set (tasks d)" "t_Status t \<noteq> TaskUnassigned"
    "td \<in> set (task_dependencies d)" "td_TaskID td = t_ID t"
  shows "is_done d (td_DependsOnTaskID td)"
proof -
  have "gated Q d" using assms(1) by (simp add: kitchen_ok_def)
  then have "settled d (t_OrderID t)" by (rule gated_settled) (use awake assms(2,3) in blast)
  then have "open_deps d (t_ID t) = 0"
    using assms(2,3) by (auto simp: settled_def task_settled_def)
  then show ?thesis using assms(4,5) unfolding open_deps_def count_zero by blast
qed

text \<open>How many tasks are assigned or started and satisfy \<open>P\<close>.\<close>

definition in_hand :: "database \<Rightarrow> (TaskModel \<Rightarrow> bool) \<Rightarrow> int" where
  "in_hand d P = int (length (filter (\<lambda>t. t_Status t \<in> {TaskAssigned, TaskStarted} \<and> P t) (tasks d)))"

lemma in_hand_count: "in_hand d P = count (\<lambda>t. occupies t \<and> P t) (tasks d)"
  by (simp add: in_hand_def count_def occupies_def)

text \<open>How the status of a task may change.\<close>

inductive status_next :: "TaskStatus \<Rightarrow> TaskStatus \<Rightarrow> bool" where
  "status_next TaskUnassigned TaskAssigned"
| "status_next TaskAssigned TaskStarted"
| "status_next TaskStarted TaskCompleted"
| "status_next TaskAssigned TaskUnassigned"

inductive_simps status_next_from [simp]:
  "status_next TaskUnassigned x" "status_next TaskAssigned x" "status_next TaskStarted x" "status_next TaskCompleted x"

text \<open>The statuses in the order of a task's life.\<close>

primrec stage :: "TaskStatus \<Rightarrow> nat" where
  "stage TaskUnassigned = 0"
| "stage TaskAssigned = 1"
| "stage TaskStarted = 2"
| "stage TaskCompleted = 3"

lemma stage_inject: "stage a = stage b \<longleftrightarrow> a = b"
  by (cases a; cases b) simp_all

instantiation TaskStatus :: linorder
begin

definition less_eq_TaskStatus :: "TaskStatus \<Rightarrow> TaskStatus \<Rightarrow> bool" where
  "less_eq_TaskStatus a b \<longleftrightarrow> stage a \<le> stage b"

definition less_TaskStatus :: "TaskStatus \<Rightarrow> TaskStatus \<Rightarrow> bool" where
  "less_TaskStatus a b \<longleftrightarrow> stage a < stage b"

instance
  by standard (auto simp: less_eq_TaskStatus_def less_TaskStatus_def stage_inject)

end

text \<open>Once a task is started its status never goes back.\<close>

lemma started_climbs: "status_next\<^sup>*\<^sup>* a b \<Longrightarrow> TaskStarted \<le> a \<Longrightarrow> a \<le> b"
proof (induction rule: rtranclp_induct)
  case (step y z)
  then have "TaskStarted \<le> y" using order_trans by blast
  then have "y \<le> z" using step.hyps(2) by (cases y) (auto simp: less_eq_TaskStatus_def)
  then show ?case using step by simp
qed simp

definition same_task :: "TaskModel \<Rightarrow> TaskModel \<Rightarrow> bool" where
  "same_task t t' \<longleftrightarrow> t_ID t' = t_ID t \<and> t_OrderID t' = t_OrderID t \<and> t_Description t' = t_Description t \<and>
     t_CounterID t' = t_CounterID t \<and> t_MachineID t' = t_MachineID t"

definition evolves :: "database \<Rightarrow> database \<Rightarrow> bool" where
  "evolves d d' \<longleftrightarrow> (\<forall>t \<in> set (tasks d). \<exists>t' \<in> set (tasks d'). same_task t t' \<and>
     (t_Status t' = t_Status t \<or> status_next (t_Status t) (t_Status t')))"

lemma evolvesI:
  assumes "tasks d' = map f (tasks d)"
    and "\<And>t. t \<in> set (tasks d) \<Longrightarrow> same_task t (f t) \<and>
      (t_Status (f t) = t_Status t \<or> status_next (t_Status t) (t_Status (f t)))"
  shows "evolves d d'"
  using assms by (auto simp: evolves_def)

lemma evolves_mono: "set (tasks d) \<subseteq> set (tasks d') \<Longrightarrow> evolves d d'"
  unfolding evolves_def same_task_def by blast

lemma same_task_rows [simp]:
  "same_task t t" "same_task t (assign_row sid mid n t)" "same_task t (start_row n t)"
  "same_task t (release_task t)" "same_task t (row_after d u n t)" "same_task t (t\<lparr>t_PendingDeps := p\<rparr>)"
  by (simp_all add: same_task_def assign_row_def start_row_def release_task_def row_after_def
      complete_row_def count_down_def Let_def)

lemma evolves_row:
  assumes "keys d" "t \<in> set (tasks d)" "tasks d' = map_where (the_task t) g (tasks d)"
    "same_task t (g t)" "status_next (t_Status t) (t_Status (g t))"
  shows "evolves d d'"
proof (rule evolvesI [where f = "\<lambda>x. if t_ID x = t_ID t then g x else x"])
  show "tasks d' = map (\<lambda>x. if t_ID x = t_ID t then g x else x) (tasks d)"
    using assms(3) by (simp add: map_where_def)
  fix x assume "x \<in> set (tasks d)"
  then have "t_ID x = t_ID t \<Longrightarrow> x = t" using keys_the_task [OF assms(1,2)] by blast
  then show "same_task x (if t_ID x = t_ID t then g x else x) \<and>
      (t_Status (if t_ID x = t_ID t then g x else x) = t_Status x \<or>
       status_next (t_Status x) (t_Status (if t_ID x = t_ID t then g x else x)))"
    using assms(4,5) by (cases "x = t") auto
qed

lemma evolves_complete:
  assumes "keys d" "t \<in> set (tasks d)" "t_Status t = TaskStarted" "tasks d' = map (row_after d t n) (tasks d)"
  shows "evolves d d'"
proof (rule evolvesI [OF assms(4)])
  fix x assume x: "x \<in> set (tasks d)"
  have "t_Status (row_after d t n x) = t_Status x \<or> status_next (t_Status x) (t_Status (row_after d t n x))"
  proof (cases "t_ID x = t_ID t")
    case True
    then have "x = t" using keys_the_task [OF assms(1,2) x] by blast
    then show ?thesis using assms(3) by simp
  qed simp
  then show "same_task x (row_after d t n x) \<and>
      (t_Status (row_after d t n x) = t_Status x \<or> status_next (t_Status x) (t_Status (row_after d t n x)))"
    by simp
qed

lemma kitchen_step_evolves:
  assumes "kitchen_step s s'" and "keys (snd s)"
  shows "evolves (snd s) (snd s')"
  using assms
proof (induction rule: kitchen_step.induct)
  case (assign t d Q c m s now tc tm d')
  then show ?case unfolding snd_conv by (intro evolves_row [where t = t and g = "assign_row (s_ID s) (m_ID m) now"]) (simp_all add: same_core_def assign_db_tasks)
next
  case (start t d now d' Q)
  then show ?case unfolding snd_conv by (intro evolves_row [where t = t and g = "start_row now"]) (simp_all add: same_core_def start_db_tasks)
next
  case (complete t d sid mid now tc tm secs eff d' Q)
  then show ?case unfolding snd_conv by (intro evolves_complete [where t = t and n = now]) (simp_all add: same_core_def complete_db_rows)
next
  case (requeue t d cutoff sid mid tc tm d' Q)
  then show ?case
    unfolding snd_conv by (intro evolves_row [where t = t and g = release_task]) (simp_all add: same_core_def requeue_db_tasks expired_def)
next
  case (recount Q d orderID d')
  then show ?case
    by (intro evolvesI [where f = "\<lambda>t. if 0 < dep_count d orderID (t_ID t)
       then t\<lparr>t_PendingDeps := dep_count d orderID (t_ID t)\<rparr> else t"])
      (auto simp: same_core_def recount_tasks)
next
  case (create ord rows d d' Q)
  then show ?case by (intro evolves_mono) (auto simp: same_core_def)
qed (auto simp: same_core_def intro!: evolves_mono)

definition task_path :: "database \<Rightarrow> database \<Rightarrow> bool" where
  "task_path d d' \<longleftrightarrow> (\<forall>t \<in> set (tasks d). \<exists>t' \<in> set (tasks d'). same_task t t' \<and>
     status_next\<^sup>*\<^sup>* (t_Status t) (t_Status t'))"

lemma evolves_path: "task_path d d' \<Longrightarrow> evolves d' d'' \<Longrightarrow> task_path d d''"
  unfolding task_path_def evolves_def same_task_def
  by (metis (no_types, opaque_lifting) rtranclp.rtrancl_into_rtrancl)

lemma kitchen_run_path:
  assumes "kitchen_run s s'" and "kitchen_ok s"
  shows "task_path (snd s) (snd s')"
  using assms unfolding kitchen_run_def
proof (induction rule: rtranclp_induct)
  case base
  then show ?case by (auto simp: task_path_def intro!: bexI)
next
  case (step u v)
  have "kitchen_ok u" using step.hyps(1) step.prems kitchen_run_ok by (auto simp: kitchen_run_def)
  then have "keys (snd u)" by (auto simp: kitchen_ok_def split: prod.splits)
  then show ?case using kitchen_step_evolves [OF step.hyps(2)] step.IH [OF step.prems] evolves_path by blast
qed

section \<open>Progress\<close>

text \<open>The waiting relation of the stored dependencies.\<close>

definition waits :: "database \<Rightarrow> (nat \<times> nat) set" where
  "waits d = (\<lambda>td. (td_DependsOnTaskID td, td_TaskID td)) ` set (task_dependencies d)"

lemma progress:
  assumes "kitchen_ok (Q, d)" "acyclic (waits d)" "settled d i"
    and "t0 \<in> set (tasks d)" "t_OrderID t0 = i" "t_Status t0 \<noteq> TaskCompleted"
  shows "\<exists>t \<in> set (tasks d). t_OrderID t = i \<and> t_Status t \<noteq> TaskCompleted \<and>
    (t_Status t = TaskUnassigned \<longrightarrow> t_PendingDeps t = 0)"
proof -
  define open_ids where "open_ids = t_ID ` {t \<in> set (tasks d). t_OrderID t = i \<and> t_Status t \<noteq> TaskCompleted}"
  have "wf (waits d)" using assms(2) by (intro finite_acyclic_wf) (simp_all add: waits_def)
  moreover have "t_ID t0 \<in> open_ids" using assms(4-6) by (auto simp: open_ids_def)
  ultimately obtain k where k: "k \<in> open_ids" "\<And>j. (j, k) \<in> waits d \<Longrightarrow> j \<notin> open_ids"
    by (metis wf_eq_minimal)
  then obtain t where t: "t \<in> set (tasks d)" "t_ID t = k" "t_OrderID t = i" "t_Status t \<noteq> TaskCompleted"
    by (auto simp: open_ids_def)
  have ok: "keys d" "local_deps d" using assms(1) by (simp_all add: kitchen_ok_def gated_def)
  have "is_done d (td_DependsOnTaskID td)" if td: "td \<in> set (task_dependencies d)" "td_TaskID td = k" for td
  proof -
    have "td_DependsOnTaskID td \<notin> open_ids" using td by (intro k(2)) (force simp: waits_def)
    moreover have "order_of d (td_DependsOnTaskID td) i"
      using ok(2) td t order_ofI [OF t(1)] order_of_unique [OF ok(1)] unfolding local_deps_def by metis
    ultimately show ?thesis
      unfolding open_ids_def order_of_def is_done_def by (metis (mono_tags, lifting) image_eqI mem_Collect_eq)
  qed
  then have "open_deps d k = 0" by (auto simp: open_deps_def count_zero)
  then have "t_Status t = TaskUnassigned \<longrightarrow> t_PendingDeps t = 0"
    using assms(3) t by (auto simp: settled_def task_settled_def)
  then show ?thesis using t by blast
qed

text \<open>An order that is not complete has a task under way or without an open dependency.\<close>

lemma open_order_task:
  assumes "kitchen_ok (Q, d)" "acyclic (waits d)" "settled d (o_ID ord)"
    and "ord \<in> set (orders d)" "o_Status ord \<noteq> OrderCompleted"
  shows "\<exists>t \<in> set (tasks d). t_OrderID t = o_ID ord \<and>
    (t_Status t = TaskUnassigned \<and> t_PendingDeps t = 0 \<or> t_Status t \<in> {TaskAssigned, TaskStarted})"
proof -
  have "status_fits (o_Status ord) (statuses d (o_ID ord))" using assms(1,4) by (auto simp: kitchen_ok_def orders_ok_def)
  then have "\<not> statuses d (o_ID ord) \<subseteq> {TaskCompleted}"
    using assms(5) by (cases "o_Status ord") (auto simp: status_fits_def)
  then obtain t0 where "t0 \<in> set (tasks d)" "t_OrderID t0 = o_ID ord" "t_Status t0 \<noteq> TaskCompleted"
    by (auto simp: statuses_def)
  from progress [OF assms(1-3) this] obtain t where "t \<in> set (tasks d)" "t_OrderID t = o_ID ord"
    "t_Status t \<noteq> TaskCompleted" "t_Status t = TaskUnassigned \<longrightarrow> t_PendingDeps t = 0" by blast
  then show ?thesis by (intro bexI [of _ t]) (cases "t_Status t"; simp)+
qed

section \<open>Sample runs\<close>

lemma sample_world_ok:
  assumes "kitchen_ok ({}, d)" and "domain_events d = []"
  shows "world_ok mem_ids (world_of d)"
  using assms by (simp add: world_ok_def outbox_ok_def) (simp add: world_of_def)

lemma sample_worlds:
  "world_ok mem_ids (world_of empty_kitchen)" "world_ok mem_ids (world_of second_course)"
  "world_ok mem_ids (world_of (kitchen_at TaskAssigned))" "world_ok mem_ids (world_of (kitchen_at TaskStarted))"
  by (intro sample_world_ok empty_kitchen_ok second_course_ok kitchen_at_ok no_sample_events; simp)+

lemma told_world_ok: "world_ok mem_ids told_world"
  using told_world_kitchen told_world_delivered by (simp add: world_ok_def)

lemma service_run_refl [simp]: "service_run ops s w w"
  by (simp add: service_run_def)

lemma service_run_start: "StartTask env i w = (r, w') \<Longrightarrow> service_run ops s w w'"
  unfolding service_run_def by (blast intro: service_step.start)

end
