(* ===== verification/Typing.thy ===== *)
theory Typing imports
  Kitchen
begin

text \<open>
  The stored rows are well formed: references between the tables resolve, the columns of a task fit
  its status, and whoever holds a task may hold it.
\<close>

section \<open>Placed tasks\<close>

text \<open>A task at a counter, on the machine of its step, with a member of staff skilled for the counter.\<close>

definition placed :: "database \<Rightarrow> TaskModel \<Rightarrow> bool" where
  "placed d t \<longleftrightarrow> t_CounterID t \<in> c_ID ` set (counters d) \<and>
     (\<exists>m \<in> set (machines d). t_MachineID t = Some (m_ID m) \<and> t_AssignedMachineID t = Some (m_ID m) \<and>
        m_CounterID m = t_CounterID t) \<and>
     (\<exists>s \<in> set (staff d). t_AssignedStaffID t = Some (s_ID s) \<and>
        (\<exists>k \<in> set (staff_skills d). k_StaffID k = s_ID s \<and> k_CounterID k = t_CounterID t))"

definition well_placed :: "database \<Rightarrow> bool" where
  "well_placed d \<longleftrightarrow> (\<forall>t \<in> set (tasks d). t_Status t \<noteq> TaskUnassigned \<longrightarrow> placed d t)"

text \<open>What of the resources is read by \<open>placed\<close>; no transition changes it.\<close>

definition fittings :: "database \<Rightarrow> nat set \<times> (nat \<times> nat) set \<times> nat set \<times> StaffSkillModel set" where
  "fittings d = (c_ID ` set (counters d), (\<lambda>m. (m_ID m, m_CounterID m)) ` set (machines d),
     s_ID ` set (staff d), set (staff_skills d))"

lemma placed_fittings:
  "placed d t \<longleftrightarrow> (case fittings d of (cs, ms, ss, ks) \<Rightarrow> t_CounterID t \<in> cs \<and>
     (\<exists>m. (m, t_CounterID t) \<in> ms \<and> t_MachineID t = Some m \<and> t_AssignedMachineID t = Some m) \<and>
     (\<exists>s \<in> ss. t_AssignedStaffID t = Some s \<and> (\<exists>k \<in> ks. k_StaffID k = s \<and> k_CounterID k = t_CounterID t)))"
proof -
  have "(m, c) \<in> (\<lambda>m. (m_ID m, m_CounterID m)) ` set (machines d) \<longleftrightarrow>
      (\<exists>x \<in> set (machines d). m_ID x = m \<and> m_CounterID x = c)" for m c
    by (auto simp: image_iff)
  then show ?thesis unfolding placed_def fittings_def prod.case by auto
qed

lemma placed_cong:
  assumes "fittings d' = fittings d" and "same_task t t'"
    and "t_AssignedStaffID t' = t_AssignedStaffID t" "t_AssignedMachineID t' = t_AssignedMachineID t"
  shows "placed d' t' \<longleftrightarrow> placed d t"
  using assms by (simp add: placed_fittings same_task_def)

lemma fittings_core: "same_core d d' \<Longrightarrow> fittings d' = fittings d"
  by (simp add: fittings_def same_core_def)

lemma fittings_adjust [simp]:
  "fittings (adjust_counter i x n d) = fittings d" "fittings (adjust_machine i x n d) = fittings d"
  "fittings (adjust_staff i x d) = fittings d" "fittings (credit_staff i x n e d) = fittings d"
proof -
  have "map (\<lambda>m. (m_ID m, m_CounterID m)) (machines (adjust_machine i x n d)) =
      map (\<lambda>m. (m_ID m, m_CounterID m)) (machines d)"
    by (simp add: adjust_machine_def map_where_keys)
  from arg_cong [OF this, of set] have sites: "(\<lambda>m. (m_ID m, m_CounterID m)) ` set (machines (adjust_machine i x n d)) =
      (\<lambda>m. (m_ID m, m_CounterID m)) ` set (machines d)"
    by (simp only: list.set_map)
  show "fittings (adjust_counter i x n d) = fittings d" "fittings (adjust_machine i x n d) = fittings d"
    "fittings (adjust_staff i x d) = fittings d" "fittings (credit_staff i x n e d) = fittings d"
    using sites resource_ids [THEN arg_cong [of _ _ set], unfolded list.set_map] by (simp_all add: fittings_def)
qed

lemma fittings_tables [simp]:
  "fittings (set_tasks P g d) = fittings d" "fittings (set_order_status i F st d) = fittings d"
  "fittings (release_deps i d) = fittings d" "fittings (finish_order i d) = fittings d"
  "fittings (create_db ord rows d) = fittings d" "fittings (link_db deps d) = fittings d"
  "fittings (recount_db i d) = fittings d"
  by (simp_all add: fittings_def create_db_def link_db_def recount_db_def)

lemma fittings_steps [simp]:
  "fittings (assign_db t sid mid n tc tm d) = fittings d" "fittings (start_db t n d) = fittings d"
  "fittings (complete_db t sid mid n tc tm secs eff d) = fittings d"
  "fittings (requeue_db t sid mid tc tm d) = fittings d"
  by (simp_all add: assign_db_def start_db_def complete_db_def requeue_db_def)

section \<open>Every transition keeps the tasks placed\<close>

lemma well_placed_core: "same_core d d' \<Longrightarrow> well_placed d' \<longleftrightarrow> well_placed d"
  using fittings_core [of d d'] by (simp add: well_placed_def placed_fittings same_core_def)

lemma well_placed_row:
  assumes "well_placed d" "keys d" "t \<in> set (tasks d)" "fittings d' = fittings d"
    and "tasks d' = map_where (the_task t) g (tasks d)"
    and "t_Status (g t) \<noteq> TaskUnassigned \<Longrightarrow> placed d (g t)"
  shows "well_placed d'"
  unfolding well_placed_def
proof (intro ballI impI)
  fix x assume x: "x \<in> set (tasks d')" "t_Status x \<noteq> TaskUnassigned"
  then obtain y where y: "y \<in> set (tasks d)" "x = (if t_ID y = t_ID t then g y else y)"
    using assms(5) by (auto simp: map_where_def the_task_def)
  have "t_ID y = t_ID t \<Longrightarrow> y = t" using keys_the_task [OF assms(2,3) y(1)] by blast
  then have "placed d x" using y x(2) assms(1,6) by (cases "y = t") (auto simp: well_placed_def)
  then show "placed d' x" by (simp add: placed_fittings assms(4))
qed

lemma well_placed_map:
  assumes "well_placed d" and "fittings d' = fittings d" and "tasks d' = map f (tasks d)"
    and "\<And>t. t \<in> set (tasks d) \<Longrightarrow> same_task t (f t) \<and> t_AssignedStaffID (f t) = t_AssignedStaffID t \<and>
      t_AssignedMachineID (f t) = t_AssignedMachineID t \<and>
      (t_Status t = TaskUnassigned \<longrightarrow> t_Status (f t) = TaskUnassigned)"
  shows "well_placed d'"
  unfolding well_placed_def
proof (intro ballI impI)
  fix x assume x: "x \<in> set (tasks d')" "t_Status x \<noteq> TaskUnassigned"
  then obtain t where t: "t \<in> set (tasks d)" "x = f t" using assms(3) by auto
  with x(2) assms(4) [OF t(1)] assms(1) have "placed d t" by (auto simp: well_placed_def)
  then show "placed d' x" using placed_cong [OF assms(2)] assms(4) [OF t(1)] t(2) by blast
qed

lemma row_after_holder:
  "t_AssignedStaffID (row_after d t n x) = t_AssignedStaffID x"
  "t_AssignedMachineID (row_after d t n x) = t_AssignedMachineID x"
  by (simp_all add: row_after_def complete_row_def count_down_def Let_def)

lemma kitchen_step_placed:
  assumes "kitchen_step s s'" and "kitchen_ok s" and "well_placed (snd s)"
  shows "well_placed (snd s')"
  using assms
proof (induction rule: kitchen_step.induct)
  case (idle d d' Q' Q)
  then show ?case using well_placed_core by simp
next
  case (assign t d Q c m s now tc tm d')
  obtain k where "s \<in> set (staff d)" "k \<in> set (staff_skills d)" "k_StaffID k = s_ID s" "k_CounterID k = t_CounterID t"
    using assign.hyps by (auto simp: eligible_staff_set)
  moreover have "t_CounterID t \<in> c_ID ` set (counters d)" using assign.hyps by force
  ultimately have here: "placed d (assign_row (s_ID s) (m_ID m) now t)"
    unfolding placed_def assign_row_def using assign.hyps(8-10) by (intro conjI bexI [of _ m] bexI [of _ s] bexI [of _ k]) simp_all
  have "well_placed (assign_db t (s_ID s) (m_ID m) now tc tm d)"
    by (rule well_placed_row [of d t _ "assign_row (s_ID s) (m_ID m) now"])
      (use assign.hyps(1) assign.prems here in \<open>simp_all add: assign_db_tasks kitchen_ok_def\<close>)
  then show ?case using well_placed_core assign.hyps by simp
next
  case (start t d now d' Q)
  have "placed d t" using start by (simp add: well_placed_def)
  then have here: "placed d (start_row now t)" by (subst placed_cong [of d d t]) (simp_all, simp_all add: start_row_def)
  have "well_placed (start_db t now d)"
    by (rule well_placed_row [of d t _ "start_row now"])
      (use start.hyps(1) start.prems here in \<open>simp_all add: start_db_tasks kitchen_ok_def\<close>)
  then show ?case using well_placed_core start.hyps by simp
next
  case (complete t d sid mid now tc tm secs eff d' Q)
  have "keys d" using complete.prems by (simp add: kitchen_ok_def)
  then have started: "t_Status x = TaskStarted" if "x \<in> set (tasks d)" "t_ID x = t_ID t" for x
    using keys_the_task [OF _ complete.hyps(1) that(1)] that(2) complete.hyps(2) by blast
  have "well_placed d" using complete.prems(2) by simp
  then have "well_placed (complete_db t sid mid now tc tm secs eff d)"
  proof (rule well_placed_map [of d _ "row_after d t now"])
    fix x assume "x \<in> set (tasks d)"
    then have "t_Status x = TaskUnassigned \<longrightarrow> t_ID x \<noteq> t_ID t" using started [of x] by auto
    then show "same_task x (row_after d t now x) \<and>
        t_AssignedStaffID (row_after d t now x) = t_AssignedStaffID x \<and>
        t_AssignedMachineID (row_after d t now x) = t_AssignedMachineID x \<and>
        (t_Status x = TaskUnassigned \<longrightarrow> t_Status (row_after d t now x) = TaskUnassigned)"
      by (simp add: row_after_holder)
  qed (simp_all add: complete_db_rows)
  then show ?case using well_placed_core complete.hyps by simp
next
  case (requeue t d cutoff sid mid tc tm d' Q)
  have "well_placed (requeue_db t sid mid tc tm d)"
    by (rule well_placed_row [of d t _ release_task])
      (use requeue.hyps(1) requeue.prems in \<open>simp_all add: requeue_db_tasks kitchen_ok_def release_task_def\<close>)
  then show ?case using well_placed_core requeue.hyps by simp
next
  case (create ord rows d d' Q)
  then have "well_placed (create_db ord rows d)"
    by (auto simp: well_placed_def new_rows_def placed_fittings)
  then show ?case using well_placed_core create.hyps by simp
next
  case (link d deps Q orderID d')
  then have "well_placed (link_db deps d)" by (simp add: well_placed_def placed_fittings)
  then show ?case using well_placed_core link.hyps by simp
next
  case (recount Q d orderID d')
  have "well_placed (recount_db orderID d)"
    by (rule well_placed_map [of d _ "\<lambda>t. if 0 < dep_count d orderID (t_ID t)
       then t\<lparr>t_PendingDeps := dep_count d orderID (t_ID t)\<rparr> else t"])
      (use recount.prems in \<open>simp_all add: recount_tasks\<close>)
  then show ?case using well_placed_core recount.hyps by simp
qed simp

lemma kitchen_run_placed:
  assumes "kitchen_run s s'" and "kitchen_ok s" and "well_placed (snd s)"
  shows "well_placed (snd s')"
  using assms unfolding kitchen_run_def
proof (induction rule: rtranclp_induct)
  case (step u v)
  then have "kitchen_ok u" using kitchen_run_ok by (simp add: kitchen_run_def)
  then show ?case using kitchen_step_placed step by blast
qed simp

section \<open>Properties\<close>

text \<open>
  C25: Every stored row is well formed in every reachable state: the order of a task exists; a task
  is without staff and machine exactly while it is UNASSIGNED; from ASSIGNED on it has the machine
  of its recipe step, which stands at the task's counter, and an existing member of staff with the
  skill for that counter; it has a start time exactly from STARTED on and a completion time when it
  is COMPLETED; and a dependency joins two stored tasks of one order.
\<close>

theorem stored_rows_typed:
  assumes "ready_queue ops ids" and "service_run ops s w w'" and "world_ok ids w" and "well_placed (db w)"
  shows "(\<forall>t \<in> set (tasks (db w')).
      t_OrderID t \<in> o_ID ` set (orders (db w')) \<and>
      (t_Status t = TaskUnassigned \<longleftrightarrow> t_AssignedStaffID t = None) \<and>
      (t_Status t = TaskUnassigned \<longleftrightarrow> t_AssignedMachineID t = None) \<and>
      (TaskAssigned \<le> t_Status t \<longrightarrow> placed (db w') t) \<and>
      (TaskStarted \<le> t_Status t \<longleftrightarrow> t_StartedAt t \<noteq> None) \<and>
      (t_Status t = TaskCompleted \<longrightarrow> t_CompletedAt t \<noteq> None)) \<and>
    (\<forall>td \<in> set (task_dependencies (db w')). \<exists>t \<in> set (tasks (db w')). \<exists>p \<in> set (tasks (db w')).
      t_ID t = td_TaskID td \<and> t_ID p = td_DependsOnTaskID td \<and> t_OrderID p = t_OrderID t)"
proof -
  have run: "world_ok ids w'" "kitchen_run (kitchen_state ids {} w) (kitchen_state ids {} w')"
    using ready_queue.service_run_ok [OF assms(1-3)] by simp_all
  have "well_placed (db w')"
    using kitchen_run_placed [OF run(2)] assms(3,4) by (simp add: world_ok_def kitchen_state_def)
  then have placed: "TaskAssigned \<le> t_Status t \<longrightarrow> placed (db w') t" if "t \<in> set (tasks (db w'))" for t
    using that by (cases "t_Status t") (auto simp: well_placed_def less_eq_TaskStatus_def)
  have ok: "task_ok t" "t_OrderID t \<in> o_ID ` set (orders (db w'))" if "t \<in> set (tasks (db w'))" for t
    using run(1) that by (auto simp: world_ok_def kitchen_state_def kitchen_ok_def tasks_ok_def orders_ok_def)
  have columns: "(t_Status t = TaskUnassigned \<longleftrightarrow> t_AssignedStaffID t = None) \<and>
      (t_Status t = TaskUnassigned \<longleftrightarrow> t_AssignedMachineID t = None) \<and>
      (TaskStarted \<le> t_Status t \<longleftrightarrow> t_StartedAt t \<noteq> None) \<and>
      (t_Status t = TaskCompleted \<longrightarrow> t_CompletedAt t \<noteq> None)" if "task_ok t" for t
    using that by (cases "t_Status t") (auto simp: task_ok_def less_eq_TaskStatus_def)
  have "local_deps (db w')" using run(1) by (simp add: world_ok_def kitchen_state_def kitchen_ok_def gated_def)
  then have "\<exists>t \<in> set (tasks (db w')). \<exists>p \<in> set (tasks (db w')).
      t_ID t = td_TaskID td \<and> t_ID p = td_DependsOnTaskID td \<and> t_OrderID p = t_OrderID t"
    if "td \<in> set (task_dependencies (db w'))" for td
    using that unfolding local_deps_def order_of_def by metis
  then show ?thesis using ok placed columns by blast
qed

theorem stored_rows_typed_witness:
  "\<exists>w. StartTask calm 2 (world_of second_course) = (Inr (), w) \<and>
     placed (db w) (start_row 100000000000 (held_task 2 TaskAssigned))"
proof -
  obtain w where w: "StartTask calm 2 (world_of second_course) = (Inr (), w)"
      "start_row 100000000000 (held_task 2 TaskAssigned) \<in> set (tasks (db w))"
    by (rule second_started) simp
  have "service_run in_memory NewKitchenAppService (world_of second_course) w"
    using w(1) by (rule service_run_start)
  moreover have "well_placed (db (world_of second_course))"
    by (simp add: well_placed_def placed_def world_of_def second_course_defs)
  ultimately show ?thesis
    using stored_rows_typed [OF mem_contract _ sample_worlds(2)] w
    by (auto simp: start_row_def held_task_def less_eq_TaskStatus_def)
qed

end
