(* ===== verification/Services.thy ===== *)
theory Services imports
  Kitchen
begin

text \<open>
  What a call of a service does: the rows a successful one leaves, the events it appends to the
  outbox, the ids it puts into the queue, and that a refused one changes nothing. The queue is one
  that also keeps what it was given (\<open>storing_queue\<close>), which both implementations do.
\<close>

section \<open>Queues that keep their entries\<close>

locale storing_queue = ready_queue ops ids
  for ops :: "'q ready_queue_ops" and ids :: "'q \<Rightarrow> string set" +
  assumes enqueue_stores: "Enqueue ops i s q = (None, q') \<Longrightarrow> insert i (ids q) \<subseteq> ids q'"
begin

lemma enqueue_stored:
  "enqueue ops i score w = (Inr u, w') \<Longrightarrow> insert i (ids (queue w)) \<subseteq> ids (queue w') \<and> db w' = db w"
  using enqueue_stores by (fastforce simp: enqueue_def split: prod.splits option.splits)

end

interpretation mems: storing_queue in_memory mem_ids
proof (intro storing_queue.intro mem_contract storing_queue_axioms.intro)
  fix i s and q q' :: InMemoryReadyQueue
  assume "Enqueue in_memory i s q = (None, q')"
  then have "q' = q\<lparr>items := AList.update i s (items q)\<rparr>" by (simp add: in_memory_def mem_Enqueue_def)
  then show "insert i (mem_ids q) \<subseteq> mem_ids q'" by (simp add: mem_ids_def dom_update)
qed

lemma mem_storing: "storing_queue in_memory mem_ids"
  by (rule mems.storing_queue_axioms)

text \<open>A Redis server that stores what it acknowledges.\<close>

lemma redis_stores:
  assumes "redis_server client members"
    and "\<And>k s m r. fst (ZAdd client k s m r) = None \<Longrightarrow> insert m (members k r) \<subseteq> members k (snd (ZAdd client k s m r))"
  shows "storing_queue (redis_queue client key) (members key)"
proof (intro storing_queue.intro redis_meets_contract assms(1) storing_queue_axioms.intro)
  fix i s q q' assume "Enqueue (redis_queue client key) i s q = (None, q')"
  then have "ZAdd client key s i q = (None, q')" by (simp add: redis_queue_def redis_Enqueue_def)
  then show "insert i (members key q) \<subseteq> members key q'" using assms(2) [of key s i q] by simp
qed

section \<open>What is told\<close>

text \<open>\<open>emitted d d' evs\<close>: the outbox of \<open>d'\<close> is that of \<open>d\<close> and new unpublished rows for the task events \<open>evs\<close>.\<close>

definition tells :: "DomainEventModel \<Rightarrow> string \<times> nat \<Rightarrow> bool" where
  "tells row ev \<longleftrightarrow> e_EventType row = fst ev \<and> e_AggregateType row = ''task'' \<and>
     e_AggregateID row = FormatUint (snd ev) \<and> e_PublishedAt row = None \<and> e_NextRetryAt row = None \<and>
     (\<exists>now. e_Payload row = Marshal_event (task_event (fst ev) now (snd ev)))"

definition emitted :: "database \<Rightarrow> database \<Rightarrow> (string \<times> nat) list \<Rightarrow> bool" where
  "emitted d d' evs \<longleftrightarrow> (\<exists>rows. domain_events d' = domain_events d @ rows \<and> list_all2 tells rows evs)"

lemma emitted_none [simp]: "domain_events d' = domain_events d \<Longrightarrow> emitted d d' []"
  by (simp add: emitted_def)

lemma emitted_trans: "emitted d d' evs \<Longrightarrow> emitted d' d'' evs' \<Longrightarrow> emitted d d'' (evs @ evs')"
  unfolding emitted_def by (metis append.assoc list_all2_appendI)

lemma emitted_event:
  "emitted d (add_event ''task'' (FormatUint i) (task_event ty now i) t d) [(ty, i)]"
  by (auto simp: emitted_def add_event_def tells_def event_row_def task_event_def)

lemma emitted_insert:
  "InsertDomainEvent env ''task'' (FormatUint i) (task_event ty now i) w = (Inr u, w') \<Longrightarrow>
     emitted (db w) (db w') [(ty, i)]"
  using InsertDomainEvent_Inr emitted_event by metis

lemma emitted_frame: "emitted d d' evs \<Longrightarrow> domain_events d'' = domain_events d' \<Longrightarrow> emitted d d'' evs"
  by (simp add: emitted_def)

section \<open>Starting\<close>

lemma StartTask_Inr:
  assumes "StartTask env taskID w = (Inr u, w')"
  obtains t now where "t \<in> set (tasks (db w))" "t_ID t = taskID" "t_Status t = TaskAssigned"
    "t_AssignedMachineID t \<noteq> None" "now = clock env (tick w)" "same_core (start_db t now (db w)) (db w')"
    "emitted (db w) (db w') [(EventTaskStarted, taskID)]" "queue w' = queue w" "published w' = published w"
proof -
  let ?now = "clock env (tick w)"
  obtain w1 where b: "start_body env taskID ?now (w\<lparr>tick := Suc (Suc (tick w)), aborted := False\<rparr>) = (Inr u, w1)"
    and w': "w' = w1\<lparr>tick := Suc (tick w1)\<rparr>"
    using assms by (auto simp: StartTask_def and_then_Inr Now_run dest!: transaction_Inr)
  obtain r w2 where a: "UpdateTaskStatusStarted env taskID ?now (w\<lparr>tick := Suc (Suc (tick w)), aborted := False\<rparr>) = (Inr r, w2)"
    and m: "t_AssignedMachineID r \<noteq> None"
    and e: "InsertDomainEvent env ''task'' (FormatUint (t_ID r)) (task_event EventTaskStarted ?now (t_ID r)) w2 = (Inr u, w1)"
    using b unfolding start_body_def and_then_Inr by (auto split: if_splits)
  obtain t where t: "t \<in> set (tasks (db w))" "t_ID t = taskID" "t_Status t = TaskAssigned" "r = start_row ?now t"
    "db w2 = set_tasks (\<lambda>x. t_ID x = taskID) (start_row ?now) (db w)" "queue w2 = queue w" "published w2 = published w"
    using UpdateTaskStatusStarted_Inr [OF a] by (auto simp: quiet_def)
  have r: "t_ID r = taskID" "t_AssignedMachineID t \<noteq> None" using t m by (simp_all add: start_row_def)
  note E = InsertDomainEvent_core [OF e] and M = emitted_insert [OF e [unfolded r(1)]]
  have "same_core (start_db t ?now (db w)) (db w')" using E t(2,5) w' by (simp add: start_db_def the_task_fun)
  moreover have "emitted (db w) (db w') [(EventTaskStarted, taskID)]"
    using M t(5) w' by (simp add: emitted_def set_tasks_def)
  moreover have "queue w' = queue w" "published w' = published w" using E t(6,7) w' by (simp_all add: quiet_def)
  ultimately show thesis using that t(1-3) r(2) by blast
qed

text \<open>Without faults the rows alone decide: why a task cannot be started, if it cannot.\<close>

definition start_error :: "database \<Rightarrow> nat \<Rightarrow> error option" where
  "start_error d taskID =
     (case find (\<lambda>t. t_ID t = taskID) (tasks d) of
        None \<Rightarrow> Some ErrNotFound
      | Some t \<Rightarrow>
          if t_Status t \<noteq> TaskAssigned then Some (Errorf (task_text taskID '' is not ASSIGNED''))
          else if t_AssignedMachineID t = None then Some (Errorf (task_text taskID '' missing assigned machine''))
          else None)"

lemma sql_first_find:
  assumes "distinct (map t_ID ts)"
  shows "sql_first (\<lambda>t. t_ID t = i) t_ID ts = (case find (\<lambda>t. t_ID t = i) ts of None \<Rightarrow> Inl ErrNotFound | Some t \<Rightarrow> Inr t)"
proof (cases "find (\<lambda>t. t_ID t = i) ts")
  case None
  then have "sql_first (\<lambda>t. t_ID t = i) t_ID ts = Inl ErrNotFound" by (simp add: sql_first_Inl find_None_iff)
  then show ?thesis using None by simp
next
  case (Some t)
  then have "t \<in> set ts" "t_ID t = i" by (auto simp: find_Some_iff)
  then show ?thesis using Some sql_first_key [OF assms, of t "\<lambda>t. t_ID t = i"] by simp
qed

lemma quiet_tx:
  "fault env = (\<lambda>n. None) \<Longrightarrow> \<not> aborted w \<Longrightarrow> tx_statement env body w =
     (case body (tick w) (db w) of (Inl e, d) \<Rightarrow> (Inl e, w\<lparr>tick := Suc (tick w), db := d, aborted := e \<noteq> ErrNotFound\<rparr>)
      | (Inr x, d) \<Rightarrow> (Inr x, w\<lparr>tick := Suc (tick w), db := d\<rparr>))"
  by (auto simp: tx_statement_def statement_def Let_def split: prod.splits sum.splits)

text \<open>The definitions that evaluate a call on a small kitchen, statement by statement.\<close>

lemmas sql_run_defs = query_def modify_def sql_first_def sql_update_def update_tasks_def update_counters_def
  update_machines_def update_staff_def update_orders_def greatest_add_def int4_def any_order_def

lemmas service_run_defs = and_then_def ok_def fail_def Now_def Let_def transaction_def attempt_def
  LockTaskForAssignment_def LockCounter_def FindEligibleStaff_def LockMachineForTask_def LockStaff_def
  UpdateTaskAssignment_def IncrementCounterUsage_def IncrementMachineUsage_def MarkOrderInProgressIfConfirmed_def
  IncrementStaffActiveTasks_def InsertDomainEvent_def insert_event_def eligible_staff_def on_shift_def scan_staff_def
  RequeueExpiredAssignedTasks_def requeueExpiredAssignedTasks_def expired_def

lemma faultless_transaction:
  assumes "fault env = (\<lambda>n. None)" and "transaction env body w = (r, w')"
  obtains (failed) e w1 where "body (w\<lparr>tick := Suc (tick w), aborted := False\<rparr>) = (Inl e, w1)" "r = Inl e"
      "w' = rollback (db w) w1"
  | (broken) x w1 where "body (w\<lparr>tick := Suc (tick w), aborted := False\<rparr>) = (Inr x, w1)" "aborted w1" "\<exists>e. r = Inl e"
      "same_tables (db w) (db w')" "queue w' = queue w1" "published w' = published w1"
  | (committed) x w1 where "body (w\<lparr>tick := Suc (tick w), aborted := False\<rparr>) = (Inr x, w1)" "\<not> aborted w1" "r = Inr x"
      "w' = w1\<lparr>tick := Suc (tick w1)\<rparr>"
  using assms same_tables_rollback [of "db w"]
  by (cases "body (w\<lparr>tick := Suc (tick w), aborted := False\<rparr>)")
    (auto simp: transaction_def Let_def split: sum.splits if_splits; blast)

lemma StartTask_outcome:
  assumes "fault env = (\<lambda>n. None)" and "distinct (map t_ID (tasks (db w)))"
    and "Suc (domain_events_seq (db w)) \<notin> e_ID ` set (domain_events (db w))"
    and "StartTask env taskID w = (r, w')"
  shows "r = (case start_error (db w) taskID of Some e \<Rightarrow> Inl e | None \<Rightarrow> Inr ())"
proof -
  let ?now = "clock env (tick w)" and ?w = "w\<lparr>tick := Suc (Suc (tick w)), aborted := False\<rparr>"
  have tr: "transaction env (start_body env taskID ?now) (w\<lparr>tick := Suc (tick w)\<rparr>) = (r, w')"
    using assms(4) by (simp add: StartTask_def and_then_def Now_def)
  have upd: "update_tasks P (\<lambda>t. Inr (f t)) (db w) = Inr ((db w)\<lparr>tasks := map (\<lambda>t. if P t then f t else t) (tasks (db w))\<rparr>)" for P f
    by (simp add: update_tasks_def sql_update_pure)
  have "\<exists>w1. start_body env taskID ?now ?w = (case start_error (db w) taskID of Some e \<Rightarrow> Inl e | None \<Rightarrow> Inr (), w1) \<and>
    (start_error (db w) taskID = None \<longrightarrow> \<not> aborted w1)"
  proof (cases "find (\<lambda>t. t_ID t = taskID) (tasks (db w))")
    case None
    then show ?thesis
      using assms(1,2)
      by (simp add: start_body_def UpdateTaskStatusStarted_def lock_task_def and_then_def quiet_tx query_def
          start_error_def sql_first_find)
  next
    case (Some t)
    then have "t_ID t = taskID" by (auto simp: find_Some_iff)
    then show ?thesis
      using assms(1-3) Some
      by (simp add: start_body_def UpdateTaskStatusStarted_def lock_task_def InsertDomainEvent_def insert_event_def
        and_then_def quiet_tx query_def modify_def upd ok_def fail_def start_error_def sql_first_find Let_def)
  qed
  then show ?thesis
    using tr by (cases rule: faultless_transaction [OF assms(1)]) (auto split: option.splits)
qed

lemma published_tx [frame_intros]: "keeps (\<lambda>v. published v = msgs) (tx_statement env body)"
  by (auto simp: keeps_def tx_statement_def statement_def Let_def split: prod.splits sum.splits option.splits)

lemma StartTask_failed:
  assumes "fault env = (\<lambda>n. None)" and "StartTask env taskID w = (r, w')" and "r \<noteq> Inr ()"
  shows "same_tables (db w) (db w') \<and> queue w' = queue w \<and> published w' = published w"
proof -
  obtain now w0 where n: "Now env w = (Inr now, w0)" and tr: "transaction env (start_body env taskID now) w0 = (r, w')"
    using assms(2) unfolding StartTask_def and_then_def by (auto simp: Now_def)
  have w0: "db w0 = db w" "queue w0 = queue w" "published w0 = published w"
    using Now_Inr [OF n] by (simp_all add: quiet_def)
  have k: "keeps (\<lambda>v. published v = published w) (start_body env taskID now)"
    unfolding start_body_def UpdateTaskStatusStarted_def lock_task_def InsertDomainEvent_def
    by (intro frame_intros)
  have p: "published w1 = published w"
    if "start_body env taskID now (w0\<lparr>tick := Suc (tick w0), aborted := False\<rparr>) = (x, w1)" for x w1
    using keepsD [OF k _ that] w0 by simp
  have q: "queue w1 = queue w"
    if "start_body env taskID now (w0\<lparr>tick := Suc (tick w0), aborted := False\<rparr>) = (x, w1)" for x w1
    using queue_keptD [OF start_body_kept that] w0 by simp
  from tr show ?thesis
    by (cases rule: faultless_transaction [OF assms(1)])
      (use p q w0 assms(3) same_tables_rollback [of "db w"] in auto)
qed

section \<open>Completing\<close>

lemma settle_events [simp]: "domain_events (settle_db t sid mid n tc tm secs eff d) = domain_events d"
  by (simp add: settle_db_def release_deps_def credit_staff_def adjust_machine_def adjust_counter_def set_tasks_def)

lemma complete_post_emits:
  assumes "complete_post env task now w = (Inr u, w')"
  shows "emitted (db w) (db w') [(EventTaskCompleted, t_ID task)]"
proof -
  obtain u1 u2 b w1 w2 where
    a: "InsertDomainEvent env ''task'' (FormatUint (t_ID task)) (task_event EventTaskCompleted now (t_ID task)) w = (Inr u1, w1)" and
    m: "MarkOrderPartCompletedIfNotDone env (t_OrderID task) w1 = (Inr u2, w2)" and
    c: "CompleteOrderIfAllTasksDone env (t_OrderID task) w2 = (Inr b, w')"
    using assms unfolding complete_post_def and_then_Inr by auto
  have "domain_events (db w') = domain_events (db w1)"
    using MarkOrderPartCompletedIfNotDone_Inr [OF m] CompleteOrderIfAllTasksDone_Inr [OF c]
    by (simp add: set_order_status_def)
  then show ?thesis using emitted_frame [OF emitted_insert [OF a]] by blast
qed

text \<open>What happens to each row when a task completes.\<close>

definition completed_row :: "database \<Rightarrow> nat \<Rightarrow> int \<Rightarrow> TaskModel \<Rightarrow> TaskModel" where
  "completed_row d taskID now x =
     (if t_ID x = taskID then x\<lparr>t_Status := TaskCompleted, t_CompletedAt := Some now\<rparr>
      else if t_Status x = TaskUnassigned \<and> depends_on d (t_ID x) taskID
      then x\<lparr>t_PendingDeps := max (t_PendingDeps x - 1) 0\<rparr> else x)"

lemma row_after_completed: "row_after d t n = completed_row d (t_ID t) n"
  by (auto simp: fun_eq_iff row_after_def completed_row_def waits_for_def count_down_def complete_row_def Let_def)

context storing_queue
begin

lemma release_child_Inr:
  assumes "release_child env ops s now c w = (Inr u, w')" and "t_Status c = TaskUnassigned" "t_PendingDeps c = 0"
  shows "insert (FormatUint (t_ID c)) (ids (queue w)) \<subseteq> ids (queue w') \<and>
    emitted (db w) (db w') [(EventTaskReady, t_ID c)] \<and> same_core (db w) (db w')"
proof -
  obtain score w1 w2 where q: "queueScore env s (t_BasePriority c) (t_CreatedAt c) w = (Inr score, w1)"
    and e: "enqueue ops (FormatUint (t_ID c)) score w1 = (Inr (), w2)"
    and i: "InsertDomainEvent env ''task'' (FormatUint (t_ID c)) (task_event EventTaskReady now (t_ID c)) w2 = (Inr u, w')"
    using assms by (auto simp: release_child_def and_then_Inr [of "queueScore env s b k" for b k]
        and_then_Inr [of "enqueue ops j k" for j k])
  show ?thesis
    using queueScore_run [OF q] enqueue_stored [OF e] emitted_insert [OF i] InsertDomainEvent_core [OF i]
    by (auto simp: quiet_def)
qed

lemma release_children_Inr:
  assumes "for_each (release_child env ops s now) cs w = (Inr u, w')"
    and "\<And>c. c \<in> set cs \<Longrightarrow> t_Status c = TaskUnassigned \<and> t_PendingDeps c = 0"
  shows "FormatUint ` t_ID ` set cs \<union> ids (queue w) \<subseteq> ids (queue w') \<and>
    emitted (db w) (db w') (map (\<lambda>c. (EventTaskReady, t_ID c)) cs) \<and> same_core (db w) (db w')"
  using assms
proof (induction cs arbitrary: w)
  case (Cons c cs)
  obtain v w1 where h: "release_child env ops s now c w = (Inr v, w1)"
    and rest: "for_each (release_child env ops s now) cs w1 = (Inr u, w')"
    using Cons.prems(1) by (auto simp: and_then_Inr)
  have H: "insert (FormatUint (t_ID c)) (ids (queue w)) \<subseteq> ids (queue w1)"
    "emitted (db w) (db w1) [(EventTaskReady, t_ID c)]" "same_core (db w) (db w1)"
    using release_child_Inr [OF h] Cons.prems(2) [of c] by auto
  have R: "FormatUint ` t_ID ` set cs \<union> ids (queue w1) \<subseteq> ids (queue w')"
    "emitted (db w1) (db w') (map (\<lambda>c. (EventTaskReady, t_ID c)) cs)" "same_core (db w1) (db w')"
    using Cons.IH [OF rest] Cons.prems(2) by auto
  show ?case
    using H(1) R(1) emitted_trans [OF H(2) R(2)] same_core_trans [OF H(3) R(3)] by auto
qed simp

lemma CompleteTask_Inr:
  assumes "CompleteTask env ops s taskID w = (Inr u, w')"
  obtains t sid mid now tc tm secs eff children where
    "t \<in> set (tasks (db w))" "t_ID t = taskID" "t_Status t = TaskStarted"
    "t_AssignedStaffID t = Some sid" "t_AssignedMachineID t = Some mid"
    "now = clock env (tick w)" "same_core (complete_db t sid mid now tc tm secs eff (db w)) (db w')"
    "set children = {x \<in> set (tasks (db w')). t_Status x = TaskUnassigned \<and> t_PendingDeps x = 0 \<and>
       depends_on (db w) (t_ID x) taskID}"
    "FormatUint ` t_ID ` set children \<union> ids (queue w) \<subseteq> ids (queue w')"
    "emitted (db w) (db w') (map (\<lambda>c. (EventTaskReady, t_ID c)) children @ [(EventTaskCompleted, taskID)])"
proof -
  let ?now = "clock env (tick w)" and ?w = "w\<lparr>tick := Suc (Suc (tick w)), aborted := False\<rparr>"
  obtain v where b: "complete_body env ops s taskID ?now ?w = (Inr u, v)" and w': "w' = v\<lparr>tick := Suc (tick v)\<rparr>"
    using assms by (auto simp: CompleteTask_def and_then_Inr Now_run dest!: transaction_Inr)
  obtain task children w1 w2 where pre: "complete_pre env taskID ?now ?w = (Inr (task, children), w1)"
    and each: "for_each (release_child env ops s ?now) children w1 = (Inr (), w2)"
    and post: "complete_post env task ?now w2 = (Inr u, v)"
    using b by (auto simp: complete_body_parts and_then_Inr split: prod.splits)
  obtain t sid mid tc tm secs eff where t: "t \<in> set (tasks (db w))" "t_ID t = taskID"
    "t_Status t = TaskStarted" "task = complete_row ?now t"
    "t_AssignedStaffID t = Some sid" "t_AssignedMachineID t = Some mid"
    "db w1 = settle_db t sid mid ?now tc tm secs eff (db w)" "queue w1 = queue w"
    "set children = {x \<in> set (tasks (db w1)). t_Status x = TaskUnassigned \<and> t_PendingDeps x = 0 \<and>
       depends_on (db w) (t_ID x) taskID}"
    by (rule complete_pre_Inr [OF pre]) (simp add: quiet_def)
  note E = release_children_Inr [OF each] and P = complete_post_Inr [OF post]
  have ready: "c \<in> set children \<Longrightarrow> t_Status c = TaskUnassigned \<and> t_PendingDeps c = 0" for c using t(9) by auto
  have core: "same_core (complete_db t sid mid ?now tc tm secs eff (db w)) (db w')"
  proof -
    have o: "t_OrderID task = t_OrderID t" using t(4) by (simp add: complete_row_def)
    have "complete_db t sid mid ?now tc tm secs eff (db w) = finish_order (t_OrderID t)
        (set_order_status (t_OrderID t) {OrderConfirmed, OrderInProgress} OrderPartCompleted (db w1))"
      by (simp only: complete_db_def settle_db_def t(7))
    moreover have "same_core (db w1) (db w2)" using E [OF ready] by blast
    note finish_core(1) [OF finish_core(2) [OF this]]
    ultimately show ?thesis using P same_core_trans unfolding o w' by simp metis
  qed
  have "tasks (db w') = tasks (db w1)"
    using P E [OF ready] w' by (simp add: same_core_def finish_order_def set_order_status_def)
  then have ch: "set children = {x \<in> set (tasks (db w')). t_Status x = TaskUnassigned \<and> t_PendingDeps x = 0 \<and>
       depends_on (db w) (t_ID x) taskID}" using t(9) by simp
  have "queue w' = queue w2" using P w' by (simp add: quiet_def)
  then have q: "FormatUint ` t_ID ` set children \<union> ids (queue w) \<subseteq> ids (queue w')" using E [OF ready] t(8) by simp
  have "emitted (db w) (db w1) []" using t(7) by simp
  from emitted_trans [OF emitted_trans [OF this E [OF ready, THEN conjunct2, THEN conjunct1]] complete_post_emits [OF post]]
  have m: "emitted (db w) (db w') (map (\<lambda>c. (EventTaskReady, t_ID c)) children @ [(EventTaskCompleted, taskID)])"
    using t(2,4) w' by (simp add: complete_row_def)
  show thesis by (rule that [OF t(1-3,5,6) refl core ch q m])
qed

end

section \<open>Properties of starting and completing\<close>

text \<open>
  C20: A task is started only from ASSIGNED with its machine known. Only its row changes, to STARTED
  at the time of the call, and exactly one TASK_STARTED event for it is appended to the outbox, in the
  same transaction; orders, figures, queue and broker stay as they are.
\<close>

theorem start_task_effect:
  assumes "StartTask env taskID w = (Inr u, w')"
  shows "(\<exists>t \<in> set (tasks (db w)). t_ID t = taskID \<and> t_Status t = TaskAssigned \<and> t_AssignedMachineID t \<noteq> None) \<and>
    tasks (db w') = map (\<lambda>t. if t_ID t = taskID
      then t\<lparr>t_Status := TaskStarted, t_StartedAt := Some (clock env (tick w))\<rparr> else t) (tasks (db w)) \<and>
    orders (db w') = orders (db w) \<and> counters (db w') = counters (db w) \<and> staff (db w') = staff (db w) \<and>
    machines (db w') = machines (db w) \<and> task_dependencies (db w') = task_dependencies (db w) \<and>
    emitted (db w) (db w') [(EventTaskStarted, taskID)] \<and> queue w' = queue w \<and> published w' = published w"
proof -
  obtain t now where t: "t \<in> set (tasks (db w))" "t_ID t = taskID" "t_Status t = TaskAssigned"
    "t_AssignedMachineID t \<noteq> None" "now = clock env (tick w)" "same_core (start_db t now (db w)) (db w')"
    "emitted (db w) (db w') [(EventTaskStarted, taskID)]" "queue w' = queue w" "published w' = published w"
    by (rule StartTask_Inr [OF assms])
  have "tasks (db w') = map (\<lambda>t. if t_ID t = taskID
      then t\<lparr>t_Status := TaskStarted, t_StartedAt := Some (clock env (tick w))\<rparr> else t) (tasks (db w))"
    using t(2,5,6) by (simp add: same_core_def start_db_tasks map_where_def start_row_def)
  then show ?thesis using t by (auto simp: same_core_def start_db_def set_tasks_def)
qed

theorem start_task_effect_witness:
  "\<exists>w. StartTask calm 1 (world_of (kitchen_at TaskAssigned)) = (Inr (), w) \<and>
     emitted (kitchen_at TaskAssigned) (db w) [(EventTaskStarted, 1)]"
proof -
  obtain w where w: "StartTask calm 1 (world_of (kitchen_at TaskAssigned)) = (Inr (), w)"
    by (rule started_sample)
  from start_task_effect [OF w] w show ?thesis by (simp add: world_of_def)
qed

text \<open>
  C21: When no statement fails, the row of the task alone decides about a start: not found, not
  ASSIGNED or without a machine is refused with that reason and nothing is changed; any other
  start succeeds.
\<close>

theorem start_task_outcome:
  assumes "fault env = (\<lambda>n. None)" and "distinct (map t_ID (tasks (db w)))"
    and "Suc (domain_events_seq (db w)) \<notin> e_ID ` set (domain_events (db w))"
    and "StartTask env taskID w = (r, w')"
  shows "r = (case start_error (db w) taskID of Some e \<Rightarrow> Inl e | None \<Rightarrow> Inr ()) \<and>
    (start_error (db w) taskID \<noteq> None \<longrightarrow>
       same_tables (db w) (db w') \<and> queue w' = queue w \<and> published w' = published w)"
proof -
  note r = StartTask_outcome [OF assms]
  show ?thesis using r StartTask_failed [OF assms(1,4)] by (auto split: option.splits)
qed

theorem start_task_outcome_witness:
  "\<exists>w'. StartTask calm 2 (world_of (kitchen_at TaskAssigned)) =
     (Inl (Errorf (task_text 2 '' is not ASSIGNED'')), w') \<and> same_tables (kitchen_at TaskAssigned) (db w')"
proof -
  let ?w = "world_of (kitchen_at TaskAssigned)"
  obtain r w' where run: "StartTask calm 2 ?w = (r, w')" by force
  have "start_error (db ?w) 2 = Some (Errorf (task_text 2 '' is not ASSIGNED''))"
    by (simp add: start_error_def world_of_def kitchen_at_defs)
  with start_task_outcome [OF _ _ _ run] show ?thesis
    using run by (simp add: calm_def) (simp add: world_of_def kitchen_at_defs)
qed

text \<open>
  C9: A task is completed only from STARTED, by the member of staff and on the machine it was assigned to. Its
  row becomes COMPLETED at the time of the call, every unassigned task that depends on it counts
  one dependency less, and no other row of the table changes. Those left without a dependency are in the queue and
  have a TASK_READY event each, followed by the TASK_COMPLETED event.
\<close>

theorem complete_task_effect:
  assumes "storing_queue ops ids" and "CompleteTask env ops s taskID w = (Inr u, w')"
  shows "\<exists>children.
    (\<exists>t \<in> set (tasks (db w)). t_ID t = taskID \<and> t_Status t = TaskStarted \<and> t_AssignedStaffID t \<noteq> None \<and>
       t_AssignedMachineID t \<noteq> None) \<and>
    tasks (db w') = map (completed_row (db w) taskID (clock env (tick w))) (tasks (db w)) \<and>
    set children = {x \<in> set (tasks (db w')). t_Status x = TaskUnassigned \<and> t_PendingDeps x = 0 \<and>
       depends_on (db w) (t_ID x) taskID} \<and>
    FormatUint ` t_ID ` set children \<union> ids (queue w) \<subseteq> ids (queue w') \<and>
    emitted (db w) (db w') (map (\<lambda>c. (EventTaskReady, t_ID c)) children @ [(EventTaskCompleted, taskID)])"
proof -
  obtain t sid mid now tc tm secs eff children where t:
    "t \<in> set (tasks (db w))" "t_ID t = taskID" "t_Status t = TaskStarted"
    "t_AssignedStaffID t = Some sid" "t_AssignedMachineID t = Some mid"
    "now = clock env (tick w)" "same_core (complete_db t sid mid now tc tm secs eff (db w)) (db w')"
    and ch: "set children = {x \<in> set (tasks (db w')). t_Status x = TaskUnassigned \<and> t_PendingDeps x = 0 \<and>
       depends_on (db w) (t_ID x) taskID}"
    "FormatUint ` t_ID ` set children \<union> ids (queue w) \<subseteq> ids (queue w')"
    "emitted (db w) (db w') (map (\<lambda>c. (EventTaskReady, t_ID c)) children @ [(EventTaskCompleted, taskID)])"
    by (rule storing_queue.CompleteTask_Inr [OF assms])
  have "tasks (db w') = map (completed_row (db w) taskID (clock env (tick w))) (tasks (db w))"
    using t(2,6,7) complete_db_rows by (simp add: same_core_def row_after_completed)
  then show ?thesis using t(1-5) ch by (intro exI [of _ children]) auto
qed

text \<open>A kitchen whose only task has been started.\<close>

definition one_task :: database where
  "one_task = (kitchen_at TaskStarted)\<lparr>tasks := [held_task 1 TaskStarted], task_dependencies := []\<rparr>"

lemma one_task_completed:
  obtains w where "CompleteTask calm in_memory NewKitchenAppService 1 (world_of one_task) = (Inr (), w)"
proof -
  have "fst (CompleteTask calm in_memory NewKitchenAppService 1 (world_of one_task)) = Inr ()" by code_simp
  then show ?thesis using that by (metis prod.collapse)
qed

theorem complete_task_effect_witness:
  "\<exists>w. CompleteTask calm in_memory NewKitchenAppService 1 (world_of one_task) = (Inr (), w) \<and>
     map t_Status (tasks (db w)) = [TaskCompleted]"
proof -
  obtain w where w: "CompleteTask calm in_memory NewKitchenAppService 1 (world_of one_task) = (Inr (), w)"
    by (rule one_task_completed)
  from complete_task_effect [OF mem_storing w] w show ?thesis
    by (auto simp: world_of_def one_task_def completed_row_def held_task_def tea_task_def)
qed

end
