(* ===== verification/Allocation.thy ===== *)
theory Allocation imports
  Services
begin

text \<open>
  What an allocation run reports: the id it returns is that of a task which it has assigned to a
  member of staff with the skill and to the machine of its recipe step.
\<close>

section \<open>Well assigned tasks\<close>

definition well_assigned :: "database \<Rightarrow> TaskModel \<Rightarrow> bool" where
  "well_assigned d t \<longleftrightarrow> t_Status t = TaskAssigned \<and> t_PendingDeps t = 0 \<and>
     (\<exists>k \<in> set (staff_skills d). k_CounterID k = t_CounterID t \<and> t_AssignedStaffID t = Some (k_StaffID k)) \<and>
     (\<exists>m \<in> set (machines d). m_CounterID m = t_CounterID t \<and> t_MachineID t = Some (m_ID m) \<and>
        t_AssignedMachineID t = Some (m_ID m))"

text \<open>What the fold over the popped ids carries along.\<close>

definition holds :: "database \<Rightarrow> nat \<Rightarrow> bool" where
  "holds d i \<longleftrightarrow> (\<exists>t \<in> set (tasks d). t_ID t = i \<and> well_assigned d t)"

definition grows :: "database \<Rightarrow> database \<Rightarrow> bool" where
  "grows d d' \<longleftrightarrow> (distinct (map t_ID (tasks d)) \<longrightarrow>
     distinct (map t_ID (tasks d')) \<and> (\<forall>i. holds d i \<longrightarrow> holds d' i))"

lemma grows_refl [simp]: "grows d d"
  by (simp add: grows_def)

lemma grows_trans: "grows d d' \<Longrightarrow> grows d' d'' \<Longrightarrow> grows d d''"
  by (simp add: grows_def)

lemma machines_kept:
  "m \<in> set (machines d) \<Longrightarrow> same_core (assign_db t sid mid now tc tm d) d' \<Longrightarrow>
     \<exists>m' \<in> set (machines d'). m_ID m' = m_ID m \<and> m_CounterID m' = m_CounterID m"
proof -
  let ?f = "\<lambda>x. if m_ID x = mid then x\<lparr>m_InUse := max (m_InUse x + 1) 0, m_UpdatedAt := tm\<rparr> else x"
  assume m: "m \<in> set (machines d)" and core: "same_core (assign_db t sid mid now tc tm d) d'"
  have "machines d' = map ?f (machines d)"
    using core by (simp add: same_core_def assign_db_def adjust_machine_def map_where_def adjust_staff_def
        set_order_status_def adjust_counter_def set_tasks_def)
  then have "?f m \<in> set (machines d')" using imageI [OF m, of ?f] by (simp only: list.set_map)
  moreover have "m_ID (?f m) = m_ID m \<and> m_CounterID (?f m) = m_CounterID m" by simp
  ultimately show ?thesis by (intro bexI)
qed

lemma skills_kept: "same_core (assign_db t sid mid now tc tm d) d' \<Longrightarrow> staff_skills d' = staff_skills d"
  by (simp add: same_core_def assign_db_def adjust_machine_def adjust_staff_def
      set_order_status_def adjust_counter_def set_tasks_def)

lemma assign_grows:
  assumes "same_core (assign_db t sid mid now tc tm d) d'" and "t \<in> set (tasks d)" "t_Status t = TaskUnassigned"
  shows "grows d d'"
  unfolding grows_def
proof (intro impI conjI allI)
  assume dist: "distinct (map t_ID (tasks d))"
  have ts: "tasks d' = map_where (the_task t) (assign_row sid mid now) (tasks d)"
    using assms(1) by (simp add: same_core_def assign_db_tasks)
  show "distinct (map t_ID (tasks d'))"
    using dist map_where_keys [of "tasks d" "the_task t" t_ID "assign_row sid mid now"]
    by (simp add: ts assign_row_def)
  fix i assume "holds d i"
  then obtain x where x: "x \<in> set (tasks d)" "t_ID x = i" "well_assigned d x" by (auto simp: holds_def)
  have "t_ID x \<noteq> t_ID t"
  proof
    assume "t_ID x = t_ID t"
    then have "x = t" using dist x(1) assms(2) by (metis distinct_map inj_on_eq_iff)
    then show False using x(3) assms(3) by (simp add: well_assigned_def)
  qed
  then have "x \<in> set (tasks d')" using x(1) by (auto simp: ts map_where_def the_task_fun)
  moreover have "well_assigned d' x"
    using x(3) machines_kept [OF _ assms(1)] skills_kept [OF assms(1)] unfolding well_assigned_def by metis
  ultimately show "holds d' i" using x(2) by (auto simp: holds_def)
qed

lemma assign_body_holds:
  assumes "assign_body env s now taskID w = (Inr r, w')"
  shows "r = taskID \<and> grows (db w) (db w') \<and> holds (db w') taskID"
proof -
  obtain t c m st tc tm where h:
    "t \<in> set (tasks (db w))" "t_ID t = taskID" "t_Status t = TaskUnassigned" "t_PendingDeps t = 0"
    "m \<in> set (machines (db w))" "t_MachineID t = Some (m_ID m)" "m_CounterID m = t_CounterID t"
    "st \<in> set (eligible_staff (t_CounterID t) now (db w))"
    and core: "same_core (assign_db t (s_ID st) (m_ID m) now tc tm (db w)) (db w')" and r: "r = taskID"
    using assign_body_Inr [OF assms] by metis
  let ?t = "assign_row (s_ID st) (m_ID m) now t"
  have "?t \<in> set (tasks (db w'))"
    using core h(1) by (auto simp: same_core_def assign_db_tasks map_where_def)
  moreover have "\<exists>k \<in> set (staff_skills (db w')). k_StaffID k = s_ID st \<and> k_CounterID k = t_CounterID t"
    using h(8) skills_kept [OF core] by (auto simp: eligible_staff_set)
  then have "well_assigned (db w') ?t"
    using machines_kept [OF h(5) core] h(4,6,7) by (auto simp: well_assigned_def assign_row_def)
  ultimately have "holds (db w') taskID" using h(2) by (auto simp: holds_def assign_row_def intro!: bexI [of _ ?t])
  then show ?thesis using r assign_grows [OF core h(1,3)] by simp
qed

lemma same_tables_grows: "same_tables d d' \<Longrightarrow> grows d d'"
  using same_tables_eqs [of d d'] by (simp add: grows_def holds_def well_assigned_def)

lemma transaction_assign:
  assumes "transaction env (assign_body env s now taskID) w = (r, w')"
  shows "grows (db w) (db w') \<and> (\<forall>i. r = Inr i \<longrightarrow> i = taskID \<and> holds (db w') i)"
  using assms
proof (cases rule: transaction_outcome)
  case (committed x w1)
  then show ?thesis using assign_body_holds [OF committed(1)] by auto
qed (auto intro: same_tables_grows)

lemma put_back_db:
  assumes "put_back env ops s taskID a w = (r, w')"
  shows "db w' = db w \<and> r = Inr a"
proof -
  obtain g w1 where g: "GetTaskByID env taskID w = (g, w1)" by force
  have w1: "db w1 = db w" using statement_query_keeps g [unfolded GetTaskByID_def] by blast
  show ?thesis
    using assms g w1
    by (auto simp: put_back_def and_then_def attempt_def ok_def queueScore_def Now_def enqueue_def
        split: sum.splits if_splits prod.splits option.splits)
qed

lemma allocate_one_holds:
  assumes "allocate_one env ops s now raw a w = (Inr b, w')"
  shows "grows (db w) (db w') \<and> (b = a \<or> holds (db w') b)"
proof (cases "ParseUint raw")
  case (Inl e)
  then show ?thesis using assms by (simp add: allocate_one_def)
next
  case (Inr taskID)
  obtain x w1 where t: "transaction env (assign_body env s now taskID) w = (x, w1)" by force
  note T = transaction_assign [OF t]
  show ?thesis
  proof (cases x)
    case (Inr i)
    then show ?thesis
      using assms \<open>ParseUint raw = Inr taskID\<close> t T
      by (auto simp: allocate_one_def and_then_def attempt_def ok_def split: if_splits)
  next
    case (Inl e)
    then have "put_back env ops s taskID a w1 = (Inr b, w')"
      using assms \<open>ParseUint raw = Inr taskID\<close> t
      by (simp add: allocate_one_def put_back_def and_then_def attempt_def)
    from put_back_db [OF this] show ?thesis using T by auto
  qed
qed

lemma allocate_fold_holds:
  assumes "fold_act (allocate_one env ops s now) raws a w = (Inr b, w')" and "distinct (map t_ID (tasks (db w)))"
  shows "b = a \<or> holds (db w') b"
proof -
  have "grows (db w) (db w') \<and> (b = a \<or> (distinct (map t_ID (tasks (db w))) \<longrightarrow> holds (db w') b))"
    using assms(1)
  proof (induction raws arbitrary: a w)
    case (Cons raw raws)
    obtain c w1 where one: "allocate_one env ops s now raw a w = (Inr c, w1)"
      and rest: "fold_act (allocate_one env ops s now) raws c w1 = (Inr b, w')"
      using Cons.prems by (auto simp: and_then_Inr)
    then show ?case
      using allocate_one_holds [OF one] Cons.IH [OF rest] grows_trans unfolding grows_def by blast
  qed simp
  then show ?thesis using assms(2) by blast
qed

section \<open>Properties\<close>

text \<open>
  C13: The id an allocation run returns is 0 or that of a task which is ASSIGNED at the end of the run, has no open dependency,
  and is held by a member of staff with the skill for its counter and by the machine its recipe step names, at that counter.
\<close>

theorem allocation_reports_assigned:
  assumes "ready_queue ops ids" and "world_ok ids w" and "AllocateOnce env ops s w = (Inr i, w')" and "i \<noteq> 0"
  shows "\<exists>t \<in> set (tasks (db w')). t_ID t = i \<and> well_assigned (db w') t"
proof -
  obtain now w0 where n: "Now env w = (Inr now, w0)" by (simp add: Now_def)
  obtain u w1 raws w2 where q: "requeueExpiredAssignedTasks env ops s now w0 = (Inr u, w1)"
    and p: "pop_top ops 20 w1 = (Inr raws, w2)"
    and f: "fold_act (allocate_one env ops s now) raws 0 w2 = (Inr i, w')"
    using assms(3,4) n by (auto simp: AllocateOnce_def and_then_Inr ok_def split: if_splits)
  have "kitchen_ok (kitchen_state ids {} w0)"
    using assms(2) Now_Inr [OF n] by (simp add: world_ok_def kitchen_state_def quiet_def)
  from kitchen_run_ok [OF ready_queue.requeueExpired_run [OF assms(1) q this] this]
  have "distinct (map t_ID (tasks (db w1)))" by (simp add: kitchen_state_def kitchen_ok_def keys_def)
  moreover have "db w2 = db w1" using p by (auto simp: pop_top_def split: prod.splits)
  ultimately show ?thesis using allocate_fold_holds [OF f] assms(4) by (simp add: holds_def)
qed

text \<open>A kitchen with one task, which is ready and in the queue.\<close>

definition ready_kitchen :: database where
  "ready_kitchen = empty_kitchen\<lparr>
     orders := [\<lparr>o_ID = 1, o_ExternalOrderID = ''a'', o_Status = OrderConfirmed, o_CreatedAt = 0\<rparr>],
     tasks := [tea_task 1 TaskUnassigned 0], orders_seq := 1, tasks_seq := 1\<rparr>"

definition ready_world :: "InMemoryReadyQueue world" where
  "ready_world = (world_of ready_kitchen)\<lparr>queue := \<lparr>items = [(''1'', - 1)]\<rparr>\<rparr>"

lemmas ready_defs = ready_world_def ready_kitchen_def empty_kitchen_def tea_task_def world_of_def

lemma one_text: "FormatUint 1 = ''1''" "ParseUint ''1'' = Inr 1"
proof -
  have "digit_char 1 = CHR ''1''" by code_simp
  then show "FormatUint 1 = ''1''" by (subst FormatUint.simps) simp
  then show "ParseUint ''1'' = Inr 1" using ParseUint_FormatUint [of 1] by simp
qed

lemma ready_world_ok: "world_ok mem_ids ready_world"
proof -
  have "ready_ids mem_ids (queue ready_world) = {1}"
    by (auto simp: ready_ids_def mem_ids_def ready_world_def one_text simp del: One_nat_def)
  moreover have "keys ready_kitchen" by (simp add: keys_def ready_defs)
  moreover have "tasks_ok ready_kitchen" by (simp add: tasks_ok_def task_ok_def ready_defs)
  moreover have "figures_ok ready_kitchen"
    by (simp add: figures_ok_def accounts_def occupies_def ready_defs)
  moreover have "limits_ok ready_kitchen" by (simp add: limits_ok_def in_limits_def ready_defs)
  moreover have "{t \<in> set (tasks ready_kitchen). t_OrderID t = 1} = {tea_task 1 TaskUnassigned 0}"
    by (auto simp: ready_kitchen_def tea_task_def)
  then have "statuses ready_kitchen 1 = {TaskUnassigned}" by (simp add: statuses_def tea_task_def)
  then have "orders_ok ready_kitchen" by (simp add: orders_ok_def status_fits_def ready_defs)
  moreover have "known {1} ready_kitchen" by (simp add: known_def ready_defs)
  moreover have "gated {1} ready_kitchen"
    by (simp add: gated_def local_deps_def settled_def task_settled_def open_deps_def ready_defs)
  ultimately have "kitchen_ok (ready_ids mem_ids (queue ready_world), ready_kitchen)" by (simp add: kitchen_ok_def)
  moreover have "db ready_world = ready_kitchen" "domain_events ready_kitchen = []" by (simp_all add: ready_defs)
  ultimately show ?thesis by (simp add: world_ok_def kitchen_state_def outbox_ok_def)
qed

lemma ready_assign:
  assumes "db v = ready_kitchen" "\<not> aborted v"
  obtains v' where "assign_body calm NewKitchenAppService 100000000000 1 v = (Inr 1, v')" "\<not> aborted v'"
proof -
  have "fst (assign_body calm NewKitchenAppService 100000000000 1 v) = Inr 1 \<and>
      \<not> aborted (snd (assign_body calm NewKitchenAppService 100000000000 1 v))"
    using assms
    by (simp add: assign_body_def ready_defs calm_def service_run_defs sql_run_defs quiet_tx del: One_nat_def)
  then show ?thesis using that by (metis prod.collapse)
qed

lemma ready_requeue:
  assumes "db v = ready_kitchen"
  obtains v' where "requeueExpiredAssignedTasks calm in_memory NewKitchenAppService now v = (Inr (), v')"
    "db v' = ready_kitchen" "queue v' = queue v"
proof -
  have "fst (requeueExpiredAssignedTasks calm in_memory NewKitchenAppService now v) = Inr () \<and>
    db (snd (requeueExpiredAssignedTasks calm in_memory NewKitchenAppService now v)) = ready_kitchen \<and>
    queue (snd (requeueExpiredAssignedTasks calm in_memory NewKitchenAppService now v)) = queue v"
    using assms by (simp add: ready_defs calm_def service_run_defs sql_run_defs quiet_tx del: One_nat_def)
  then show ?thesis using that by (metis prod.collapse)
qed

lemma ready_world_allocates:
  obtains w where "AllocateOnce calm in_memory NewKitchenAppService ready_world = (Inr 1, w)"
proof -
  let ?w = "ready_world\<lparr>tick := 101\<rparr>" and ?now = "100000000000"
  have now: "Now calm ready_world = (Inr ?now, ?w)"
    by (simp add: Now_def calm_def ready_world_def world_of_def)
  have "db ?w = ready_kitchen" by (simp add: ready_world_def world_of_def)
  then obtain v1 where v1: "requeueExpiredAssignedTasks calm in_memory NewKitchenAppService ?now ?w = (Inr (), v1)"
    "db v1 = ready_kitchen" "queue v1 = queue ?w" by (rule ready_requeue)
  obtain v2 where v2: "pop_top in_memory 20 v1 = (Inr [''1''], v2)" "db v2 = ready_kitchen"
    using v1 by (simp add: pop_top_def in_memory_def mem_PopTopN_def by_score_def ready_world_def)
  let ?v = "v2\<lparr>tick := Suc (tick v2), aborted := False\<rparr>"
  obtain v3 where v3: "assign_body calm NewKitchenAppService ?now 1 ?v = (Inr 1, v3)" "\<not> aborted v3"
    by (rule ready_assign [of ?v]) (use v2 in simp_all)
  have "fault calm = (\<lambda>n. None)" by (simp add: calm_def)
  then have "transaction calm (assign_body calm NewKitchenAppService ?now 1) v2 = (Inr 1, v3\<lparr>tick := Suc (tick v3)\<rparr>)"
    using v3 by (simp add: transaction_def Let_def)
  then have "allocate_one calm in_memory NewKitchenAppService ?now ''1'' 0 v2 = (Inr 1, v3\<lparr>tick := Suc (tick v3)\<rparr>)"
    by (simp add: allocate_one_def one_text and_then_def attempt_def ok_def del: One_nat_def)
  then have "AllocateOnce calm in_memory NewKitchenAppService ready_world = (Inr 1, v3\<lparr>tick := Suc (tick v3)\<rparr>)"
    using now v1(1) v2(1) by (simp add: AllocateOnce_def and_then_def ok_def del: One_nat_def)
  then show ?thesis by (rule that)
qed

theorem allocation_reports_assigned_witness:
  "\<exists>w. AllocateOnce calm in_memory NewKitchenAppService ready_world = (Inr 1, w) \<and>
     (\<exists>t \<in> set (tasks (db w)). t_ID t = 1 \<and> well_assigned (db w) t)"
proof -
  obtain w where w: "AllocateOnce calm in_memory NewKitchenAppService ready_world = (Inr 1, w)"
    by (rule ready_world_allocates)
  from allocation_reports_assigned [OF mem_contract ready_world_ok w] w show ?thesis by simp
qed

end
