(* ===== verification/Confirmation.thy ===== *)
theory Confirmation imports
  Allocation
begin

text \<open>
  What the confirmation of an order leaves behind: the order, one task per recipe step and copy with
  its dependencies counted, and the tasks without one in the queue and told of.
\<close>

section \<open>Recipes\<close>

section \<open>The plan\<close>

lemma and_then_InrE:
  assumes "and_then m f w = (Inr x, w')"
  obtains y v where "m w = (Inr y, v)" "f y v = (Inr x, w')"
  using assms by (auto simp: and_then_Inr)

lemma order_id_kept:
  "(if ext0 = [] then and_then (Now env) (\<lambda>t. ok (default_order_id t)) else ok ext0) w = (Inr ext, w') \<Longrightarrow>
     db w' = db w \<and> (ext0 \<noteq> [] \<longrightarrow> ext = ext0)"
  by (auto simp: and_then_Inr Now_run split: if_splits)

lemma sum_permuted: "mset xs = mset ys \<Longrightarrow> (\<Sum>x \<leftarrow> xs. f x) = (\<Sum>x \<leftarrow> ys. f x :: int)"
  by (metis mset_map sum_mset_sum_list)

lemma wanted_copies:
  assumes "distinct (map fst its)" and "mset ks = mset (map fst its)"
  shows "(\<Sum>(k, qty) \<leftarrow> map (\<lambda>k. (k, the (map_of its k))) ks. f k qty) = (\<Sum>(k, qty) \<leftarrow> its. f k qty :: int)"
proof -
  have "map (\<lambda>k. (k, the (map_of its k))) (map fst its) = its"
    using assms(1) by (auto intro!: map_idI)
  then have "mset (map (\<lambda>k. (k, the (map_of its k))) ks) = mset its" using assms(2) by (metis mset_map)
  then show ?thesis by (rule sum_permuted)
qed

text \<open>A successful explosion found every item, and makes one row per active step and copy.\<close>

lemma exploded_size:
  assumes "distinct (map fst (Items req))"
    and "GetActiveRecipeStepsByItems env ks v = (Inr steps, v')" and "set ks = fst ` set (Items req)"
    and "mset oks = mset (map fst (Items req))"
    and "explode env req steps deps caps oks u = (Inr (ts, links), u')"
  shows "int (length ts) = (\<Sum>(k, qty) \<leftarrow> Items req. max qty 0 * int (length (active_steps (db v) k)))"
proof -
  let ?its = "map (\<lambda>k. (k, the (map_of (Items req) k))) oks"
  have x: "add_items (int_rank env (tick u)) steps deps caps ?its [] [] = Inr (ts, links)"
    using assms(5) by (simp add: explode_run)
  have makeable: "\<not> unmakeable steps wanted" if "wanted \<in> set ?its" for wanted
    using add_items_error [of "int_rank env (tick u)" steps deps caps ?its "[]" "[]"] x that by auto
  have found: "slice_at steps k = active_steps (db v) k" if "k \<in> set oks" for k
  proof -
    have "k \<in> set ks" using that assms(3,4) by (metis image_set mset_eq_setD)
    moreover have "k \<noteq> []"
    proof
      assume "k = []"
      then have "slice_at steps k = []" using recipe_lookup [OF assms(2), of k] by (simp add: slice_at_def)
      then have "unmakeable steps (k, the (map_of (Items req) k))" by (simp add: unmakeable_def)
      then show False using makeable that by auto
    qed
    ultimately show ?thesis using recipe_lookup [OF assms(2), of k] by (simp add: slice_at_def)
  qed
  have "int (length ts) = (\<Sum>(k, qty) \<leftarrow> ?its. max qty 0 * int (length (slice_at steps k)))"
    using add_items_run [OF x] by simp
  also have "\<dots> = (\<Sum>(k, qty) \<leftarrow> ?its. max qty 0 * int (length (active_steps (db v) k)))"
    by (intro arg_cong [where f = sum_list] map_cong refl) (auto simp: found)
  also have "\<dots> = (\<Sum>(k, qty) \<leftarrow> Items req. max qty 0 * int (length (active_steps (db v) k)))"
    by (rule wanted_copies [OF assms(1,4)])
  finally show ?thesis .
qed

lemma confirm_plan_size:
  assumes "confirm_plan env req w = (Inr (ext, ts, links), w')" and "distinct (map fst (Items req))"
  shows "(ExternalOrderID req \<noteq> [] \<longrightarrow> ext = ExternalOrderID req) \<and>
    int (length ts) = (\<Sum>(k, qty) \<leftarrow> Items req. max qty 0 * int (length (active_steps (db w) k)))"
proof -
  have "length (Items req) \<noteq> 0" using assms(1) by (auto simp: confirm_plan_def)
  from assms(1) [unfolded confirm_plan_def if_not_P [OF this]] show ?thesis
  proof (elim and_then_InrE)
    fix ext1 w1 ks w2 steps w3 deps w4 sks w5 caps w6 oks w7 p w8
    assume e: "(if ExternalOrderID req = [] then and_then (Now env) (\<lambda>t. ok (default_order_id t))
         else ok (ExternalOrderID req)) w = (Inr ext1, w1)"
      and k: "range_keys env (map fst (Items req)) w1 = (Inr ks, w2)"
      and s: "GetActiveRecipeStepsByItems env ks w2 = (Inr steps, w3)"
      and o: "range_keys env (map fst (Items req)) w6 = (Inr oks, w7)"
      and x: "explode env req steps deps caps oks w7 = (Inr p, w8)"
      and r: "(case p of (taskRows, depLinks) \<Rightarrow> case check_links (int (length taskRows)) depLinks of
          Some e \<Rightarrow> fail e
        | None \<Rightarrow> if length taskRows = 0 then fail (Errorf ''no tasks generated for order'')
                  else ok (ext1, taskRows, depLinks)) w8 = (Inr (ext, ts, links), w')"
    have p: "p = (ts, links)" "ext = ext1" using r by (auto split: prod.splits option.splits if_splits)
    have "db w2 = db w" using order_id_kept [OF e] k by (simp add: range_keys_run)
    moreover have "set ks = fst ` set (Items req)" "mset oks = mset (map fst (Items req))"
      using k o by (simp_all add: range_keys_run)
    ultimately show ?thesis
      using order_id_kept [OF e] exploded_size [OF assms(2) s _ _ x [unfolded p]] p(2) by simp
  qed
qed

section \<open>Creation and links\<close>

text \<open>Statements that do not write to the outbox.\<close>

lemma untold_statement:
  assumes "\<And>n d. domain_events (snd (body n d)) = domain_events d"
  shows "keeps (\<lambda>v. domain_events (db v) = told) (statement env body)"
    and "keeps (\<lambda>v. domain_events (db v) = told) (tx_statement env body)"
  using assms
  by (auto simp: keeps_def tx_statement_def statement_def Let_def split: prod.splits sum.splits option.splits; metis snd_conv)+

lemma CreateOrder_effect:
  assumes "CreateOrderWithTasks env ext ts [] w = (Inr (ord, rows), w')" and "distinct (map t_ID (tasks (db w)))"
    and "ts \<noteq> []" "list_all fresh_row ts"
  shows "new_order (db w) ts ord rows (db w') \<and> o_ExternalOrderID ord = ext \<and> queue w' = queue w \<and>
    domain_events (db w') = domain_events (db w)"
proof -
  obtain w1 where b: "create_body env ext ts (w\<lparr>tick := Suc (tick w), aborted := False\<rparr>) = (Inr (ord, rows), w1)"
    and w': "w' = w1\<lparr>tick := Suc (tick w1)\<rparr>"
    using transaction_Inr [OF assms(1) [unfolded CreateOrder_body]] by blast
  have "keeps (\<lambda>v. domain_events (db v) = domain_events (db w)) (create_body env ext ts)"
    unfolding create_body_def create_task_def
    by (intro frame_intros untold_statement(2)) (simp_all add: insert_order_def insert_task_def Let_def)
  from keepsD [OF this _ b] have "domain_events (db w1) = domain_events (db w)" by simp
  then show ?thesis using create_body_Inr [OF b] assms(2-) by (simp add: w' quiet_def)
qed

lemma store_links_Inr:
  assumes "store_links env i rows links w = (Inr u, w')"
  shows "queue w' = queue w \<and> (db w' = db w \<and> links = [] \<or>
    (\<exists>deps. db w' = recount_db i (link_db deps (db w)) \<and>
       distinct (map dep_key (task_dependencies (db w) @ deps)) \<or>
     db w' = recount_db i (db w)))"
proof (cases "links = []")
  case True
  then show ?thesis using assms by (simp add: store_links_def)
next
  case False
  obtain v w1 where a: "InsertTaskDependencies env (build_deps rows links []) w = (Inr v, w1)"
    and b: "RecalculatePendingDepsForOrder env i w1 = (Inr u, w')"
    using assms False by (auto simp: store_links_def and_then_Inr)
  have "queue w1 = queue w \<and> (db w1 = db w \<or> (\<exists>deps. db w1 = link_db deps (db w) \<and>
      distinct (map dep_key (task_dependencies (db w) @ deps))))"
  proof (cases "build_deps rows links [] = []")
    case True
    then show ?thesis using a by (simp add: InsertTaskDependencies_def)
  next
    case False
    then have "statement env (insert_deps (build_deps rows links [])) w = (Inr v, w1)"
      using a by (simp add: InsertTaskDependencies_def)
    from insert_deps_outcome [OF this] show ?thesis by auto
  qed
  then show ?thesis using recount_outcome [OF b] by auto
qed

lemma link_db_rows [simp]:
  "tasks (link_db deps d) = tasks d" "orders (link_db deps d) = orders d"
  "domain_events (link_db deps d) = domain_events d"
  by (simp_all add: link_db_def)

lemma recount_events [simp]: "domain_events (recount_db i d) = domain_events d"
  by (simp add: recount_db_def set_tasks_def)

text \<open>The count of dependencies changes the rows of its order only.\<close>

lemma recount_new_rows:
  assumes "keys d" and "tasks d = old @ rows" and "\<forall>t \<in> set old. t_OrderID t \<noteq> i"
  shows "\<exists>rows'. tasks (recount_db i d) = old @ rows' \<and>
    list_all2 (\<lambda>r r'. \<exists>p. r' = r\<lparr>t_PendingDeps := p\<rparr>) rows rows'"
proof -
  let ?f = "\<lambda>t. if 0 < dep_count d i (t_ID t) then t\<lparr>t_PendingDeps := dep_count d i (t_ID t)\<rparr> else t"
  have "?f t = t" if "t \<in> set old" for t
    using dep_count_order [OF assms(1), of t i] that assms(2,3) by simp
  then have "map ?f old = old" by (intro map_idI) blast
  moreover have "\<exists>p. ?f t = t\<lparr>t_PendingDeps := p\<rparr>" for t
    by (cases "0 < dep_count d i (t_ID t)") (auto intro: exI [of _ "t_PendingDeps t"])
  then have "list_all2 (\<lambda>r r'. \<exists>p. r' = r\<lparr>t_PendingDeps := p\<rparr>) rows (map ?f rows)"
    unfolding list_all2_map2 list_all2_same by blast
  ultimately show ?thesis by (intro exI [of _ "map ?f rows"]) (simp add: recount_tasks assms(2))
qed

lemma settled_counts:
  assumes "kitchen_ok (Q, d)" "settled d i" "t \<in> set (tasks d)" "t_OrderID t = i"
    and "\<And>x. x \<in> set (tasks d) \<Longrightarrow> t_OrderID x = i \<Longrightarrow> t_Status x = TaskUnassigned"
  shows "t_PendingDeps t = count (\<lambda>td. td_TaskID td = t_ID t) (task_dependencies d)"
proof -
  have k: "keys d" "local_deps d" using assms(1) by (simp_all add: kitchen_ok_def gated_def)
  have "t_PendingDeps t = open_deps d (t_ID t)"
    using assms(2-5) by (simp add: settled_def task_settled_def)
  also have "\<dots> = count (\<lambda>td. td_TaskID td = t_ID t) (task_dependencies d)"
    unfolding open_deps_def
  proof (rule count_cong)
    fix td assume td: "td \<in> set (task_dependencies d)"
    have "\<not> is_done d (td_DependsOnTaskID td)" if "td_TaskID td = t_ID t"
    proof
      assume "is_done d (td_DependsOnTaskID td)"
      then obtain x where x: "x \<in> set (tasks d)" "t_ID x = td_DependsOnTaskID td" "t_Status x = TaskCompleted"
        by (auto simp: is_done_def)
      obtain j where "order_of d (td_TaskID td) j" "order_of d (td_DependsOnTaskID td) j"
        using k(2) td by (auto simp: local_deps_def)
      then have "t_OrderID x = i"
        using order_of_unique [OF k(1)] order_ofI [OF assms(3)] order_ofI [OF x(1)] that x(2) assms(4) by metis
      then show False using assms(5) [OF x(1)] x(3) by simp
    qed
    then show "td_TaskID td = t_ID t \<and> \<not> is_done d (td_DependsOnTaskID td) \<longleftrightarrow> td_TaskID td = t_ID t" by blast
  qed
  finally show ?thesis .
qed

section \<open>What is published\<close>

lemma emitted_insert_no_tx:
  "InsertDomainEventNoTx env ''task'' (FormatUint i) (task_event ty now i) w = (Inr u, w') \<Longrightarrow>
     emitted (db w) (db w') [(ty, i)]"
  using InsertDomainEventNoTx_Inr emitted_event by metis

context storing_queue
begin

lemma publish_ready_Inr:
  assumes "publish_ready env ops s t acc w = (Inr out, w')"
  shows "out = acc @ [t_ID t] \<and> insert (FormatUint (t_ID t)) (ids (queue w)) \<subseteq> ids (queue w') \<and>
    emitted (db w) (db w') [(EventTaskReady, t_ID t)] \<and> same_core (db w) (db w')"
proof -
  obtain score w1 u w2 now w3 v w4 where q: "queueScore env s (t_BasePriority t) (t_CreatedAt t) w = (Inr score, w1)"
    and e: "enqueue ops (FormatUint (t_ID t)) score w1 = (Inr u, w2)" and n: "Now env w2 = (Inr now, w3)"
    and i: "InsertDomainEventNoTx env ''task'' (FormatUint (t_ID t)) (task_event EventTaskReady now (t_ID t)) w3 = (Inr v, w4)"
    and out: "out = acc @ [t_ID t]" "w' = w4"
    using assms unfolding publish_ready_def by (elim and_then_InrE) simp
  show ?thesis
    using queueScore_run [OF q] enqueue_stored [OF e] Now_Inr [OF n] emitted_insert_no_tx [OF i]
      InsertDomainEventNoTx_any [OF i] out
    by (auto simp: quiet_def)
qed

lemma publish_fold_Inr:
  assumes "fold_act (publish_ready env ops s) rows acc w = (Inr out, w')"
  shows "out = acc @ map t_ID rows \<and> FormatUint ` t_ID ` set rows \<union> ids (queue w) \<subseteq> ids (queue w') \<and>
    emitted (db w) (db w') (map (\<lambda>i. (EventTaskReady, i)) (map t_ID rows)) \<and> same_core (db w) (db w')"
  using assms
proof (induction rows arbitrary: acc w)
  case (Cons t ts)
  obtain a w1 where p: "publish_ready env ops s t acc w = (Inr a, w1)"
    and f: "fold_act (publish_ready env ops s) ts a w1 = (Inr out, w')"
    using Cons.prems by (auto simp: and_then_Inr)
  note P = publish_ready_Inr [OF p] and F = Cons.IH [OF f]
  have "emitted (db w) (db w') ([(EventTaskReady, t_ID t)] @ map (\<lambda>i. (EventTaskReady, i)) (map t_ID ts))"
    using P F emitted_trans by blast
  then show ?case using P F same_core_trans [of "db w" "db w1" "db w'"] by auto
qed simp

end

section \<open>Properties\<close>

text \<open>The rows of a new order, with the stored dependencies counted.\<close>

definition counted_row :: "database \<Rightarrow> nat \<Rightarrow> TaskModel \<Rightarrow> bool" where
  "counted_row d orderID t \<longleftrightarrow> t_OrderID t = orderID \<and> t_Status t = TaskUnassigned \<and>
     t_AssignedStaffID t = None \<and> t_AssignedMachineID t = None \<and>
     t_PendingDeps t = int (length (filter (\<lambda>td. td_TaskID td = t_ID t) (task_dependencies d)))"

lemma map_sort_key: "map f (sort_key f xs) = sort (map f xs)"
  by (rule properties_for_sort [symmetric]) simp_all

lemma links_tasks:
  assumes "queue w2 = queue w1 \<and> (db w2 = db w1 \<and> links = [] \<or>
    (\<exists>deps. db w2 = recount_db i (link_db deps (db w1)) \<and>
       distinct (map dep_key (task_dependencies (db w1) @ deps)) \<or>
     db w2 = recount_db i (db w1)))"
    and "keys (db w1)" and "tasks (db w1) = old @ rows" and "\<forall>t \<in> set old. t_OrderID t \<noteq> i"
  shows "\<exists>rows'. tasks (db w2) = old @ rows' \<and> list_all2 (\<lambda>r r'. \<exists>p. r' = r\<lparr>t_PendingDeps := p\<rparr>) rows rows' \<and>
    orders (db w2) = orders (db w1) \<and> domain_events (db w2) = domain_events (db w1)"
proof -
  have re: ?thesis if "db w2 = recount_db i d" "keys d" "tasks d = old @ rows" "orders d = orders (db w1)"
    "domain_events d = domain_events (db w1)" for d
    using recount_new_rows [OF that(2,3) assms(4)] that by auto
  have same: "list_all2 (\<lambda>r r'. \<exists>p. r' = r\<lparr>t_PendingDeps := p\<rparr>) rows rows"
    unfolding list_all2_same by (metis TaskModel.surjective TaskModel.update_convs(8))
  from assms(1) consider "db w2 = db w1"
    | deps where "db w2 = recount_db i (link_db deps (db w1))" "distinct (map dep_key (task_dependencies (db w1) @ deps))"
    | "db w2 = recount_db i (db w1)" by blast
  then show ?thesis
  proof cases
    case 1
    then show ?thesis using same assms(3) by (intro exI [of _ rows]) simp
  next
    case 2
    then show ?thesis using re [of "link_db deps (db w1)"] assms(2,3) by (simp add: keys_def link_db_def)
  next
    case 3
    then show ?thesis using re [of "db w1"] assms(2,3) by simp
  qed
qed

context storing_queue
begin

lemma confirm_store_Inr:
  assumes "confirm_store env ops s ext ts links w = (Inr (orderID, ready), w')"
    and ok: "kitchen_ok (kitchen_state ids {} w)"
    and ts: "ts \<noteq> []" "list_all fresh_row ts" and links: "check_links (int (length ts)) links = None"
  shows "\<exists>ord rows. orders (db w') = orders (db w) @ [ord] \<and> o_ID ord = orderID \<and> o_Status ord = OrderConfirmed \<and>
    o_ExternalOrderID ord = ext \<and> tasks (db w') = tasks (db w) @ rows \<and> length rows = length ts \<and>
    list_all (counted_row (db w') orderID) rows \<and>
    ready = sort (map t_ID (filter (\<lambda>t. t_PendingDeps t = 0) rows)) \<and>
    FormatUint ` set ready \<union> ids (queue w) \<subseteq> ids (queue w') \<and>
    emitted (db w) (db w') (map (\<lambda>i. (EventTaskReady, i)) ready)"
proof -
  obtain ord rows w1 u w2 found w3 where
    c: "CreateOrderWithTasks env ext ts [] w = (Inr (ord, rows), w1)" and
    l: "store_links env (o_ID ord) rows links w1 = (Inr u, w2)" and
    r: "ListOrderReadyTasks env (o_ID ord) w2 = (Inr found, w3)" and
    p: "fold_act (publish_ready env ops s) found [] w3 = (Inr ready, w')" and i: "orderID = o_ID ord"
    using assms(1) unfolding confirm_store_def by (elim and_then_InrE) (auto elim!: and_then_InrE split: prod.splits)
  let ?i = "o_ID ord"
  have dist: "distinct (map t_ID (tasks (db w)))" using ok by (simp add: kitchen_ok_def kitchen_state_def keys_def)
  note C = CreateOrder_effect [OF c dist ts]
  have ok1: "kitchen_ok (kitchen_state ids {} w1)" using kitchen_run_ok [OF CreateOrder_run(1) [OF c ok ts] ok] .
  have "kitchen_ok (ready_ids ids (queue w1) \<union> {}, db w)" using ok C by (simp add: kitchen_state_def)
  note new = newborn_created [OF this conjunct1 [OF C]]
  have len: "length rows = length ts" using C by (auto simp: new_order_def dest: list_all2_lengthD)
  note L = store_links_run [OF l ok1 new links [folded len]] and S = store_links_Inr [OF l]
  have ok2: "kitchen_ok (kitchen_state ids {} w2)" using kitchen_run_ok [OF L(1) ok1] .
  have t1: "tasks (db w1) = tasks (db w) @ rows" "orders (db w1) = orders (db w) @ [ord]"
    and n: "new_rows ord rows" "o_ID ord \<notin> o_ID ` set (orders (db w))"
    using C by (auto simp: new_order_def same_core_def)
  have old: "\<forall>t \<in> set (tasks (db w)). t_OrderID t \<noteq> ?i"
    using ok n(2) unfolding kitchen_ok_def kitchen_state_def orders_ok_def by (metis (no_types, lifting) case_prodD image_eqI)
  have k1: "keys (db w1)" using ok1 by (simp add: kitchen_ok_def kitchen_state_def)
  obtain rows' where R: "tasks (db w2) = tasks (db w) @ rows'"
    "list_all2 (\<lambda>r r'. \<exists>p. r' = r\<lparr>t_PendingDeps := p\<rparr>) rows rows'"
    "orders (db w2) = orders (db w1)" "domain_events (db w2) = domain_events (db w1)"
    using links_tasks [OF S k1 t1(1) old] by blast
  have fresh: "t_OrderID t = ?i \<and> t_Status t = TaskUnassigned \<and> t_AssignedStaffID t = None \<and> t_AssignedMachineID t = None"
    if "t \<in> set rows'" for t
    using list_all2_source [OF R(2) that] n(1) by (auto simp: new_rows_def)
  have mine: "t \<in> set rows'" if "t \<in> set (tasks (db w2))" "t_OrderID t = ?i" for t
    using that old R(1) by auto
  have counted: "list_all (counted_row (db w2) ?i) rows'"
    unfolding list_all_iff
  proof
    fix t assume t: "t \<in> set rows'"
    have "t_Status x = TaskUnassigned" if "x \<in> set (tasks (db w2))" "t_OrderID x = ?i" for x
      using fresh [OF mine [OF that]] by blast
    moreover have "t \<in> set (tasks (db w2))" "t_OrderID t = ?i" using R(1) t fresh [OF t] by simp_all
    ultimately have "t_PendingDeps t = count (\<lambda>td. td_TaskID td = t_ID t) (task_dependencies (db w2))"
      using settled_counts [OF ok2 [unfolded kitchen_state_def] L(2) [OF refl]] by blast
    then show "counted_row (db w2) ?i t" using fresh [OF t] by (simp add: counted_row_def count_def)
  qed
  have f: "found = sort_key t_ID (filter (\<lambda>t. t_PendingDeps t = 0) rows')" and w3: "db w3 = db w2" "queue w3 = queue w2"
  proof -
    have "filter (\<lambda>t. t_OrderID t = ?i \<and> t_Status t = TaskUnassigned \<and> t_PendingDeps t = 0) (tasks (db w)) = []"
      using old by (auto simp: filter_empty_conv)
    moreover have "filter (\<lambda>t. t_OrderID t = ?i \<and> t_Status t = TaskUnassigned \<and> t_PendingDeps t = 0) rows' =
        filter (\<lambda>t. t_PendingDeps t = 0) rows'" using fresh by (auto intro: filter_cong)
    ultimately show "found = sort_key t_ID (filter (\<lambda>t. t_PendingDeps t = 0) rows')"
      using query_Inr [OF r [unfolded ListOrderReadyTasks_def]] R(1) by simp
    show "db w3 = db w2" "queue w3 = queue w2"
      using query_Inr [OF r [unfolded ListOrderReadyTasks_def]] by (simp_all add: quiet_def)
  qed
  note P = publish_fold_Inr [OF p]
  have ready: "ready = sort (map t_ID (filter (\<lambda>t. t_PendingDeps t = 0) rows'))"
    using P f by (simp add: map_sort_key)
  have core: "same_core (db w2) (db w')" using P w3 by simp
  have "counted_row (db w') = counted_row (db w2)" using core by (simp add: fun_eq_iff counted_row_def same_core_def)
  then have "list_all (counted_row (db w') orderID) rows'" using counted i by simp
  moreover have "emitted (db w) (db w') (map (\<lambda>i. (EventTaskReady, i)) ready)"
    using P w3 R(4) C by (simp add: emitted_def)
  moreover have "FormatUint ` set ready \<union> ids (queue w) \<subseteq> ids (queue w')"
    using P w3 S C by (simp add: image_image)
  moreover have "length rows' = length ts" using len R(2) by (auto dest: list_all2_lengthD)
  ultimately show ?thesis
    using core ready R t1(2) n(1) i C
    by (intro exI [of _ ord] exI [of _ rows']) (simp add: same_core_def new_rows_def)
qed

end

lemma ConfirmOrder_Inr:
  assumes "storing_queue ops ids" and "world_ok ids w" and "distinct (map fst (Items req))"
    and "ConfirmOrder env ops s req w = (Inr (orderID, ready), w')"
  shows "\<exists>ord rows. orders (db w') = orders (db w) @ [ord] \<and> o_ID ord = orderID \<and> o_Status ord = OrderConfirmed \<and>
    (ExternalOrderID req \<noteq> [] \<longrightarrow> o_ExternalOrderID ord = ExternalOrderID req) \<and>
    tasks (db w') = tasks (db w) @ rows \<and> list_all (counted_row (db w') orderID) rows \<and>
    int (length rows) = (\<Sum>(k, qty) \<leftarrow> Items req. max qty 0 * int (length (active_steps (db w) k))) \<and>
    ready = sort (map t_ID (filter (\<lambda>t. t_PendingDeps t = 0) rows)) \<and>
    FormatUint ` set ready \<union> ids (queue w) \<subseteq> ids (queue w') \<and>
    emitted (db w) (db w') (map (\<lambda>i. (EventTaskReady, i)) ready)"
proof -
  obtain ext ts links w1 where p: "confirm_plan env req w = (Inr (ext, ts, links), w1)"
    and st: "confirm_store env ops s ext ts links w1 = (Inr (orderID, ready), w')"
    using assms(4) unfolding ConfirmOrder_parts by (elim and_then_InrE) (auto split: prod.splits)
  have w1: "db w1 = db w" "queue w1 = queue w" using readonlyD [OF confirm_plan_readonly p] by auto
  then have "kitchen_ok (kitchen_state ids {} w1)" using assms(2) by (simp add: world_ok_def kitchen_state_def)
  then have "\<exists>ord rows. orders (db w') = orders (db w1) @ [ord] \<and> o_ID ord = orderID \<and> o_Status ord = OrderConfirmed \<and>
    o_ExternalOrderID ord = ext \<and> tasks (db w') = tasks (db w1) @ rows \<and> length rows = length ts \<and>
    list_all (counted_row (db w') orderID) rows \<and>
    ready = sort (map t_ID (filter (\<lambda>t. t_PendingDeps t = 0) rows)) \<and>
    FormatUint ` set ready \<union> ids (queue w1) \<subseteq> ids (queue w') \<and>
    emitted (db w1) (db w') (map (\<lambda>i. (EventTaskReady, i)) ready)"
    using confirm_plan_Inr [OF p] by (intro storing_queue.confirm_store_Inr [OF assms(1) st]) simp_all
  then show ?thesis using confirm_plan_size [OF p assms(3)] unfolding w1 by metis
qed


definition one_tea :: ConfirmOrderRequest where
  "one_tea = \<lparr>ExternalOrderID = ''a'', Items = [(''tea'', 1)]\<rparr>"

lemma one_tea_plan:
  obtains v where "confirm_plan calm one_tea (world_of empty_kitchen) =
     (Inr (''a'', map (new_task ''tea'') [tea_step 1 1 ''boil water'', tea_step 2 2 ''serve''],
       [\<lparr>TaskIdx = 1, DepIdx = 0\<rparr>]), v)" "db v = empty_kitchen"
proof -
  have "fst (confirm_plan calm one_tea (world_of empty_kitchen)) =
     Inr (''a'', map (new_task ''tea'') [tea_step 1 1 ''boil water'', tea_step 2 2 ''serve''], [\<lparr>TaskIdx = 1, DepIdx = 0\<rparr>])"
    by code_simp
  moreover have "db (snd (confirm_plan calm one_tea (world_of empty_kitchen))) = empty_kitchen"
    using confirm_plan_readonly [unfolded readonly_def, rule_format, of calm one_tea "world_of empty_kitchen"]
    by (simp add: world_of_def)
  ultimately show ?thesis using that by (metis prod.collapse)
qed

lemma one_tea_stored:
  assumes "db v = empty_kitchen"
  defines "r \<equiv> confirm_store calm in_memory NewKitchenAppService ''a''
     (map (new_task ''tea'') [tea_step 1 1 ''boil water'', tea_step 2 2 ''serve'']) [\<lparr>TaskIdx = 1, DepIdx = 0\<rparr>] v"
  shows "fst r = Inr (1, [1]) \<and> map t_ID (tasks (db (snd r))) = [1, 2] \<and> map t_PendingDeps (tasks (db (snd r))) = [0, 1] \<and>
    map t_Status (tasks (db (snd r))) = [TaskUnassigned, TaskUnassigned]"
  using assms(1) unfolding r_def
  by (simp add: confirm_store_def CreateOrderWithTasks_def insert_order_def create_task_def insert_task_def new_task_def
      store_links_def InsertTaskDependencies_def insert_deps_def dep_key_def RecalculatePendingDepsForOrder_def dep_count_def
      ListOrderReadyTasks_def publish_ready_def queueScore_def enqueue_def in_memory_def mem_Enqueue_def
      InsertDomainEventNoTx_def statement_def tea_step_def empty_kitchen_def calm_def
      service_run_defs sql_run_defs quiet_tx del: One_nat_def)

lemma one_tea_confirmed:
  obtains w where "ConfirmOrder calm in_memory NewKitchenAppService one_tea (world_of empty_kitchen) = (Inr (1, [1]), w)"
    "map t_ID (tasks (db w)) = [1, 2]" "map t_PendingDeps (tasks (db w)) = [0, 1]"
    "map t_Status (tasks (db w)) = [TaskUnassigned, TaskUnassigned]"
proof -
  let ?w = "world_of empty_kitchen"
  obtain v where v: "confirm_plan calm one_tea ?w =
     (Inr (''a'', map (new_task ''tea'') [tea_step 1 1 ''boil water'', tea_step 2 2 ''serve''],
       [\<lparr>TaskIdx = 1, DepIdx = 0\<rparr>]), v)" "db v = empty_kitchen"
    by (rule one_tea_plan)
  note st = one_tea_stored [OF v(2)]
  have "ConfirmOrder calm in_memory NewKitchenAppService one_tea ?w =
      confirm_store calm in_memory NewKitchenAppService ''a''
     (map (new_task ''tea'') [tea_step 1 1 ''boil water'', tea_step 2 2 ''serve'']) [\<lparr>TaskIdx = 1, DepIdx = 0\<rparr>] v"
    by (simp add: ConfirmOrder_parts and_then_def v(1))
  then show thesis using st by (intro that [of "snd (ConfirmOrder calm in_memory NewKitchenAppService one_tea ?w)"])
      (simp_all add: prod_eq_iff)
qed


end
