(* ===== verification/Queued.thy ===== *)
theory Queued imports
  Allocation
  Confirmation
begin

text \<open>
  No task is forgotten: while no statement fails and the queue neither refuses an entry nor loses
  one, every task that can be allocated is in the ready queue after every call of a service.
\<close>

section \<open>Queues that lose nothing\<close>

locale keeping_queue = storing_queue ops ids
  for ops :: "'q ready_queue_ops" and ids :: "'q \<Rightarrow> string set" +
  assumes enqueue_succeeds: "fst (Enqueue ops i s q) = None"
    and pop_returns_all: "PopTopN ops n q = (r, q') \<Longrightarrow> ids q \<subseteq> ids q' \<union> (case r of Inl e \<Rightarrow> {} | Inr xs \<Rightarrow> set xs)"
begin

lemma enqueue_done:
  assumes "enqueue ops i score w = (r, w')"
  shows "r = Inr () \<and> insert i (ids (queue w)) \<subseteq> ids (queue w') \<and> db w' = db w"
proof -
  obtain x q' where x: "Enqueue ops i score (queue w) = (x, q')" by force
  then have "x = None" using enqueue_succeeds [of i score "queue w"] by simp
  then have "r = Inr ()" using assms x by (simp add: enqueue_def)
  then show ?thesis using assms enqueue_stored by blast
qed

end

interpretation memk: keeping_queue in_memory mem_ids
proof (intro keeping_queue.intro mem_storing keeping_queue_axioms.intro)
  fix i s and q :: InMemoryReadyQueue
  show "fst (Enqueue in_memory i s q) = None" by (simp add: in_memory_def mem_Enqueue_def)
next
  fix n r and q q' :: InMemoryReadyQueue
  assume "PopTopN in_memory n q = (r, q')"
  then have run: "mem_PopTopN n q = (r, q')" by (simp add: in_memory_def)
  show "mem_ids q \<subseteq> mem_ids q' \<union> (case r of Inl e \<Rightarrow> {} | Inr xs \<Rightarrow> set xs)"
  proof (cases "n \<le> 0")
    case True
    then show ?thesis using run by (auto simp: mem_PopTopN_def)
  next
    case False
    define out where "out = map fst (take (nat n) (by_score (items q)))"
    have r: "r = Inr out" "items q' = fold AList.delete out (items q)"
      using run False by (auto simp: mem_PopTopN_def Let_def out_def)
    have "dom (map_of (items q)) \<subseteq> dom (map_of (items q')) \<union> set out"
      unfolding r(2) map_of_fold_delete by auto
    then show ?thesis by (simp add: r(1) mem_ids_def dom_map_of_conv_image_fst)
  qed
qed

lemma mem_keeping: "keeping_queue in_memory mem_ids"
  by (rule memk.keeping_queue_axioms)

section \<open>Ready tasks in the queue\<close>

definition ready :: "TaskModel \<Rightarrow> bool" where
  "ready t \<longleftrightarrow> t_Status t = TaskUnassigned \<and> t_PendingDeps t = 0"

text \<open>\<open>F\<close> holds the ids that a running allocation has popped and not dealt with.\<close>

definition queued :: "('q \<Rightarrow> string set) \<Rightarrow> string set \<Rightarrow> 'q world \<Rightarrow> bool" where
  "queued ids F w \<longleftrightarrow> (\<forall>t \<in> set (tasks (db w)). ready t \<longrightarrow> FormatUint (t_ID t) \<in> ids (queue w) \<union> F)"

lemma queued_step:
  assumes "queued ids F w" and "ids (queue w) \<union> F \<subseteq> ids (queue w') \<union> F'"
    and "\<And>t. t \<in> set (tasks (db w')) \<Longrightarrow> ready t \<Longrightarrow>
      t \<in> set (tasks (db w)) \<or> FormatUint (t_ID t) \<in> ids (queue w') \<union> F'"
  shows "queued ids F' w'"
  using assms unfolding queued_def by blast

lemma queued_same: "queued ids F w \<Longrightarrow> tasks (db w') = tasks (db w) \<Longrightarrow> queue w' = queue w \<Longrightarrow> queued ids F w'"
  by (simp add: queued_def)

lemma ready_rows [simp]:
  "\<not> ready (start_row n t)" "\<not> ready (assign_row sid mid n t)"
  by (simp_all add: ready_def start_row_def assign_row_def)

lemma StartTask_queued:
  assumes "fault env = (\<lambda>n. None)" and "StartTask env taskID w = (r, w')" and "queued ids F w"
  shows "queued ids F w'"
proof (cases r)
  case (Inl e)
  then have "same_tables (db w) (db w')" "queue w' = queue w" using StartTask_failed [OF assms(1,2)] by auto
  then show ?thesis using assms(3) same_tables_eqs queued_same by metis
next
  case (Inr u)
  then obtain t now where core: "same_core (start_db t now (db w)) (db w')" and q: "queue w' = queue w"
    using StartTask_Inr assms(2) by metis
  have "tasks (db w') = map_where (the_task t) (start_row now) (tasks (db w))"
    using core by (simp add: same_core_def start_db_tasks)
  then have "x \<in> set (tasks (db w))" if "x \<in> set (tasks (db w'))" "ready x" for x
    using that by (auto simp: map_where_set split: if_splits)
  then show ?thesis using queued_step [OF assms(3), of w' F] q by auto
qed

lemma queue_kept_keeps: "queue_kept m \<Longrightarrow> keeps (\<lambda>v. P (queue v)) m"
  by (rule keepsI) (simp add: queue_keptD)

lemma assign_body_rows:
  assumes "assign_body env s now taskID w = (Inr r, w')"
  shows "\<exists>t sid mid. t_ID t = taskID \<and> tasks (db w') = map_where (the_task t) (assign_row sid mid now) (tasks (db w))"
proof (rule assign_body_Inr [OF assms])
  fix t and c :: CounterModel and m :: MachineModel and st :: StaffModel and tc tm
  assume "t_ID t = taskID" and "same_core (assign_db t (s_ID st) (m_ID m) now tc tm (db w)) (db w')"
  then show ?thesis
    by (intro exI [of _ t] exI [of _ "s_ID st"] exI [of _ "m_ID m"]) (simp add: same_core_def assign_db_tasks)
qed

context keeping_queue
begin

lemma keeps_release [frame_intros]: "keeps (\<lambda>v. X \<subseteq> ids (queue v)) (release_child env ops s now c)"
proof -
  have "keeps (\<lambda>v. X \<subseteq> ids (queue v)) (queueScore env s a b)" for a b
    by (rule keepsI) (metis queueScore_run)
  moreover have "keeps (\<lambda>v. X \<subseteq> ids (queue v)) (enqueue ops i k)" for i k
    by (rule keepsI) (use enqueue_done in blast)
  moreover have "keeps (\<lambda>v. X \<subseteq> ids (queue v)) (InsertDomainEvent env ty i e)" for ty i e
    unfolding InsertDomainEvent_def
    by (rule queue_kept_keeps [where P = "\<lambda>q. X \<subseteq> ids q"]) (intro frame_intros)
  ultimately show ?thesis unfolding release_child_def by (intro frame_intros)
qed

lemma complete_body_grows: "keeps (\<lambda>v. X \<subseteq> ids (queue v)) (complete_body env ops s taskID now)"
proof -
  note kept = queue_kept_keeps [where P = "\<lambda>q. X \<subseteq> ids q"]
  have "keeps (\<lambda>v. X \<subseteq> ids (queue v))
      (case x of (task, found) \<Rightarrow> and_then (for_each (release_child env ops s now) found) (\<lambda>_. complete_post env task now))" for x
    by (cases x) (simp, intro keeps_and_then keeps_for_each keeps_release kept complete_post_kept)
  then show ?thesis
    unfolding complete_body_parts by (rule keeps_and_then [OF kept [OF complete_pre_kept]])
qed

lemma CompleteTask_queued:
  assumes "fault env = (\<lambda>n. None)" and "CompleteTask env ops s taskID w = (r, w')" and "queued ids F w"
  shows "queued ids F w'"
proof (cases r)
  case (Inl e)
  obtain now w0 where n: "Now env w = (Inr now, w0)" and tr: "transaction env (complete_body env ops s taskID now) w0 = (Inl e, w')"
    using assms(2) Inl unfolding CompleteTask_def and_then_def by (auto simp: Now_def)
  have w0: "db w0 = db w" "queue w0 = queue w" using Now_Inr [OF n] by (simp_all add: quiet_def)
  have grow: "i \<in> ids (queue w1)"
    if "complete_body env ops s taskID now (w0\<lparr>tick := Suc (tick w0), aborted := False\<rparr>) = (x, w1)"
      "i \<in> ids (queue w)" for i x w1
    using keepsD [OF complete_body_grows [of "ids (queue w)"] _ that(1)] that(2) w0 by auto
  have "tasks (db (rollback (db w) v)) = tasks (db w)" for v :: "'q world" by (simp add: rollback_def)
  with tr have "tasks (db w') = tasks (db w) \<and> ids (queue w) \<subseteq> ids (queue w')"
    by (cases rule: faultless_transaction [OF assms(1)]) (auto simp: w0 dest: grow same_tables_eqs(8))
  then show ?thesis using queued_step [OF assms(3), of w' F] by auto
next
  case (Inr u)
  obtain t now sid mid tc tm secs eff children where
    core: "same_core (complete_db t sid mid now tc tm secs eff (db w)) (db w')" and id: "t_ID t = taskID"
    and ch: "set children = {x \<in> set (tasks (db w')). t_Status x = TaskUnassigned \<and> t_PendingDeps x = 0 \<and>
       depends_on (db w) (t_ID x) taskID}"
    and q: "FormatUint ` t_ID ` set children \<union> ids (queue w) \<subseteq> ids (queue w')"
    by (rule CompleteTask_Inr [OF assms(2) [unfolded Inr]]) blast
  have rows: "tasks (db w') = map (completed_row (db w) taskID now) (tasks (db w))"
    using core id complete_db_rows by (simp add: same_core_def row_after_completed)
  have "x \<in> set (tasks (db w)) \<or> FormatUint (t_ID x) \<in> ids (queue w') \<union> F"
    if x: "x \<in> set (tasks (db w'))" "ready x" for x
  proof (cases "depends_on (db w) (t_ID x) taskID")
    case True
    then have "x \<in> set children" using x ch by (simp add: ready_def)
    then show ?thesis using q by blast
  next
    case False
    obtain y where y: "y \<in> set (tasks (db w))" "x = completed_row (db w) taskID now y" using x(1) rows by auto
    have "t_ID x = t_ID y" by (simp add: y(2) completed_row_def)
    then have "\<not> (t_Status y = TaskUnassigned \<and> depends_on (db w) (t_ID y) taskID)" using False by simp
    moreover have "t_ID y \<noteq> taskID"
    proof
      assume "t_ID y = taskID"
      then have "t_Status x = TaskCompleted" by (simp add: y(2) completed_row_def)
      then show False using x(2) by (simp add: ready_def)
    qed
    ultimately have "x = y" unfolding y(2) completed_row_def by (simp only: if_False simp_thms)
    then show ?thesis using y(1) by simp
  qed
  then show ?thesis using queued_step [OF assms(3), of w' F] q by blast
qed

lemma requeue_loop_queued:
  assumes "for_each (requeue_enqueue env ops s) rows w = (r, w')"
  shows "r = Inr () \<and> db w' = db w \<and> FormatUint ` t_ID ` set rows \<union> ids (queue w) \<subseteq> ids (queue w')"
  using assms
proof (induction rows arbitrary: w)
  case (Cons t ts)
  obtain sc w1 where q: "queueScore env s (fadd (t_BasePriority t) 10) (t_CreatedAt t) w = (sc, w1)" by force
  obtain score where sc: "sc = Inr score" "db w1 = db w" "queue w1 = queue w"
    using queueScore_run [OF q] by auto
  obtain x w2 where e: "enqueue ops (FormatUint (t_ID t)) score w1 = (x, w2)" by force
  note E = enqueue_done [OF e]
  have "requeue_enqueue env ops s t w = (Inr (), w2)"
    using q sc(1) e E by (simp add: requeue_enqueue_def and_then_def)
  then have "for_each (requeue_enqueue env ops s) ts w2 = (r, w')"
    using Cons.prems by (simp add: and_then_def)
  from Cons.IH [OF this] E sc show ?case by auto
qed (simp add: ok_def)

lemma put_back_queued:
  assumes "fault env = (\<lambda>n. None)" and "put_back env ops s taskID a w = (r, w')"
    and "queued ids (insert (FormatUint taskID) F) w" and "distinct (map t_ID (tasks (db w)))"
  shows "queued ids F w' \<and> db w' = db w"
proof -
  let ?r = "sql_first (\<lambda>t. t_ID t = taskID) t_ID (tasks (db w))"
  have g: "GetTaskByID env taskID w = (?r, w\<lparr>tick := Suc (tick w)\<rparr>)"
    using assms(1) by (simp add: GetTaskByID_def statement_def query_def Let_def)
  show ?thesis
  proof (cases "\<exists>t. ?r = Inr t \<and> t_Status t = TaskUnassigned")
    case False
    then have w': "w' = w\<lparr>tick := Suc (tick w)\<rparr>"
      using assms(2) g by (auto simp: put_back_def and_then_def attempt_def ok_def split: sum.splits if_splits)
    have "\<not> ready t" if t: "t \<in> set (tasks (db w))" "t_ID t = taskID" for t
      using False sql_first_key [OF assms(4) t(1), of "\<lambda>t. t_ID t = taskID"] t(2) by (auto simp: ready_def)
    then have "queued ids F w" using assms(3) unfolding queued_def by (metis FormatUint_inj UnE UnI1 UnI2 insertE)
    then show ?thesis by (simp add: w' queued_def)
  next
    case True
    then obtain t where t: "?r = Inr t" "t_Status t = TaskUnassigned" by blast
    then have id: "t_ID t = taskID" by (auto dest: sql_first_Inr)
    let ?w = "w\<lparr>tick := Suc (tick w)\<rparr>"
    obtain sc w2 where q: "queueScore env s (t_BasePriority t) (t_CreatedAt t) ?w = (sc, w2)" by force
    obtain score where sc: "sc = Inr score" "db w2 = db w" "queue w2 = queue w"
      using queueScore_run [OF q] by auto
    obtain x w3 where e: "enqueue ops (FormatUint (t_ID t)) score w2 = (x, w3)" by force
    have "w' = w3"
      using assms(2) g t q sc(1) e by (simp add: put_back_def and_then_def attempt_def ok_def)
    then have "insert (FormatUint taskID) (ids (queue w)) \<subseteq> ids (queue w')" "db w' = db w"
      using enqueue_done [OF e] sc id by auto
    then show ?thesis using queued_step [OF assms(3), of w' F] by auto
  qed
qed

lemma allocate_one_queued:
  assumes "fault env = (\<lambda>n. None)" and "allocate_one env ops s now raw a w = (r, w')"
    and "queued ids (insert raw F) w" and "distinct (map t_ID (tasks (db w)))"
    and "\<forall>t \<in> set (tasks (db w)). t_ID t < 2 ^ 64"
  shows "queued ids F w' \<and> map t_ID (tasks (db w')) = map t_ID (tasks (db w)) \<and> (\<exists>b. r = Inr b)"
proof (cases "ParseUint raw")
  case (Inl e)
  have "FormatUint (t_ID t) \<noteq> raw" if "t \<in> set (tasks (db w))" for t
    using Inl ParseUint_FormatUint [of "t_ID t"] assms(5) that by auto
  then have "queued ids F w" using assms(3) unfolding queued_def by blast
  then show ?thesis using assms(2) Inl by (simp add: allocate_one_def)
next
  case (Inr taskID)
  have "FormatUint (t_ID t) = raw \<Longrightarrow> t_ID t = taskID" for t :: TaskModel
    using Inr ParseUint_FormatUint_eq by metis
  then have waiting: "queued ids (insert (FormatUint taskID) F) w" using assms(3) unfolding queued_def by blast
  obtain x w1 where tr: "transaction env (assign_body env s now taskID) w = (x, w1)" by force
  have returned: "queued ids F w' \<and> map t_ID (tasks (db w')) = map t_ID (tasks (db w)) \<and> (\<exists>b. r = Inr b)"
    if "x = Inl e" "tasks (db w1) = tasks (db w)" "queue w1 = queue w" for e
  proof -
    have "put_back env ops s taskID a w1 = (r, w')"
      using assms(2) Inr tr that(1) by (simp add: allocate_one_def put_back_def and_then_def attempt_def)
    moreover have "queued ids (insert (FormatUint taskID) F) w1" using waiting that(2,3) queued_same by metis
    ultimately show ?thesis
      using put_back_queued [OF assms(1)] put_back_db assms(4) that(2) by (metis (no_types, lifting))
  qed
  note kept = queue_keptD [OF assign_body_kept [of env s now taskID]]
  show ?thesis
  proof (cases rule: faultless_transaction [OF assms(1) tr])
    case (1 e w2)
    then show ?thesis using returned kept [OF 1(1)] by (auto simp: rollback_def)
  next
    case (2 i w2)
    then show ?thesis using returned kept [OF 2(1)] same_tables_eqs(8) by auto
  next
    case (3 i w2)
    from assign_body_rows [OF 3(1)] obtain t sid mid where tid: "t_ID t = taskID"
      and core: "tasks (db w2) = map_where (the_task t) (assign_row sid mid now) (tasks (db w))" by auto
    have e: "w' = w1" "\<exists>b. r = Inr b"
      using assms(2) Inr tr 3(3) by (auto simp: allocate_one_def and_then_def attempt_def ok_def)
    have rows: "tasks (db w1) = map_where (the_task t) (assign_row sid mid now) (tasks (db w))"
      using core 3(4) by simp
    have same_queue: "queue w1 = queue w" using kept [OF 3(1)] 3(4) by simp
    have k: "queued ids F w1"
      unfolding queued_def
    proof (intro ballI impI)
      fix x assume x: "x \<in> set (tasks (db w1))" "ready x"
      then obtain y where y: "y \<in> set (tasks (db w))" "x = (if the_task t y then assign_row sid mid now y else y)"
        unfolding rows map_where_set by blast
      then have "\<not> the_task t y" using x(2) by (cases "the_task t y") simp_all
      then have "x \<in> set (tasks (db w))" "t_ID x \<noteq> taskID" using y tid by simp_all
      then show "FormatUint (t_ID x) \<in> ids (queue w1) \<union> F"
        using waiting x(2) same_queue unfolding queued_def by auto
    qed
    have m: "map t_ID (tasks (db w1)) = map t_ID (tasks (db w))"
      by (simp add: rows map_where_def assign_row_def)
    show ?thesis using e(2) k m unfolding e(1) by (intro conjI)
  qed
qed

lemma allocate_fold_queued:
  assumes "fault env = (\<lambda>n. None)" and "fold_act (allocate_one env ops s now) raws a w = (r, w')"
    and "queued ids (set raws) w" and "distinct (map t_ID (tasks (db w)))"
    and "\<forall>t \<in> set (tasks (db w)). t_ID t < 2 ^ 64"
  shows "queued ids {} w'"
  using assms(2-)
proof (induction raws arbitrary: a w)
  case (Cons raw raws)
  obtain x w1 where one: "allocate_one env ops s now raw a w = (x, w1)" by force
  have "queued ids (insert raw (set raws)) w" using Cons.prems(2) by simp
  from allocate_one_queued [OF assms(1) one this Cons.prems(3,4)]
  obtain b where step: "queued ids (set raws) w1" "map t_ID (tasks (db w1)) = map t_ID (tasks (db w))" "x = Inr b"
    by blast
  have "fold_act (allocate_one env ops s now) raws b w1 = (r, w')"
    using Cons.prems(1) one step(3) by (simp add: and_then_def)
  moreover have "t_ID ` set (tasks (db w1)) = t_ID ` set (tasks (db w))"
    using arg_cong [OF step(2), of set] by simp
  then have "\<forall>i \<in> t_ID ` set (tasks (db w1)). i < 2 ^ 64" using Cons.prems(4) by simp
  then have "\<forall>t \<in> set (tasks (db w1)). t_ID t < 2 ^ 64" by simp
  ultimately show ?case using Cons.IH step(1,2) Cons.prems(3) by simp
qed (simp add: ok_def)

end

section \<open>Requeueing\<close>

lemma requeue_fold_rows:
  assumes "fold_act (requeue_one env) ts acc w = (Inr acc', w')"
    and "\<forall>t \<in> set ts. t_AssignedStaffID t \<noteq> None \<and> t_AssignedMachineID t \<noteq> None"
  shows "t_ID ` set acc' = t_ID ` set acc \<union> t_ID ` set ts \<and>
    map t_ID (tasks (db w')) = map t_ID (tasks (db w)) \<and>
    (\<forall>x \<in> set (tasks (db w')). x \<in> set (tasks (db w)) \<or> t_ID x \<in> t_ID ` set ts)"
  using assms
proof (induction ts arbitrary: acc w)
  case (Cons t ts)
  obtain acc1 w1 where one: "requeue_one env t acc w = (Inr acc1, w1)"
    and rest: "fold_act (requeue_one env) ts acc1 w1 = (Inr acc', w')"
    using Cons.prems(1) by (auto simp: and_then_Inr)
  obtain sid mid where held: "t_AssignedStaffID t = Some sid" "t_AssignedMachineID t = Some mid"
    using Cons.prems(2) by auto
  obtain tc tm where core: "same_core (requeue_db t sid mid tc tm (db w)) (db w1)"
    and acc1: "map t_ID acc1 = map t_ID acc @ [t_ID t]"
    using requeue_one_Inr [OF one held] by blast
  have rows: "tasks (db w1) = map_where (the_task t) release_task (tasks (db w))"
    using core by (simp add: same_core_def requeue_db_tasks)
  then have "map t_ID (tasks (db w1)) = map t_ID (tasks (db w))" by (simp add: map_where_def release_task_def)
  moreover have "x \<in> set (tasks (db w)) \<or> t_ID x = t_ID t" if "x \<in> set (tasks (db w1))" for x
    using that by (auto simp: rows map_where_set release_task_def)
  moreover have "t_ID ` set acc1 = insert (t_ID t) (t_ID ` set acc)" using arg_cong [OF acc1, of set] by auto
  ultimately show ?case using Cons.IH [OF rest] Cons.prems(2) by auto
qed simp

lemma RequeueExpired_rows:
  assumes "fault env = (\<lambda>n. None)" and "RequeueExpiredAssignedTasks env cutoff limit w = (r, w')"
    and "tasks_ok (db w)"
  shows "queue w' = queue w \<and> map t_ID (tasks (db w')) = map t_ID (tasks (db w)) \<and>
    (case r of Inl e \<Rightarrow> tasks (db w') = tasks (db w)
     | Inr rows \<Rightarrow> \<forall>x \<in> set (tasks (db w')). x \<in> set (tasks (db w)) \<or> t_ID x \<in> t_ID ` set rows)"
proof -
  define lim where "lim = (if limit \<le> 0 then 50 else limit)"
  define body where "body = and_then (tx_statement env (query (\<lambda>n d.
      Inr (take (nat lim) (sort_key (the \<circ> t_AssignedAt) (any_order env n t_ID
        (filter (\<lambda>t. expired cutoff t \<and> \<not> row_locked env n (t_ID t)) (tasks d))))))))
      (\<lambda>ts. fold_act (requeue_one env) ts [] :: ('a world, TaskModel list) act)"
  have tr: "transaction env body w = (r, w')"
    using assms(2) by (simp add: RequeueExpiredAssignedTasks_def body_def lim_def Let_def)
  have kept: "queue_kept body"
    unfolding body_def by (intro frame_intros requeue_one_kept)
  have main: "map t_ID (tasks (db v1)) = map t_ID (tasks (db w)) \<and>
      (\<forall>x \<in> set (tasks (db v1)). x \<in> set (tasks (db w)) \<or> t_ID x \<in> t_ID ` set rows)"
    if b: "body v = (Inr rows, v1)" and v: "db v = db w" for rows v v1
  proof -
    obtain ts v2 where q: "tx_statement env (query (\<lambda>n d.
      Inr (take (nat lim) (sort_key (the \<circ> t_AssignedAt) (any_order env n t_ID
        (filter (\<lambda>t. expired cutoff t \<and> \<not> row_locked env n (t_ID t)) (tasks d))))))) v = (Inr ts, v2)"
      and f: "fold_act (requeue_one env) ts [] v2 = (Inr rows, v1)"
      using b unfolding body_def and_then_Inr by blast
    note Q = tx_query_Inr [OF q]
    have "t_AssignedStaffID t \<noteq> None \<and> t_AssignedMachineID t \<noteq> None" if "t \<in> set ts" for t
    proof -
      have "t \<in> set (tasks (db w))" "expired cutoff t" using Q v that by (auto dest: in_set_takeD)
      then show ?thesis using assms(3) by (auto simp: tasks_ok_def task_ok_def expired_def)
    qed
    then show ?thesis using requeue_fold_rows [OF f] Q v by simp
  qed
  note q = queue_keptD [OF kept]
  show ?thesis
    by (rule faultless_transaction [OF assms(1) tr])
      (auto simp: rollback_def dest: q main same_tables_eqs(8))
qed

context keeping_queue
begin

lemma AllocateOnce_queued:
  assumes "fault env = (\<lambda>n. None)" and "AllocateOnce env ops s w = (r, w')" and "queued ids {} w"
    and "keys (db w)" "tasks_ok (db w)" and "\<forall>t \<in> set (tasks (db w)). t_ID t < 2 ^ 64"
  shows "queued ids {} w'"
proof -
  obtain now w0 where n: "Now env w = (Inr now, w0)" by (simp add: Now_def)
  have w0: "db w0 = db w" "queue w0 = queue w" using Now_Inr [OF n] by (simp_all add: quiet_def)
  obtain x w1 where a: "RequeueExpiredAssignedTasks env (now - assignTTL s) 50 w0 = (x, w1)" by force
  have "tasks_ok (db w0)" using assms(5) w0 by simp
  note R = RequeueExpired_rows [OF assms(1) a this]
  show ?thesis
  proof (cases x)
    case (Inl e)
    then have "w' = w1"
      using assms(2) n a by (simp add: AllocateOnce_def requeueExpiredAssignedTasks_def and_then_def)
    moreover have "tasks (db w1) = tasks (db w)" "queue w1 = queue w" using R Inl w0 by simp_all
    ultimately show ?thesis using queued_same [OF assms(3)] by simp
  next
    case (Inr rows)
    obtain y w2 where l: "for_each (requeue_enqueue env ops s) rows w1 = (y, w2)" by force
    note L = requeue_loop_queued [OF l]
    have rq: "requeueExpiredAssignedTasks env ops s now w0 = (Inr (), w2)"
      using a Inr l L by (simp add: requeueExpiredAssignedTasks_def and_then_def)
    have "x \<in> set (tasks (db w)) \<or> FormatUint (t_ID x) \<in> ids (queue w2)" if "x \<in> set (tasks (db w2))" for x
    proof -
      have "x \<in> set (tasks (db w)) \<or> t_ID x \<in> t_ID ` set rows" using R Inr L w0 that by simp
      then show ?thesis using L by blast
    qed
    moreover have "ids (queue w) \<subseteq> ids (queue w2)" using L R w0 by simp
    ultimately have q2: "queued ids {} w2" using queued_step [OF assms(3), of w2 "{}"] by blast
    have same: "map t_ID (tasks (db w2)) = map t_ID (tasks (db w))" using L R w0 by simp
    obtain p w3 where p: "pop_top ops 20 w2 = (p, w3)" by force
    then obtain q3 where pq: "PopTopN ops 20 (queue w2) = (p, q3)" "w3 = w2\<lparr>queue := q3\<rparr>"
      by (auto simp: pop_top_def split: prod.splits)
    note P = pop_returns_all [OF pq(1)]
    show ?thesis
    proof (cases p)
      case (Inl e)
      then have "w' = w3" using assms(2) n rq p by (simp add: AllocateOnce_def and_then_def)
      then show ?thesis using q2 P Inl pq(2) by (auto simp: queued_def)
    next
      case (Inr raws)
      have q3: "queued ids (set raws) w3" using q2 P Inr pq(2) by (auto simp: queued_def)
      have "w' = w3 \<and> raws = [] \<or> fold_act (allocate_one env ops s now) raws 0 w3 = (r, w')"
        using assms(2) n rq p Inr by (cases "raws = []") (simp_all add: AllocateOnce_def and_then_def ok_def)
      then show ?thesis
      proof (elim disjE conjE)
        assume f: "fold_act (allocate_one env ops s now) raws 0 w3 = (r, w')"
        have "t_ID ` set (tasks (db w3)) = t_ID ` set (tasks (db w))" using arg_cong [OF same, of set] pq(2) by simp
        then have "\<forall>i \<in> t_ID ` set (tasks (db w3)). i < 2 ^ 64" using assms(6) by simp
        then have bound: "\<forall>t \<in> set (tasks (db w3)). t_ID t < 2 ^ 64" by simp
        have "distinct (map t_ID (tasks (db w3)))" using same assms(4) pq(2) by (simp add: keys_def)
        from allocate_fold_queued [OF assms(1) f q3 this bound] show ?thesis .
      qed (use q3 in simp)
    qed
  qed
qed

lemma ConfirmOrder_queued:
  assumes "ConfirmOrder env ops s req w = (Inr r, w')" and "world_ok ids w" and "distinct (map fst (Items req))"
    and "queued ids {} w"
  shows "queued ids {} w'"
proof -
  obtain orderID found where r: "r = (orderID, found)" by force
  have run: "ConfirmOrder env ops s req w = (Inr (orderID, found), w')" using assms(1) r by simp
  obtain ord rows where rows: "tasks (db w') = tasks (db w) @ rows"
    "found = sort (map t_ID (filter (\<lambda>t. t_PendingDeps t = 0) rows))"
    "FormatUint ` set found \<union> ids (queue w) \<subseteq> ids (queue w')"
    using ConfirmOrder_Inr [OF storing_queue_axioms assms(2,3) run] by blast
  then show ?thesis by (intro queued_step [OF assms(4)]) (auto simp: ready_def)
qed

end

section \<open>Undisturbed runs\<close>

text \<open>
  A call of a service during which no statement fails; a confirmation counts when it succeeds (one
  that is refused after the order was created leaves its tasks out of the queue).
\<close>

inductive undisturbed :: "'q ready_queue_ops \<Rightarrow> KitchenAppService \<Rightarrow> 'q world \<Rightarrow> 'q world \<Rightarrow> bool" for ops s where
  confirm: "ConfirmOrder env ops s req w = (Inr confirmed, w') \<Longrightarrow> distinct (map fst (Items req)) \<Longrightarrow>
    undisturbed ops s w w'"
| allocate: "fault env = (\<lambda>n. None) \<Longrightarrow> AllocateOnce env ops s w = (allocated, w') \<Longrightarrow> undisturbed ops s w w'"
| start: "fault env = (\<lambda>n. None) \<Longrightarrow> StartTask env taskID w = (started, w') \<Longrightarrow> undisturbed ops s w w'"
| complete: "fault env = (\<lambda>n. None) \<Longrightarrow> CompleteTask env ops s taskID w = (completed, w') \<Longrightarrow> undisturbed ops s w w'"
| get: "GetTask env taskID w = (task, w') \<Longrightarrow> undisturbed ops s w w'"
| dispatch: "DispatchOnce env dispatcher (kafka_Publish env) w = (dispatched, w') \<Longrightarrow> undisturbed ops s w w'"

lemma undisturbed_service: "undisturbed ops s w w' \<Longrightarrow> service_step ops s w w'"
  by (induction rule: undisturbed.induct) (auto intro: service_step.intros)

context keeping_queue
begin

lemma undisturbed_queued:
  assumes "undisturbed ops s w w'" and "world_ok ids w" and "queued ids {} w"
    and "\<forall>t \<in> set (tasks (db w)). t_ID t < 2 ^ 64"
  shows "queued ids {} w'"
  using assms(1)
proof cases
  case (confirm env req confirmed)
  then show ?thesis using ConfirmOrder_queued assms(2,3) by blast
next
  case (allocate env allocated)
  have "keys (db w)" "tasks_ok (db w)" using assms(2) by (simp_all add: world_ok_def kitchen_state_def kitchen_ok_def)
  then show ?thesis using AllocateOnce_queued [OF allocate assms(3)] assms(4) by blast
next
  case (dispatch env d r)
  have "distinct (map e_ID (domain_events (db w)))" using assms(2) by (simp add: world_ok_def outbox_ok_def)
  then show ?thesis
    using kafka.DispatchOnce_step [OF dispatch] queued_same [OF assms(3)] by (simp add: same_core_def)
next
  case (get env i r)
  then show ?thesis using GetTask_run [OF get] queued_same [OF assms(3)] by simp
qed (use StartTask_queued CompleteTask_queued assms(3) in blast)+

lemma undisturbed_run_queued:
  assumes "(undisturbed ops s)\<^sup>*\<^sup>* w w'" and "world_ok ids w" and "queued ids {} w"
    and "\<forall>t \<in> set (tasks (db w')). t_ID t < 2 ^ 64"
  shows "world_ok ids w' \<and> queued ids {} w'"
  using assms
proof (induction rule: rtranclp_induct)
  case (step v v')
  have run: "service_run ops s w v"
    using step.hyps(1) mono_rtranclp [of "undisturbed ops s" "service_step ops s"] undisturbed_service
    unfolding service_run_def by blast
  then have v: "world_ok ids v" using service_run_ok step.prems(1) by blast
  have one: "service_run ops s v v'"
    using undisturbed_service [OF step.hyps(2)] by (simp add: service_run_def)
  note S = service_run_ok [OF one v]
  have "task_path (db v) (db v')"
    using kitchen_run_path S v by (fastforce simp: kitchen_state_def world_ok_def)
  then have bound: "\<forall>t \<in> set (tasks (db v)). t_ID t < 2 ^ 64"
    using step.prems(3) unfolding task_path_def same_task_def by metis
  then have "queued ids {} v" using step.IH step.prems(1,2) by blast
  from undisturbed_queued [OF step.hyps(2) v this bound] show ?case using S by blast
qed simp

end

section \<open>Properties\<close>



end
