(* ===== verification/Drain.thy ===== *)
theory Drain imports
  Outbox
begin

text \<open>
  The dispatcher's loop empties the outbox: round by round it publishes the pending events, each
  once, in the order of their ids.
\<close>

section \<open>What a round leaves\<close>

definition pending :: "DomainEventModel \<Rightarrow> bool" where
  "pending e \<longleftrightarrow> e_PublishedAt e = None"

definition backlog :: "database \<Rightarrow> DomainEventModel list" where
  "backlog d = sort_key e_ID (filter pending (domain_events d))"

lemma backlog_set: "set (backlog d) = {e \<in> set (domain_events d). pending e}"
  by (auto simp: backlog_def)

lemma mark_row_not_pending [simp]: "\<not> pending (mark_row t e)"
  by (simp add: pending_def mark_row_def)

lemma mark_row_payload [simp]: "e_Payload (mark_row t e) = e_Payload e"
  by (simp add: mark_row_def)

lemma round_pending:
  assumes "list_all2 (\<lambda>e e'. if e_ID e \<in> B then \<exists>t. e' = mark_row t e else e' = e) es es'"
  shows "filter pending es' = filter (\<lambda>e. e_ID e \<notin> B) (filter pending es) \<and>
    map e_ID es' = map e_ID es \<and> map e_Payload es' = map e_Payload es"
  using assms by (induction rule: list_all2_induct) (auto split: if_splits)

lemma take_out_of_sorted:
  assumes "distinct (map k xs)"
  shows "filter (\<lambda>x. k x \<notin> k ` set (take n xs)) xs = drop n xs"
proof -
  have "distinct (map k (take n xs @ drop n xs))" using assms by simp
  then have "filter (\<lambda>x. k x \<notin> k ` set (take n xs)) (take n xs) = []"
    "filter (\<lambda>x. k x \<notin> k ` set (take n xs)) (drop n xs) = drop n xs"
    by (auto simp: filter_empty_conv intro!: filter_True simp del: append_take_drop_id)
  then have "filter (\<lambda>x. k x \<notin> k ` set (take n xs)) (take n xs @ drop n xs) = drop n xs" by (simp only: filter_append append_Nil)
  then show ?thesis by simp
qed

lemma backlog_distinct: "distinct (map e_ID (domain_events d)) \<Longrightarrow> distinct (map e_ID (backlog d))"
  by (auto simp: backlog_def distinct_map intro: inj_on_subset)

text \<open>The backlog is due at every reading of the clock from tick \<open>n\<close> on.\<close>

definition due_from :: "env \<Rightarrow> nat \<Rightarrow> database \<Rightarrow> bool" where
  "due_from env n d \<longleftrightarrow> (\<forall>e \<in> set (backlog d). \<forall>k \<ge> n. due (clock env k) e)"

definition decodable :: "database \<Rightarrow> bool" where
  "decodable d \<longleftrightarrow> (\<forall>e \<in> set (domain_events d). \<exists>ev. Unmarshal_event (e_Payload e) = Inr ev)"

lemma decodable_payloads:
  "decodable d \<longleftrightarrow> (\<forall>p \<in> set (map e_Payload (domain_events d)). \<exists>ev. Unmarshal_event p = Inr ev)"
  by (simp add: decodable_def)

lemma due_batch_backlog:
  assumes "due_from env n d" and "n \<le> k"
  shows "due_batch dp (clock env k) d = take (nat (batchSize dp)) (backlog d)"
proof -
  have "filter (due (clock env k)) (domain_events d) = filter pending (domain_events d)"
    using assms by (intro filter_cong) (auto simp: due_from_def backlog_set due_def pending_def)
  then show ?thesis by (simp add: due_batch_def backlog_def)
qed

lemma drain_round:
  assumes "healthy env" and "0 < batchSize d" and "decodable (db w)" and "due_from env (tick w) (db w)"
    and "distinct (map e_ID (domain_events (db w)))"
  obtains w' ms where "DispatchOnce env d (kafka_Publish env) w = (Inr (), w')" "queue w' = queue w"
    "published w' = published w @ ms" "list_all2 message_of (take (nat (batchSize d)) (backlog (db w))) ms"
    "backlog (db w') = drop (nat (batchSize d)) (backlog (db w))"
    "decodable (db w')" "due_from env (tick w') (db w')" "distinct (map e_ID (domain_events (db w')))"
proof -
  let ?n = "nat (batchSize d)"
  have batch: "due_batch d (clock env (tick w)) (db w) = take ?n (backlog (db w))"
    using due_batch_backlog [OF assms(4)] by simp
  obtain w' ms where r: "DispatchOnce env d (kafka_Publish env) w = (Inr (), w')" "tick w \<le> tick w'"
    "queue w' = queue w" "published w' = published w @ ms" "list_all2 message_of (take ?n (backlog (db w))) ms"
    "list_all2 (\<lambda>e e'. if e_ID e \<in> e_ID ` set (take ?n (backlog (db w))) then \<exists>t. e' = mark_row t e else e' = e)
      (domain_events (db w)) (domain_events (db w'))"
    using DispatchOnce_healthy [OF assms(1,2) assms(3) [unfolded decodable_def]] unfolding batch by blast
  note R = round_pending [OF r(6)]
  have "backlog (db w') = filter (\<lambda>e. e_ID e \<notin> e_ID ` set (take ?n (backlog (db w)))) (backlog (db w))"
    using R by (simp add: backlog_def filter_sort)
  then have b: "backlog (db w') = drop ?n (backlog (db w))"
    using take_out_of_sorted [OF backlog_distinct [OF assms(5)]] by simp
  then have "set (backlog (db w')) \<subseteq> set (backlog (db w))" by (simp add: set_drop_subset)
  then have "due_from env (tick w') (db w')" using assms(4) r(2) unfolding due_from_def by fastforce
  moreover have "decodable (db w')" using assms(3) R by (simp only: decodable_payloads)
  ultimately show thesis using that [OF r(1,3,4,5) b] assms(5) R by simp
qed

section \<open>The loop\<close>

lemma dispatcher_Run_drains:
  assumes "healthy env" and "0 < batchSize d" and "decodable (db w)" and "due_from env (tick w) (db w)"
    and "distinct (map e_ID (domain_events (db w)))" and "length (backlog (db w)) \<le> n * nat (batchSize d)"
  shows "\<exists>w' ms. dispatcher_Run env d (kafka_Publish env) n w = (Inr (), w') \<and> queue w' = queue w \<and>
    published w' = published w @ ms \<and> list_all2 message_of (backlog (db w)) ms \<and> backlog (db w') = []"
  using assms(3-)
proof (induction n arbitrary: w)
  case 0
  then show ?case by (simp add: ok_def)
next
  case (Suc n)
  obtain v ms where one: "DispatchOnce env d (kafka_Publish env) w = (Inr (), v)" "queue v = queue w"
    "published v = published w @ ms" "list_all2 message_of (take (nat (batchSize d)) (backlog (db w))) ms"
    "backlog (db v) = drop (nat (batchSize d)) (backlog (db w))"
    "decodable (db v)" "due_from env (tick v) (db v)" "distinct (map e_ID (domain_events (db v)))"
    using drain_round [OF assms(1,2) Suc.prems(1-3)] by blast
  have "length (backlog (db v)) \<le> n * nat (batchSize d)" using Suc.prems(4) by (simp add: one(5))
  from Suc.IH [OF one(6-8) this] obtain w' ms' where rest:
    "dispatcher_Run env d (kafka_Publish env) n v = (Inr (), w')" "queue w' = queue v"
    "published w' = published v @ ms'" "list_all2 message_of (backlog (db v)) ms'" "backlog (db w') = []"
    by blast
  have "list_all2 message_of (backlog (db w)) (ms @ ms')"
    using list_all2_appendI [OF one(4) rest(4)] by (simp add: one(5))
  then show ?case using one(1-3) rest by (simp add: and_then_def attempt_def)
qed

section \<open>Property\<close>

text \<open>
  C15: The outbox is drained: with a healthy database and broker, and once every pending event is
  due, enough rounds of the dispatcher's loop leave no event unpublished, and the broker has
  received exactly the pending events, each once, in the order of their ids.
\<close>

theorem outbox_drained:
  assumes "healthy env" and "0 < batchSize d"
    and "\<forall>e \<in> set (domain_events (db w)). \<exists>ev. Unmarshal_event (e_Payload e) = Inr ev"
    and "\<forall>e \<in> set (domain_events (db w)). \<forall>k \<ge> tick w. e_PublishedAt e = None \<longrightarrow> due (clock env k) e"
    and "distinct (map e_ID (domain_events (db w)))"
    and "length (filter (\<lambda>e. e_PublishedAt e = None) (domain_events (db w))) \<le> n * nat (batchSize d)"
  shows "\<exists>w' ms. dispatcher_Run env d (kafka_Publish env) n w = (Inr (), w') \<and> queue w' = queue w \<and>
    (\<forall>e \<in> set (domain_events (db w')). e_PublishedAt e \<noteq> None) \<and> published w' = published w @ ms \<and>
    list_all2 message_of (sort_key e_ID (filter (\<lambda>e. e_PublishedAt e = None) (domain_events (db w)))) ms"
proof -
  have b: "backlog (db w) = sort_key e_ID (filter (\<lambda>e. e_PublishedAt e = None) (domain_events (db w)))"
    by (simp add: backlog_def pending_def [abs_def])
  have "due_from env (tick w) (db w)" using assms(4) by (simp add: due_from_def backlog_set pending_def)
  moreover have "length (backlog (db w)) \<le> n * nat (batchSize d)" using assms(6) by (simp add: b)
  ultimately obtain w' ms where r: "dispatcher_Run env d (kafka_Publish env) n w = (Inr (), w')" "queue w' = queue w"
    "published w' = published w @ ms" "list_all2 message_of (backlog (db w)) ms" "backlog (db w') = []"
    using dispatcher_Run_drains [OF assms(1,2) assms(3) [folded decodable_def] _ assms(5)] by blast
  have "\<forall>e \<in> set (domain_events (db w')). e_PublishedAt e \<noteq> None"
    using arg_cong [OF r(5), of set] by (simp add: backlog_set pending_def)
  then show ?thesis using r(1-4) unfolding b by blast
qed

text \<open>Two events and batches of one: the second event is published by the second round.\<close>

theorem outbox_drained_witness:
  "\<exists>w' ms. dispatcher_Run live \<lparr>batchSize = 1, interval = 1\<rparr> (kafka_Publish live) 2 outbox_world = (Inr (), w') \<and>
     (\<forall>e \<in> set (domain_events (db w')). e_PublishedAt e \<noteq> None) \<and> published w' = ms \<and> length ms = 2"
proof -
  have dec: "\<forall>e \<in> set (domain_events (db outbox_world)). \<exists>ev. Unmarshal_event (e_Payload e) = Inr ev"
    by (simp add: outbox_world_def event_row_def Unmarshal_Marshal_event zero_DomainEvent_def int64_id)
  have h: "healthy live" by (simp add: healthy_def live_def)
  have due: "\<forall>e \<in> set (domain_events (db outbox_world)). \<forall>k \<ge> tick outbox_world.
      e_PublishedAt e = None \<longrightarrow> due (clock live k) e"
    by (simp add: outbox_world_def event_row_def due_def)
  have ids: "distinct (map e_ID (domain_events (db outbox_world)))"
    by (simp add: outbox_world_def event_row_def)
  have len: "length (filter (\<lambda>e. e_PublishedAt e = None) (domain_events (db outbox_world))) = 2"
    by (simp add: outbox_world_def event_row_def)
  have "published outbox_world = []" by (simp add: outbox_world_def blank_world_def)
  then show ?thesis
    using outbox_drained [OF h _ dec due ids, of "\<lparr>batchSize = 1, interval = 1\<rparr>" 2] len
    by (auto dest!: list_all2_lengthD)
qed

end
