(* ===== verification/Temporal.thy ===== *)
theory Temporal imports
  AllocationService
  Messaging
begin

text \<open>
  The orchestrator (\<open>internal/orchestrator\<close>) and the Temporal side (\<open>internal/temporalx\<close>): the bridge
  starts a workflow per event, a workflow runs activities, the activities call the services. The
  Temporal server and its SDK are parameters: how often an activity is run before its result counts
  (\<open>executions\<close>) and whether a timer is interrupted is left open.
\<close>

section \<open>The orchestrator\<close>

text \<open>
  The orchestrator holds the kitchen service and nothing else, so it is the pair of parameters
  \<open>ops\<close> and \<open>s\<close> here.
\<close>

definition handled_types :: "string list" where
  "handled_types = [EventTaskCreated, EventTaskReady, EventTaskAssigned, EventTaskStarted,
     EventTaskCompleted, EventTaskRequeued]"

definition orchestrator_HandleEvent ::
  "env \<Rightarrow> 'q ready_queue_ops \<Rightarrow> KitchenAppService \<Rightarrow> DomainEvent \<Rightarrow> ('q world, unit) act" where
  "orchestrator_HandleEvent env ops s event =
     (if Type event \<in> set handled_types then and_then (AllocateOnce env ops s) (\<lambda>_. ok ())
      else ok ())"

section \<open>Activities\<close>

definition parseTaskIDPayload :: "string \<Rightarrow> error + nat" where
  "parseTaskIDPayload payload =
     (case ParseUint (TrimSpace payload) of
        Inl e \<Rightarrow> Inl (Errorf (''invalid task payload '' @ Quote payload @ '': '' @ error_text e))
      | Inr taskID \<Rightarrow> Inr taskID)"

record AutoCompleteTaskInfo =
  TaskID :: nat
  EstimateSecs :: int

definition RunAllocationActivity ::
  "env \<Rightarrow> 'q ready_queue_ops \<Rightarrow> KitchenAppService \<Rightarrow> DomainEvent \<Rightarrow> ('q world, unit) act" where
  "RunAllocationActivity env ops s event = orchestrator_HandleEvent env ops s event"

definition PrepareAutoCompleteTaskActivity :: "env \<Rightarrow> DomainEvent \<Rightarrow> ('q world, AutoCompleteTaskInfo) act" where
  "PrepareAutoCompleteTaskActivity env event =
     and_then (lift_result (parseTaskIDPayload (Payload event))) (\<lambda>taskID.
     and_then (GetTask env taskID) (\<lambda>task.
     ok \<lparr>TaskID = t_ID task, EstimateSecs = t_EstimateSecs task\<rparr>))"

definition CompleteTaskByIDActivity ::
  "env \<Rightarrow> 'q ready_queue_ops \<Rightarrow> KitchenAppService \<Rightarrow> nat \<Rightarrow> ('q world, unit) act" where
  "CompleteTaskByIDActivity env ops s taskID =
     and_then (attempt (CompleteTask env ops s taskID)) (\<lambda>r.
     case r of
       Inl e \<Rightarrow>
         (let msg = error_text e
          in if Contains msg ''is not STARTED'' \<or> Contains msg ''not found'' then ok () else fail e)
     | Inr _ \<Rightarrow> ok ())"

section \<open>Workflows\<close>

text \<open>
  The server runs an activity as often as it takes: a failed attempt is retried, and so is one whose
  worker died after its effects. The result that counts is that of the last run, or a cancellation
  that comes without one. \<open>between\<close> is what the rest of the system does in the meantime.
\<close>

inductive executions ::
  "('q world \<Rightarrow> 'q world \<Rightarrow> bool) \<Rightarrow> (env \<Rightarrow> ('q world, 'a) act) \<Rightarrow> 'q world \<Rightarrow> error + 'a \<Rightarrow> 'q world \<Rightarrow> bool"
  for between m where
  given_up: "executions between m w (Inl (DriverError msg)) w"
| last: "m env w = (r, w') \<Longrightarrow> executions between m w r w'"
| again: "m env w = (x, w1) \<Longrightarrow> between w1 w2 \<Longrightarrow> executions between m w2 r w' \<Longrightarrow> executions between m w r w'"

inductive AllocationWorkflow ::
  "'q ready_queue_ops \<Rightarrow> KitchenAppService \<Rightarrow> ('q world \<Rightarrow> 'q world \<Rightarrow> bool) \<Rightarrow> DomainEvent \<Rightarrow>
     'q world \<Rightarrow> error + unit \<Rightarrow> 'q world \<Rightarrow> bool"
  for ops s between event where
  run: "executions between (\<lambda>env. RunAllocationActivity env ops s event) w r w' \<Longrightarrow>
    AllocationWorkflow ops s between event w r w'"

definition sleep_duration :: "int \<Rightarrow> int" where
  "sleep_duration estimateSecs = int64 ((if estimateSecs < 1 then 1 else estimateSecs) * Second)"

text \<open>
  The length of the timer is the last argument. The rest of the system goes on while the workflow
  sleeps; a workflow that is cancelled ends in the timer.
\<close>

inductive AutoCompleteTaskWorkflow ::
  "'q ready_queue_ops \<Rightarrow> KitchenAppService \<Rightarrow> ('q world \<Rightarrow> 'q world \<Rightarrow> bool) \<Rightarrow> DomainEvent \<Rightarrow>
     'q world \<Rightarrow> error + unit \<Rightarrow> 'q world \<Rightarrow> int option \<Rightarrow> bool"
  for ops s between event where
  not_prepared: "executions between (\<lambda>env. PrepareAutoCompleteTaskActivity env event) w (Inl e) w' \<Longrightarrow>
    AutoCompleteTaskWorkflow ops s between event w (Inl e) w' None"
| interrupted: "executions between (\<lambda>env. PrepareAutoCompleteTaskActivity env event) w (Inr info) w1 \<Longrightarrow>
    between w1 w' \<Longrightarrow>
    AutoCompleteTaskWorkflow ops s between event w (Inl (DriverError msg)) w'
      (Some (sleep_duration (EstimateSecs info)))"
| slept: "executions between (\<lambda>env. PrepareAutoCompleteTaskActivity env event) w (Inr info) w1 \<Longrightarrow>
    between w1 w2 \<Longrightarrow>
    executions between (\<lambda>env. CompleteTaskByIDActivity env ops s (TaskID info)) w2 r w' \<Longrightarrow>
    AutoCompleteTaskWorkflow ops s between event w r w' (Some (sleep_duration (EstimateSecs info)))"

inductive_cases AutoCompleteTaskWorkflowE: "AutoCompleteTaskWorkflow ops s between event w r w' timer"

section \<open>The worker and the bridge\<close>

datatype workflow = Allocation | AutoComplete

definition AllocationTaskQueue :: string where "AllocationTaskQueue = ''kitchen-allocation-task-queue''"

text \<open>What \<open>StartAllocationWorker\<close> registers, and the activity names the workflows execute.\<close>

definition registered_workflows :: "workflow list" where
  "registered_workflows = [Allocation, AutoComplete]"

definition registered_activities :: "string list" where
  "registered_activities = [''RunAllocationActivity'', ''PrepareAutoCompleteTaskActivity'', ''CompleteTaskByIDActivity'']"

fun executed_activities :: "workflow \<Rightarrow> string list" where
  "executed_activities Allocation = [''RunAllocationActivity'']"
| "executed_activities AutoComplete = [''PrepareAutoCompleteTaskActivity'', ''CompleteTaskByIDActivity'']"

record TopicToTemporalBridge =
  TaskQueue :: string
  AllocationWorkflowID :: string
  AutoCompleteWorkflowID :: string

definition NewTopicToTemporalBridge :: TopicToTemporalBridge where
  "NewTopicToTemporalBridge = \<lparr>TaskQueue = AllocationTaskQueue, AllocationWorkflowID = ''allocation-event'',
     AutoCompleteWorkflowID = ''auto-complete-event''\<rparr>"

record StartWorkflowOptions =
  workflow_ID :: string
  workflow_TaskQueue :: string

definition choose_workflow :: "TopicToTemporalBridge \<Rightarrow> DomainEvent \<Rightarrow> workflow \<times> string" where
  "choose_workflow b event =
     (if Type event = EventTaskStarted then (AutoComplete, AutoCompleteWorkflowID b)
      else (Allocation, AllocationWorkflowID b))"

text \<open>\<open>ExecuteWorkflow\<close> is the Temporal client's.\<close>

definition bridge_HandleEvent ::
  "env \<Rightarrow> (StartWorkflowOptions \<Rightarrow> workflow \<Rightarrow> DomainEvent \<Rightarrow> ('q world, unit) act) \<Rightarrow>
     TopicToTemporalBridge \<Rightarrow> DomainEvent \<Rightarrow> ('q world, unit) act" where
  "bridge_HandleEvent env ExecuteWorkflow b event =
     (case choose_workflow b event of (workflowFunc, baseID) \<Rightarrow>
        and_then (Now env) (\<lambda>t.
        ExecuteWorkflow \<lparr>workflow_ID = baseID @ ''-'' @ Type event @ ''-'' @ FormatInt (UnixNano t),
                         workflow_TaskQueue = TaskQueue b\<rparr> workflowFunc event))"

definition RunTopicConsumer ::
  "env \<Rightarrow> (StartWorkflowOptions \<Rightarrow> workflow \<Rightarrow> DomainEvent \<Rightarrow> ('q world, unit) act) \<Rightarrow>
     KafkaTopic \<Rightarrow> TopicToTemporalBridge \<Rightarrow> (error + json) list \<Rightarrow> ('q world, consume_state) act" where
  "RunTopicConsumer env ExecuteWorkflow topic b reads =
     kafka_Consume env topic (bridge_HandleEvent env ExecuteWorkflow b) reads"

end
