(* ===== verification/Workflows.thy ===== *)
theory Workflows imports
  Kitchen
  Temporal
begin

text \<open>
  What the workflows do to the kitchen: they reach it only through the services, so whatever the
  Temporal server repeats, cancels or delays is a run of the services, and completing a task a
  second time has no effect.
\<close>

section \<open>Activities as service calls\<close>

lemma service_run_trans: "service_run ops s u v \<Longrightarrow> service_run ops s v w \<Longrightarrow> service_run ops s u w"
  by (simp add: service_run_def)

lemma service_run_step: "service_step ops s w w' \<Longrightarrow> service_run ops s w w'"
  by (simp add: service_run_def)

lemma executions_service_run:
  assumes "executions (service_run ops s) m w r w'"
    and "\<And>env w r w'. m env w = (r, w') \<Longrightarrow> service_run ops s w w'"
  shows "service_run ops s w w'"
  using assms(1)
proof (induction rule: executions.induct)
  case (again env w x w1 w2 r w')
  then show ?case using assms(2) [of env w x w1] service_run_trans by blast
qed (use assms(2) in \<open>auto intro: service_run_refl\<close>)

lemma RunAllocationActivity_run:
  assumes "RunAllocationActivity env ops s event w = (r, w')"
  shows "service_run ops s w w'"
proof (cases "Type event \<in> set handled_types")
  case True
  obtain x v where a: "AllocateOnce env ops s w = (x, v)" by force
  have "w' = v"
    using assms True a
    by (auto simp: RunAllocationActivity_def orchestrator_HandleEvent_def and_then_def ok_def split: sum.splits)
  then show ?thesis using a service_run_step [OF service_step.allocate] by blast
next
  case False
  then show ?thesis
    using assms by (auto simp: RunAllocationActivity_def orchestrator_HandleEvent_def ok_def)
qed

lemma PrepareAutoCompleteTaskActivity_run:
  assumes "PrepareAutoCompleteTaskActivity env event w = (r, w')"
  shows "service_run ops s w w'"
proof (cases "parseTaskIDPayload (Payload event)")
  case (Inl e)
  then show ?thesis
    using assms by (auto simp: PrepareAutoCompleteTaskActivity_def and_then_def lift_result_def)
next
  case (Inr taskID)
  obtain x v where g: "GetTask env taskID w = (x, v)" by force
  have "w' = v"
    using assms Inr g
    by (auto simp: PrepareAutoCompleteTaskActivity_def and_then_def lift_result_def ok_def split: sum.splits)
  then show ?thesis using g service_run_step [OF service_step.get] by blast
qed

lemma CompleteTaskByIDActivity_run:
  assumes "CompleteTaskByIDActivity env ops s taskID w = (r, w')"
  shows "service_run ops s w w'"
proof -
  obtain x v where c: "CompleteTask env ops s taskID w = (x, v)" by force
  have "w' = v"
    using assms c
    by (auto simp: CompleteTaskByIDActivity_def and_then_def attempt_def ok_def fail_def Let_def split: sum.splits if_splits)
  then show ?thesis using c service_run_step [OF service_step.complete] by blast
qed

lemma AllocationWorkflow_run:
  "AllocationWorkflow ops s (service_run ops s) event w r w' \<Longrightarrow> service_run ops s w w'"
  by (auto elim!: AllocationWorkflow.cases intro: executions_service_run RunAllocationActivity_run)

lemma AutoCompleteTaskWorkflow_run:
  assumes "AutoCompleteTaskWorkflow ops s (service_run ops s) event w r w' timer"
  shows "service_run ops s w w'"
  using assms
proof (cases rule: AutoCompleteTaskWorkflow.cases)
  case (not_prepared e)
  then show ?thesis by (auto intro: executions_service_run PrepareAutoCompleteTaskActivity_run)
next
  case (interrupted info w1 msg)
  then have "service_run ops s w w1"
    by (auto intro: executions_service_run PrepareAutoCompleteTaskActivity_run)
  then show ?thesis using interrupted service_run_trans by blast
next
  case (slept info w1 w2)
  then have "service_run ops s w w1" "service_run ops s w2 w'"
    by (auto intro: executions_service_run PrepareAutoCompleteTaskActivity_run CompleteTaskByIDActivity_run)
  then show ?thesis using slept service_run_trans by blast
qed

section \<open>Refused completions\<close>

lemma not_started_text: "Contains (task_text i '' is not STARTED'') ''is not STARTED''"
  using Contains_append [of "''task '' @ FormatUint i @ '' ''" "''is not STARTED''" "[]"] by (simp add: task_text_def)

lemma UpdateTaskStatusCompleted_refused:
  assumes "\<And>n. fault env n = None" and "\<not> aborted w"
    and "\<And>t. t \<in> set (tasks (db w)) \<Longrightarrow> t_ID t = taskID \<Longrightarrow> t_Status t \<noteq> TaskStarted"
  obtains e v where "UpdateTaskStatusCompleted env taskID now w = (Inl e, v)" "db v = db w" "queue v = queue w"
    "published v = published w" "Contains (error_text e) ''is not STARTED'' \<or> Contains (error_text e) ''not found''"
proof (cases "sql_first (\<lambda>t. t_ID t = taskID) t_ID (tasks (db w))")
  case (Inl e)
  then have "e = ErrNotFound" by (simp add: sql_first_Inl)
  then show ?thesis
    using Inl assms(1,2)
    by (intro that [of e "w\<lparr>tick := Suc (tick w), aborted := False\<rparr>"]) (auto simp: UpdateTaskStatusCompleted_def lock_task_def and_then_def tx_statement_def
        statement_def query_def Let_def)
next
  case (Inr t)
  then have "t_Status t \<noteq> TaskStarted" using assms(3) sql_first_Inr [OF Inr] by blast
  then show ?thesis
    using Inr assms(1,2)
    by (intro that [of "Errorf (task_text (t_ID t) '' is not STARTED'')" "w\<lparr>tick := Suc (tick w)\<rparr>"])
      (auto simp: UpdateTaskStatusCompleted_def lock_task_def and_then_def tx_statement_def
        statement_def query_def Let_def fail_def not_started_text)
qed

lemma CompleteTask_refused:
  assumes "CompleteTask env ops s taskID w = (x, v)" and "\<And>n. fault env n = None"
    and "\<And>t. t \<in> set (tasks (db w)) \<Longrightarrow> t_ID t = taskID \<Longrightarrow> t_Status t \<noteq> TaskStarted"
  obtains e where "x = Inl e" "Contains (error_text e) ''is not STARTED'' \<or> Contains (error_text e) ''not found''"
    "same_tables (db w) (db v)" "queue v = queue w" "published v = published w"
proof -
  let ?now = "clock env (tick w)" and ?w = "w\<lparr>tick := Suc (Suc (tick w)), aborted := False\<rparr>"
  obtain e u where u: "UpdateTaskStatusCompleted env taskID ?now ?w = (Inl e, u)" "db u = db w" "queue u = queue w"
    "published u = published w" "Contains (error_text e) ''is not STARTED'' \<or> Contains (error_text e) ''not found''"
    by (rule UpdateTaskStatusCompleted_refused [of env ?w taskID ?now]) (use assms(2,3) in auto)
  have "complete_body env ops s taskID ?now ?w = (Inl e, u)"
    using u(1) by (simp add: complete_body_def and_then_def)
  then have "x = Inl e \<and> v = rollback (db w) u"
    using assms(1,2) by (simp add: CompleteTask_def and_then_def Now_def transaction_def Let_def)
  then show ?thesis using u that same_tables_rollback by auto
qed

section \<open>Properties\<close>



text \<open>
  C23: The event that StartTask writes starts the auto-complete workflow, whose first activity reads the
  id back from the payload and finds the estimate of that very task; every other kind of event
  starts an allocation.
\<close>

theorem started_event_prepares_completion:
  assumes "taskID < 2 ^ 64" and "t \<in> set (tasks (db w))" and "t_ID t = taskID"
    and "distinct (map t_ID (tasks (db w)))" and "fault env (tick w) = None"
  shows "fst (choose_workflow b (task_event EventTaskStarted now taskID)) = AutoComplete \<and>
    fst (PrepareAutoCompleteTaskActivity env (task_event EventTaskStarted now taskID) w) =
      Inr \<lparr>TaskID = taskID, EstimateSecs = t_EstimateSecs t\<rparr> \<and>
    (Type event \<noteq> EventTaskStarted \<longrightarrow> fst (choose_workflow b event) = Allocation)"
proof -
  have "sql_first (\<lambda>x. t_ID x = taskID) t_ID (tasks (db w)) = Inr t"
    by (rule sql_first_key [OF assms(4,2)]) (use assms(3) in auto)
  then have "fst (GetTask env taskID w) = Inr t"
    using assms(5) by (simp add: GetTask_def GetTaskByID_def statement_def query_def)
  then obtain v where "GetTask env taskID w = (Inr t, v)" by (metis prod.collapse)
  moreover have "parseTaskIDPayload (FormatUint taskID) = Inr taskID"
    using assms(1) by (simp add: parseTaskIDPayload_def FormatUint_no_space ParseUint_FormatUint)
  ultimately show ?thesis
    using assms(3)
    by (simp add: choose_workflow_def task_event_def PrepareAutoCompleteTaskActivity_def and_then_def
        lift_result_def ok_def)
qed

theorem started_event_prepares_completion_witness:
  "fst (PrepareAutoCompleteTaskActivity calm (task_event EventTaskStarted 5 2) (world_of (kitchen_at TaskAssigned))) =
     Inr \<lparr>TaskID = 2, EstimateSecs = 30\<rparr>"
  using started_event_prepares_completion [of 2 "tea_task 2 TaskUnassigned 1" "world_of (kitchen_at TaskAssigned)" calm]
  by (simp add: world_of_def kitchen_at_defs calm_def)

text \<open>
  C38: The timer of the auto-complete workflow runs for the estimate of the task in seconds, one second
  when the estimate is not positive; no estimate of the INTEGER column overflows the duration.
\<close>

theorem sleep_is_estimate:
  assumes "- (2 ^ 31) \<le> estimate" and "estimate < 2 ^ 31"
  shows "sleep_duration estimate = max 1 estimate * Second \<and> Second \<le> sleep_duration estimate"
proof -
  have "1 \<le> max 1 estimate" "max 1 estimate < 2 ^ 31" using assms by simp_all
  then have "- (2 ^ 63) \<le> max 1 estimate * Second" "max 1 estimate * Second < 2 ^ 63" "Second \<le> max 1 estimate * Second"
    by (simp_all add: Second_def)
  then have "int64 (max 1 estimate * Second) = max 1 estimate * Second" by (intro int64_id)
  moreover have "(if estimate < 1 then 1 else estimate) = max 1 estimate" by simp
  ultimately show ?thesis using \<open>Second \<le> max 1 estimate * Second\<close> by (simp only: sleep_duration_def)
qed

theorem sleep_is_estimate_witness: "sleep_duration 30 = 30000000000 \<and> sleep_duration (- 4) = 1000000000"
  using sleep_is_estimate [of 30] sleep_is_estimate [of "- 4"] by (simp add: Second_def)

text \<open>
  C22: Completing again is harmless: for a task that does not exist or is not STARTED the activity
  reports success and leaves every table, the queue and the broker as they were.
\<close>

theorem completion_retry_harmless:
  assumes "CompleteTaskByIDActivity env ops s taskID w = (r, w')"
    and "\<And>n. fault env n = None"
    and "\<And>t. t \<in> set (tasks (db w)) \<Longrightarrow> t_ID t = taskID \<Longrightarrow> t_Status t \<noteq> TaskStarted"
  shows "r = Inr () \<and> same_tables (db w) (db w') \<and> queue w' = queue w \<and> published w' = published w"
proof -
  obtain x v where c: "CompleteTask env ops s taskID w = (x, v)" by force
  obtain e where "x = Inl e" "Contains (error_text e) ''is not STARTED'' \<or> Contains (error_text e) ''not found''"
    "same_tables (db w) (db v)" "queue v = queue w" "published v = published w"
    by (rule CompleteTask_refused [OF c assms(2,3)])
  then show ?thesis
    using assms(1) c by (auto simp: CompleteTaskByIDActivity_def and_then_def attempt_def ok_def)
qed

theorem completion_retry_harmless_witness:
  "fst (CompleteTaskByIDActivity calm in_memory NewKitchenAppService 1 (world_of second_course)) = Inr ()"
proof -
  let ?w = "world_of second_course"
  obtain r w' where run: "CompleteTaskByIDActivity calm in_memory NewKitchenAppService 1 ?w = (r, w')" by force
  have "t_Status t \<noteq> TaskStarted" if "t \<in> set (tasks (db ?w))" "t_ID t = 1" for t
    using that by (auto simp: world_of_def second_course_defs)
  from completion_retry_harmless [OF run _ this] run show ?thesis by (simp add: calm_def)
qed

end
