(* ===== verification/Api.thy ===== *)
theory Api imports
  OrderService
  Samples
begin

text \<open>
  The HTTP side (\<open>internal/api\<close>): the router picks a handler by method and path, a handler decodes
  its input, calls the service and answers with a status and a JSON body.
\<close>

section \<open>Requests and responses\<close>

datatype body = Fields "(string \<times> json) list" | TaskBody TaskModel

record response =
  status :: nat
  content :: body

definition writeJSON :: "nat \<Rightarrow> body \<Rightarrow> response" where
  "writeJSON st payload = \<lparr>status = st, content = payload\<rparr>"

definition error_body :: "string \<Rightarrow> body" where
  "error_body msg = Fields [(''error'', JString msg)]"

text \<open>
  \<open>json.Decode\<close> into a \<open>ConfirmOrderRequest\<close>: \<open>raw\<close> is the body's JSON value or the error of the
  parser. Keys match up to case, \<open>null\<close> leaves the field (or gives the zero quantity), the first
  mismatch of types is the error and decoding goes on; a repeated key of the map overwrites.
\<close>

fun set_item :: "string \<times> json \<Rightarrow> (string \<times> int) list \<Rightarrow> error option \<times> (string \<times> int) list" where
  "set_item (k, JInt i) its =
     (if int64 i = i then (None, AList.update k i its)
      else (Some (Errorf ''json: cannot unmarshal number''), AList.update k 0 its))"
| "set_item (k, JNull) its = (None, AList.update k 0 its)"
| "set_item (k, v) its = (Some (Errorf ''json: cannot unmarshal value''), AList.update k 0 its)"

definition first_error :: "error option \<Rightarrow> error option \<Rightarrow> error option" where
  "first_error e e' = (case e of None \<Rightarrow> e' | Some x \<Rightarrow> Some x)"

fun set_items :: "(string \<times> json) list \<Rightarrow> error option \<Rightarrow> (string \<times> int) list \<Rightarrow> error option \<times> (string \<times> int) list" where
  "set_items [] err its = (err, its)"
| "set_items (kv # kvs) err its =
     (case set_item kv its of (e, its') \<Rightarrow> set_items kvs (first_error err e) its')"

fun set_request_field :: "string \<times> json \<Rightarrow> ConfirmOrderRequest \<Rightarrow> error option \<times> ConfirmOrderRequest" where
  "set_request_field (k, v) req =
     (if same_key k ''external_order_id''
      then (case v of JString x \<Rightarrow> (None, req\<lparr>ExternalOrderID := x\<rparr>)
            | JNull \<Rightarrow> (None, req)
            | _ \<Rightarrow> (Some (Errorf ''json: cannot unmarshal value''), req))
      else if same_key k ''items''
      then (case v of JObject kvs \<Rightarrow> (case set_items kvs None (Items req) of (e, its) \<Rightarrow> (e, req\<lparr>Items := its\<rparr>))
            | JNull \<Rightarrow> (None, req\<lparr>Items := []\<rparr>)
            | _ \<Rightarrow> (Some (Errorf ''json: cannot unmarshal value''), req))
      else (None, req))"

fun set_request_fields :: "(string \<times> json) list \<Rightarrow> error option \<Rightarrow> ConfirmOrderRequest \<Rightarrow> error + ConfirmOrderRequest" where
  "set_request_fields [] err req = (case err of None \<Rightarrow> Inr req | Some e \<Rightarrow> Inl e)"
| "set_request_fields (kv # kvs) err req =
     (case set_request_field kv req of (e, req') \<Rightarrow> set_request_fields kvs (first_error err e) req')"

definition zero_request :: ConfirmOrderRequest where
  "zero_request = \<lparr>ExternalOrderID = [], Items = []\<rparr>"

fun Decode_request :: "error + json \<Rightarrow> error + ConfirmOrderRequest" where
  "Decode_request (Inl e) = Inl e"
| "Decode_request (Inr (JObject kvs)) = set_request_fields kvs None zero_request"
| "Decode_request (Inr JNull) = Inr zero_request"
| "Decode_request (Inr v) = Inl (Errorf ''json: cannot unmarshal value'')"

section \<open>Handlers\<close>

definition Health :: response where
  "Health = writeJSON 200 (Fields [(''status'', JString ''ok'')])"

definition ConfirmOrder_handler ::
  "env \<Rightarrow> 'q ready_queue_ops \<Rightarrow> KitchenAppService \<Rightarrow> error + json \<Rightarrow> ('q world, response) act" where
  "ConfirmOrder_handler env ops s raw =
     (case Decode_request raw of
        Inl e \<Rightarrow> ok (writeJSON 400 (error_body (error_text e)))
      | Inr req \<Rightarrow>
          and_then (attempt (ConfirmOrder env ops s req)) (\<lambda>r.
          case r of
            Inl e \<Rightarrow> ok (writeJSON 400 (error_body (error_text e)))
          | Inr (orderID, ready) \<Rightarrow>
              ok (writeJSON 201 (Fields [(''order_id'', JInt (int orderID)),
                   (''ready_task_ids'', JArray (map (JInt \<circ> int) ready))]))))"

definition AllocateOnce_handler ::
  "env \<Rightarrow> 'q ready_queue_ops \<Rightarrow> KitchenAppService \<Rightarrow> ('q world, response) act" where
  "AllocateOnce_handler env ops s =
     and_then (attempt (AllocateOnce env ops s)) (\<lambda>r.
     case r of
       Inl e \<Rightarrow> ok (writeJSON 500 (error_body (error_text e)))
     | Inr taskID \<Rightarrow> ok (writeJSON 200 (Fields [(''assigned_task_id'', JInt (int taskID))])))"

definition parseTaskID :: "string \<Rightarrow> error + nat" where
  "parseTaskID param = ParseUint param"

definition StartTask_handler :: "env \<Rightarrow> string \<Rightarrow> ('q world, response) act" where
  "StartTask_handler env param =
     (case parseTaskID param of
        Inl _ \<Rightarrow> ok (writeJSON 400 (error_body ''invalid taskID''))
      | Inr taskID \<Rightarrow>
          and_then (attempt (StartTask env taskID)) (\<lambda>r.
          case r of
            Inl e \<Rightarrow> ok (writeJSON 400 (error_body (error_text e)))
          | Inr _ \<Rightarrow> ok (writeJSON 200 (Fields [(''status'', JString ''STARTED'')]))))"

definition CompleteTask_handler ::
  "env \<Rightarrow> 'q ready_queue_ops \<Rightarrow> KitchenAppService \<Rightarrow> string \<Rightarrow> ('q world, response) act" where
  "CompleteTask_handler env ops s param =
     (case parseTaskID param of
        Inl _ \<Rightarrow> ok (writeJSON 400 (error_body ''invalid taskID''))
      | Inr taskID \<Rightarrow>
          and_then (attempt (CompleteTask env ops s taskID)) (\<lambda>r.
          case r of
            Inl e \<Rightarrow> ok (writeJSON 400 (error_body (error_text e)))
          | Inr _ \<Rightarrow> ok (writeJSON 200 (Fields [(''status'', JString ''COMPLETED'')]))))"

definition GetTask_handler :: "env \<Rightarrow> string \<Rightarrow> ('q world, response) act" where
  "GetTask_handler env param =
     (case parseTaskID param of
        Inl _ \<Rightarrow> ok (writeJSON 400 (error_body ''invalid taskID''))
      | Inr taskID \<Rightarrow>
          and_then (attempt (GetTask env taskID)) (\<lambda>r.
          case r of
            Inl e \<Rightarrow> if e = ErrNotFound then ok (writeJSON 404 (error_body ''task not found''))
                     else ok (writeJSON 500 (error_body (error_text e)))
          | Inr task \<Rightarrow> ok (writeJSON 200 (TaskBody task))))"

section \<open>Routes\<close>

text \<open>A path as its segments; \<open>{taskID}\<close> matches one non-empty segment.\<close>

datatype route = HealthRoute | ConfirmRoute | AllocateRoute | StartRoute string | CompleteRoute string | GetRoute string

definition find_route :: "string \<Rightarrow> string \<Rightarrow> route option" where
  "find_route meth path =
     (case Split path (CHR ''/'') of
        [[], seg] \<Rightarrow> if meth = ''GET'' \<and> seg = ''health'' then Some HealthRoute else None
      | [[], a, v, x, y] \<Rightarrow>
          if a = ''api'' \<and> v = ''v1'' \<and> meth = ''POST'' \<and> x = ''orders'' \<and> y = ''confirm'' then Some ConfirmRoute
          else if a = ''api'' \<and> v = ''v1'' \<and> meth = ''POST'' \<and> x = ''allocator'' \<and> y = ''run-once'' then Some AllocateRoute
          else if a = ''api'' \<and> v = ''v1'' \<and> meth = ''GET'' \<and> x = ''tasks'' \<and> y \<noteq> [] then Some (GetRoute y)
          else None
      | [[], a, v, x, y, z] \<Rightarrow>
          if a = ''api'' \<and> v = ''v1'' \<and> meth = ''POST'' \<and> x = ''tasks'' \<and> y \<noteq> []
          then (if z = ''start'' then Some (StartRoute y)
                else if z = ''complete'' then Some (CompleteRoute y) else None)
          else None
      | _ \<Rightarrow> None)"

text \<open>A request to the API; \<open>None\<close> is the router's own answer (404 or 405).\<close>

definition serve ::
  "env \<Rightarrow> 'q ready_queue_ops \<Rightarrow> KitchenAppService \<Rightarrow> string \<Rightarrow> string \<Rightarrow> error + json \<Rightarrow>
     ('q world, response option) act" where
  "serve env ops s meth path raw =
     (case find_route meth path of
        None \<Rightarrow> ok None
      | Some HealthRoute \<Rightarrow> ok (Some Health)
      | Some ConfirmRoute \<Rightarrow> and_then (ConfirmOrder_handler env ops s raw) (\<lambda>r. ok (Some r))
      | Some AllocateRoute \<Rightarrow> and_then (AllocateOnce_handler env ops s) (\<lambda>r. ok (Some r))
      | Some (StartRoute p) \<Rightarrow> and_then (StartTask_handler env p) (\<lambda>r. ok (Some r))
      | Some (CompleteRoute p) \<Rightarrow> and_then (CompleteTask_handler env ops s p) (\<lambda>r. ok (Some r))
      | Some (GetRoute p) \<Rightarrow> and_then (GetTask_handler env p) (\<lambda>r. ok (Some r)))"

text \<open>
  The request struct has the tags \<open>external_order_id\<close> and \<open>items\<close>: what a client encodes with them
  is decoded to the request it meant.
\<close>

definition Encode_request :: "ConfirmOrderRequest \<Rightarrow> json" where
  "Encode_request req = JObject [(''external_order_id'', JString (ExternalOrderID req)),
     (''items'', JObject (map (\<lambda>(k, i). (k, JInt i)) (Items req)))]"

lemma update_fresh: "k \<notin> fst ` set its \<Longrightarrow> AList.update k i its = its @ [(k, i)]"
  by (induction its) auto

lemma set_items_encoded:
  assumes "distinct (map fst (acc @ its))" and "\<forall>(k, i) \<in> set its. int64 i = i"
  shows "set_items (map (\<lambda>(k, i). (k, JInt i)) its) None acc = (None, acc @ its)"
  using assms
proof (induction its arbitrary: acc)
  case (Cons ki its)
  obtain k i where ki: "ki = (k, i)" by force
  have "AList.update k i acc = acc @ [(k, i)]" using Cons.prems(1) ki by (intro update_fresh) auto
  then show ?case using Cons.IH [of "acc @ [(k, i)]"] Cons.prems ki by (simp add: first_error_def)
qed simp

section \<open>Routing\<close>

fun join_with :: "char \<Rightarrow> string list \<Rightarrow> string" where
  "join_with c [] = []"
| "join_with c [x] = x"
| "join_with c (x # y # xs) = x @ c # join_with c (y # xs)"

lemma Split_ne: "Split s c \<noteq> []"
  by (cases s) (auto split: list.splits)

lemma Split_clean: "c \<notin> set x \<Longrightarrow> Split x c = [x]"
  by (induction x) auto

lemma Split_cons: "c \<notin> set x \<Longrightarrow> Split (x @ c # s) c = x # Split s c"
proof (induction x)
  case Nil
  then show ?case using Split_ne [of s c] by (cases "Split s c") auto
qed auto

lemma Split_join: "xs \<noteq> [] \<Longrightarrow> (\<And>x. x \<in> set xs \<Longrightarrow> c \<notin> set x) \<Longrightarrow> Split (join_with c xs) c = xs"
  by (induction c xs rule: join_with.induct) (simp_all add: Split_clean Split_cons)

lemma join_cons: "xs \<noteq> [] \<Longrightarrow> join_with c ((k # x) # xs) = k # join_with c (x # xs)"
  by (cases xs) auto

lemma join_Split: "join_with c (Split s c) = s \<and> (\<forall>x \<in> set (Split s c). c \<notin> set x) \<and> Split s c \<noteq> []"
proof (induction s)
  case (Cons k s)
  obtain x xs where s: "Split s c = x # xs" using Cons.IH by (cases "Split s c") auto
  then show ?case using Cons.IH by (cases xs) (auto split: list.splits)
qed simp

text \<open>The shape of the route table, with the words left open.\<close>

lemma route_table:
  assumes "(case xs of
        [[], seg] \<Rightarrow> if meth = mg \<and> seg = p1 then Some A else None
      | [[], a, v, x, y] \<Rightarrow>
          if a = p9 \<and> v = p10 \<and> meth = mp \<and> x = p2 \<and> y = p3 then Some B
          else if a = p9 \<and> v = p10 \<and> meth = mp \<and> x = p4 \<and> y = p5 then Some C
          else if a = p9 \<and> v = p10 \<and> meth = mg \<and> x = p6 \<and> y \<noteq> [] then Some (D y)
          else None
      | [[], a, v, x, y, z] \<Rightarrow>
          if a = p9 \<and> v = p10 \<and> meth = mp \<and> x = p6 \<and> y \<noteq> []
          then (if z = p7 then Some (E y) else if z = p8 then Some (F y) else None)
          else None
      | _ \<Rightarrow> None) = Some r"
  shows "meth = mg \<and> xs = [[], p1] \<and> r = A \<or>
    meth = mp \<and> xs = [[], p9, p10, p2, p3] \<and> r = B \<or>
    meth = mp \<and> xs = [[], p9, p10, p4, p5] \<and> r = C \<or>
    (\<exists>i. i \<noteq> [] \<and> (meth = mg \<and> xs = [[], p9, p10, p6, i] \<and> r = D i \<or>
      meth = mp \<and> xs = [[], p9, p10, p6, i, p7] \<and> r = E i \<or>
      meth = mp \<and> xs = [[], p9, p10, p6, i, p8] \<and> r = F i))"
  using assms by (auto split: list.splits if_splits)

section \<open>Properties\<close>


text \<open>
  C32: A request survives its encoding: what a client encodes with the tags of the struct is decoded to
  the request it meant, for every list of different items with 64-bit quantities.
\<close>

theorem request_roundtrip:
  assumes "distinct (map fst (Items req))" and "\<forall>(k, i) \<in> set (Items req). int64 i = i"
  shows "Decode_request (Inr (Encode_request req)) = Inr req"
proof -
  have "set_items (map (\<lambda>(k, i). (k, JInt i)) (Items req)) None [] = (None, Items req)"
    using set_items_encoded [of "[]" "Items req"] assms by simp
  moreover have "\<not> same_key ''items'' ''external_order_id''" "same_key k k" for k
    by (simp_all add: same_key_def ToLower_def to_lower_def)
  ultimately show ?thesis
    by (simp add: Encode_request_def zero_request_def first_error_def)
qed

theorem request_roundtrip_witness:
  "Decode_request (Inr (JObject [(''external_order_id'', JString ''a''), (''items'', JObject [(''tea'', JInt 2)])])) =
     Inr \<lparr>ExternalOrderID = ''a'', Items = [(''tea'', 2)]\<rparr>"
  using request_roundtrip [of "\<lparr>ExternalOrderID = ''a'', Items = [(''tea'', 2)]\<rparr>"]
  by (simp add: Encode_request_def int64_id)

text \<open>
  C33: Reading a task answers 400 for an id that is no number, 404 exactly when there is no such task,
  200 with its row when there is, and 500 only when the statement failed; the tables are untouched.
\<close>

theorem get_task_status:
  assumes "GetTask_handler env param w = (Inr resp, w')"
  shows "db w' = db w \<and>
    (case ParseUint param of
       Inl e \<Rightarrow> status resp = 400
     | Inr i \<Rightarrow> (case fault env (tick w) of
         Some f \<Rightarrow> status resp = 500
       | None \<Rightarrow> if \<exists>t \<in> set (tasks (db w)). t_ID t = i
           then status resp = 200 \<and> (\<exists>t \<in> set (tasks (db w)). t_ID t = i \<and> content resp = TaskBody t)
           else status resp = 404))"
proof (cases "ParseUint param")
  case (Inl e)
  then show ?thesis using assms by (auto simp: GetTask_handler_def parseTaskID_def writeJSON_def)
next
  case (Inr i)
  show ?thesis
  proof (cases "fault env (tick w)")
    case (Some f)
    then show ?thesis
      using assms Inr
      by (auto simp: GetTask_handler_def parseTaskID_def writeJSON_def GetTask_def GetTaskByID_def and_then_def
          attempt_def statement_def ok_def query_def Let_def split: prod.splits)
  next
    case None
    let ?r = "sql_first (\<lambda>t. t_ID t = i) t_ID (tasks (db w))"
    show ?thesis
    proof (cases ?r)
      case (Inl e)
      then have e: "e = ErrNotFound" "\<not> (\<exists>t \<in> set (tasks (db w)). t_ID t = i)" by (simp_all add: sql_first_Inl)
      then have "status resp = 404 \<and> db w' = db w"
        using assms \<open>ParseUint param = Inr i\<close> None Inl
        by (auto simp: GetTask_handler_def parseTaskID_def writeJSON_def GetTask_def GetTaskByID_def and_then_def
            attempt_def statement_def ok_def query_def Let_def)
      then show ?thesis using e Inr None by simp
    next
      case (Inr t)
      then have t: "t \<in> set (tasks (db w))" "t_ID t = i" using sql_first_Inr [OF Inr] by simp_all
      have "status resp = 200 \<and> content resp = TaskBody t \<and> db w' = db w"
        using assms \<open>ParseUint param = Inr i\<close> None Inr
        by (auto simp: GetTask_handler_def parseTaskID_def writeJSON_def GetTask_def GetTaskByID_def and_then_def
            attempt_def statement_def ok_def query_def Let_def)
      then show ?thesis using t \<open>ParseUint param = Inr i\<close> None by auto
    qed
  qed
qed

theorem get_task_status_witness:
  "\<exists>resp w'. GetTask_handler calm ''2'' (world_of (kitchen_at TaskAssigned)) = (Inr resp, w') \<and>
     db w' = kitchen_at TaskAssigned \<and> status resp = 200"
proof -
  let ?w = "world_of (kitchen_at TaskAssigned)"
  have "digit_char 2 = CHR ''2''" by code_simp
  then have "FormatUint 2 = ''2''" by (subst FormatUint.simps) simp
  then have two: "ParseUint ''2'' = Inr 2" using ParseUint_FormatUint [of 2] by simp
  have "fst (GetTask calm 2 ?w) = Inr (tea_task 2 TaskUnassigned 1)" by code_simp
  then obtain w' where "GetTask calm 2 ?w = (Inr (tea_task 2 TaskUnassigned 1), w')" by (metis prod.collapse)
  then have run: "GetTask_handler calm ''2'' ?w = (Inr (writeJSON 200 (TaskBody (tea_task 2 TaskUnassigned 1))), w')"
    by (simp add: GetTask_handler_def parseTaskID_def two and_then_def attempt_def ok_def)
  from get_task_status [OF this] two show ?thesis
    using run by (auto simp: writeJSON_def calm_def world_of_def)
qed

end
