(* ===== verification/Config.thy ===== *)
theory Config imports
  ReadyQueue
  Messaging
begin

text \<open>
  \<open>internal/config/env.go\<close> and the configuration choices of the programs under \<open>cmd/\<close>. The
  environment of the process is a function from names to values, empty where a variable is unset.
\<close>

section \<open>Reading the environment\<close>

type_synonym getenv = "string \<Rightarrow> string"

definition EnvOrDefault :: "getenv \<Rightarrow> string \<Rightarrow> string \<Rightarrow> string" where
  "EnvOrDefault getenv key fallback =
     (let v = TrimSpace (getenv key) in if v \<noteq> [] then v else fallback)"

definition EnvBool :: "getenv \<Rightarrow> string \<Rightarrow> bool \<Rightarrow> bool" where
  "EnvBool getenv key fallback =
     (let val = ToLower (TrimSpace (getenv key))
      in if val = [] then fallback
         else val = ''1'' \<or> val = ''true'' \<or> val = ''yes'' \<or> val = ''y'')"

definition EnvInt :: "getenv \<Rightarrow> string \<Rightarrow> int \<Rightarrow> int" where
  "EnvInt getenv key fallback =
     (let v = TrimSpace (getenv key)
      in if v = [] then fallback
         else (case Atoi v of Inl _ \<Rightarrow> fallback | Inr n \<Rightarrow> n))"

definition EnvCSV :: "getenv \<Rightarrow> string \<Rightarrow> string \<Rightarrow> string list" where
  "EnvCSV getenv key fallback =
     filter (\<lambda>p. p \<noteq> []) (map TrimSpace (Split (EnvOrDefault getenv key fallback) (CHR '','')))"

section \<open>The programs\<close>

definition default_dsn :: string where
  "default_dsn = ''host=localhost port=5432 user=postgres password=postgres dbname=kangaroo_paw sslmode=disable''"

text \<open>The Redis queue of \<open>cmd/api\<close> and \<open>cmd/temporal-worker\<close>; \<open>None\<close> is the in-memory queue.\<close>

definition redis_from_env :: "getenv \<Rightarrow> RedisConfig option" where
  "redis_from_env getenv =
     (let redisAddr = TrimSpace (EnvOrDefault getenv ''REDIS_ADDR'' [])
      in if redisAddr = [] then None
         else Some \<lparr>Addr = redisAddr, Password = EnvOrDefault getenv ''REDIS_PASSWORD'' [],
                    DB = EnvInt getenv ''REDIS_DB'' 0,
                    RedisConfig.Key = EnvOrDefault getenv ''REDIS_PENDING_KEY'' ''tasks:pending''\<rparr>)"

text \<open>The Kafka publisher of \<open>cmd/api\<close>; without one there is no dispatcher.\<close>

definition api_kafka :: "getenv \<Rightarrow> KafkaConfig option" where
  "api_kafka getenv =
     (let brokers = TrimSpace (EnvOrDefault getenv ''KAFKA_BROKERS'' [])
      in if brokers = [] then None
         else Some \<lparr>Brokers = Split brokers (CHR '',''),
                    TopicName = EnvOrDefault getenv ''KAFKA_TOPIC'' ''kitchen.domain.events'',
                    GroupID = [], Partition = - 1, FromBeginning = False\<rparr>)"

definition api_addr :: "getenv \<Rightarrow> string" where
  "api_addr getenv = EnvOrDefault getenv ''HTTP_ADDR'' '':8080''"

definition temporal_addr :: "getenv \<Rightarrow> string" where
  "temporal_addr getenv = EnvOrDefault getenv ''TEMPORAL_ADDRESS'' ''localhost:7233''"

definition consumer_kafka :: "getenv \<Rightarrow> KafkaConfig" where
  "consumer_kafka getenv =
     \<lparr>Brokers = EnvCSV getenv ''KAFKA_BROKERS'' ''localhost:9092'',
      TopicName = EnvOrDefault getenv ''KAFKA_TOPIC'' ''kitchen.domain.events'',
      GroupID = EnvOrDefault getenv ''KAFKA_GROUP_ID'' ''kitchen-topic-consumer'',
      Partition = EnvInt getenv ''KAFKA_PARTITION'' (- 1),
      FromBeginning = EnvBool getenv ''KAFKA_FROM_BEGINNING'' False\<rparr>"

definition tail_reader :: "getenv \<Rightarrow> ReaderConfig" where
  "tail_reader getenv =
     \<lparr>reader_Brokers = EnvCSV getenv ''KAFKA_BROKERS'' ''localhost:9092'',
      reader_Topic = EnvOrDefault getenv ''KAFKA_TOPIC'' ''kitchen.domain.events'',
      reader_Start = (if EnvBool getenv ''KAFKA_FROM_BEGINNING'' True then FirstOffset else LastOffset),
      reader_GroupID = [], reader_Partition = 0\<rparr>"

section \<open>Facts\<close>

lemma EnvOrDefault_trimmed: "EnvOrDefault getenv key fallback \<in> {fallback, TrimSpace (getenv key)}"
  by (simp add: EnvOrDefault_def Let_def)

lemma EnvCSV_entries: "p \<in> set (EnvCSV getenv key fallback) \<Longrightarrow> p \<noteq> [] \<and> TrimSpace p = p"
  by (auto simp: EnvCSV_def)

lemma Split_nonempty [simp]: "Split s sep \<noteq> []"
  by (cases s) (auto split: list.splits)

lemma Split_no_sep: "p \<in> set (Split s sep) \<Longrightarrow> sep \<notin> set p"
  by (induction s arbitrary: p) (auto split: list.splits if_splits)

section \<open>Properties\<close>

lemma in_TrimSpace: "c \<in> set (TrimSpace s) \<Longrightarrow> c \<in> set s"
  unfolding TrimSpace_def by (metis set_dropWhileD set_rev)

lemma trimmed_default: "TrimSpace fallback \<noteq> [] \<Longrightarrow> TrimSpace (EnvOrDefault getenv key fallback) \<noteq> []"
  by (auto simp: EnvOrDefault_def Let_def TrimSpace_idem)

lemma default_names: "TrimSpace ''kitchen.domain.events'' \<noteq> []" "TrimSpace ''kitchen-topic-consumer'' \<noteq> []"
  by code_simp+

lemma topic_roles_consumer:
  "NewKafkaTopic (consumer_kafka getenv) = Inr t \<Longrightarrow> \<exists>r. reader t = Some r \<and> TrimSpace (reader_GroupID r) \<noteq> []"
  using trimmed_default [OF default_names(2), of getenv "''KAFKA_GROUP_ID''"]
  by (auto simp: consumer_kafka_def NewKafkaTopic_def Let_def split: if_splits)

text \<open>An entry of a comma-separated variable is not empty, has no spaces around it and no comma.\<close>

lemma csv_entries_clean:
  assumes "p \<in> set (EnvCSV getenv key fallback)"
  shows "p \<noteq> [] \<and> TrimSpace p = p \<and> CHR '','' \<notin> set p"
  using assms EnvCSV_entries [OF assms] by (auto simp: EnvCSV_def dest!: in_TrimSpace Split_no_sep)

text \<open>
  The topic that cmd/api makes only publishes, and the one that cmd/topic-consumer makes can
  always consume, in a consumer group: whatever the environment, the first has no reader and the second
  one has, and each of them has a topic name.
\<close>

lemma topic_roles:
  "(case api_kafka getenv of None \<Rightarrow> True
    | Some cfg \<Rightarrow> \<exists>t. NewKafkaTopic cfg = Inr t \<and> reader t = None \<and> TrimSpace (snd (writer t)) \<noteq> []) \<and>
   (case NewKafkaTopic (consumer_kafka getenv) of Inl e \<Rightarrow> EnvCSV getenv ''KAFKA_BROKERS'' ''localhost:9092'' = []
    | Inr t \<Rightarrow> (\<exists>r. reader t = Some r \<and> TrimSpace (reader_GroupID r) \<noteq> []))"
proof (rule conjI)
  note trim = trimmed_default [OF default_names(1), of getenv "''KAFKA_TOPIC''"]
  have "TrimSpace [] = []" by (simp add: TrimSpace_def)
  then show "case api_kafka getenv of None \<Rightarrow> True
    | Some cfg \<Rightarrow> \<exists>t. NewKafkaTopic cfg = Inr t \<and> reader t = None \<and> TrimSpace (snd (writer t)) \<noteq> []"
    using trim by (simp add: api_kafka_def NewKafkaTopic_def Let_def)
  show "case NewKafkaTopic (consumer_kafka getenv) of Inl e \<Rightarrow> EnvCSV getenv ''KAFKA_BROKERS'' ''localhost:9092'' = []
    | Inr t \<Rightarrow> (\<exists>r. reader t = Some r \<and> TrimSpace (reader_GroupID r) \<noteq> [])"
  proof (cases "NewKafkaTopic (consumer_kafka getenv)")
    case (Inl e)
    then show ?thesis using trim by (simp add: consumer_kafka_def NewKafkaTopic_def Let_def split: if_splits)
  qed (use topic_roles_consumer in simp)
qed

end
