(* ===== verification/Programs.thy ===== *)
theory Programs imports
  Config
  Temporal
  Outbox
begin

text \<open>
  The programs under \<open>cmd/\<close>, the database connection (\<open>internal/db/postgres.go\<close>) and the singletons
  of a process (\<open>sync.Once\<close>). A program is an operation on the state of its process: what it
  calls of the outside is appended to \<open>calls\<close>, and what the outside answers is \<open>outside\<close>. An error
  of a program is the message of \<open>log.Fatalf\<close>, which exits without running the deferred calls.
\<close>

section \<open>The process\<close>

text \<open>The queue, the service and what is built from it; \<open>'g\<close> is the type of a \<open>gorm.DB\<close>.\<close>

datatype queue_choice = MemoryQueue InMemoryReadyQueue | RedisQueue RedisConfig string

record 'g app_service =
  svc_repo :: 'g
  svc_readyQueue :: queue_choice
  svc_publisher :: "KafkaTopic option"
  svc_constants :: KitchenAppService

record 'g AllocationOrchestrator =
  orch_Kitchen :: "'g app_service"

record 'g AllocationActivities =
  act_Orchestrator :: "'g AllocationOrchestrator"
  act_Kitchen :: "'g app_service"

text \<open>What a program asks of the outside, in its own order.\<close>

datatype 'g call =
    OpenDatabase string
  | SetMaxIdleConns int
  | SetMaxOpenConns int
  | SetConnMaxLifetime int
  | PingDatabase
  | ConnectRedis RedisConfig
  | DialTemporal string
  | StartDispatcher Dispatcher KafkaTopic
  | ListenAndServe string "'g app_service"
  | RunWorker string "workflow list" "string list" "'g AllocationActivities"
  | ConsumeTopic KafkaTopic TopicToTemporalBridge
  | CloseRedis
  | CloseKafka
  | CloseTemporal

text \<open>
  The instances of the singletons, the state \<open>'x\<close> of the outside that the process works on (the
  Redis server, the world of the services), and the deferred calls, the latest first.
\<close>

record ('g, 'x) process =
  kitchenRepoInst :: "'g option"
  kitchenAppInst :: "'g app_service option"
  kitchenControllerInst :: "'g app_service option"
  surroundings :: 'x
  calls :: "'g call list"
  deferred :: "'g call list"

record ('g, 'x) outside =
  gorm_Open :: "string \<Rightarrow> error + 'g"
  gorm_DB :: "'g \<Rightarrow> error option"
  sql_Ping :: "'g \<Rightarrow> error option"
  redis_NewClient :: "RedisConfig \<Rightarrow> 'x redis_client"
  client_Dial :: "string \<Rightarrow> error option"
  http_ListenAndServe :: "string \<Rightarrow> error option"
  worker_Run :: "error option"

definition new_process :: "'x \<Rightarrow> ('g, 'x) process" where
  "new_process x = \<lparr>kitchenRepoInst = None, kitchenAppInst = None, kitchenControllerInst = None,
     surroundings = x, calls = [], deferred = []\<rparr>"

definition call_out :: "'g call \<Rightarrow> (('g, 'x) process, unit) act" where
  "call_out c = (\<lambda>p. (Inr (), p\<lparr>calls := calls p @ [c]\<rparr>))"

definition defer_call :: "'g call \<Rightarrow> (('g, 'x) process, unit) act" where
  "defer_call c = (\<lambda>p. (Inr (), p\<lparr>deferred := c # deferred p\<rparr>))"

text \<open>
  An error under a prefix, as \<open>fmt.Errorf("...: %w", err)\<close> and \<open>log.Fatalf("...: %v", err)\<close> give it;
  the end of \<open>main\<close> runs the deferred calls.
\<close>

definition wrap_error :: "string \<Rightarrow> ('s, 'a) act \<Rightarrow> ('s, 'a) act" where
  "wrap_error what m = and_then (attempt m) (\<lambda>r. case r of
     Inl e \<Rightarrow> fail (Errorf (what @ '': '' @ error_text e)) | Inr x \<Rightarrow> ok x)"

definition returns_error :: "error option \<Rightarrow> ('s, unit) act" where
  "returns_error e = (case e of None \<Rightarrow> ok () | Some x \<Rightarrow> fail x)"

definition end_of_main :: "(('g, 'x) process, unit) act" where
  "end_of_main = (\<lambda>p. (Inr (), p\<lparr>calls := calls p @ deferred p, deferred := []\<rparr>))"

definition on_surroundings :: "('x, 'a) act \<Rightarrow> (('g, 'x) process, 'a) act" where
  "on_surroundings m = (\<lambda>p. case m (surroundings p) of (r, x) \<Rightarrow> (r, p\<lparr>surroundings := x\<rparr>))"

section \<open>Singletons\<close>

text \<open>\<open>sync.Once\<close>: the first call stores its instance, every call returns the stored one.\<close>

definition once :: "'a option \<Rightarrow> 'a \<Rightarrow> 'a" where
  "once inst new = (case inst of None \<Rightarrow> new | Some i \<Rightarrow> i)"

definition NewKitchenRepository :: "'g \<Rightarrow> (('g, 'x) process, 'g) act" where
  "NewKitchenRepository gormDB = (\<lambda>p.
     let i = once (kitchenRepoInst p) gormDB in (Inr i, p\<lparr>kitchenRepoInst := Some i\<rparr>))"

definition new_app_service ::
  "'g \<Rightarrow> queue_choice \<Rightarrow> KafkaTopic option \<Rightarrow> (('g, 'x) process, 'g app_service) act" where
  "new_app_service rp q pub = (\<lambda>p.
     let i = once (kitchenAppInst p) \<lparr>svc_repo = rp, svc_readyQueue = q, svc_publisher = pub,
               svc_constants = NewKitchenAppService\<rparr>
     in (Inr i, p\<lparr>kitchenAppInst := Some i\<rparr>))"

definition NewKitchenController :: "'g app_service \<Rightarrow> (('g, 'x) process, 'g app_service) act" where
  "NewKitchenController service = (\<lambda>p.
     let i = once (kitchenControllerInst p) service in (Inr i, p\<lparr>kitchenControllerInst := Some i\<rparr>))"

text \<open>The service's own \<open>publish\<close>: nothing without a publisher.\<close>

definition app_publish :: "env \<Rightarrow> 'g app_service \<Rightarrow> DomainEvent \<Rightarrow> ('q world, unit) act" where
  "app_publish env svc event =
     (case svc_publisher svc of None \<Rightarrow> ok () | Some topic \<Rightarrow> kafka_Publish env event)"

section \<open>The parts of the programs\<close>

definition OpenPostgres :: "('g, 'x) outside \<Rightarrow> string \<Rightarrow> (('g, 'x) process, 'g) act" where
  "OpenPostgres out dsn =
     and_then (call_out (OpenDatabase dsn)) (\<lambda>_.
     and_then (lift_result (gorm_Open out dsn)) (\<lambda>g.
     and_then (returns_error (gorm_DB out g)) (\<lambda>_.
     and_then (call_out (SetMaxIdleConns 10)) (\<lambda>_.
     and_then (call_out (SetMaxOpenConns 50)) (\<lambda>_.
     and_then (call_out (SetConnMaxLifetime (30 * Minute))) (\<lambda>_.
     and_then (call_out PingDatabase) (\<lambda>_.
     and_then (wrap_error ''postgres ping failed'' (returns_error (sql_Ping out g))) (\<lambda>_.
     ok g))))))))"

definition select_queue :: "('g, 'x) outside \<Rightarrow> getenv \<Rightarrow> (('g, 'x) process, queue_choice) act" where
  "select_queue out getenv =
     (case redis_from_env getenv of
        None \<Rightarrow> ok (MemoryQueue NewInMemoryReadyQueue)
      | Some cfg \<Rightarrow>
          and_then (call_out (ConnectRedis cfg)) (\<lambda>_.
          and_then (wrap_error ''redis queue init failed''
                     (on_surroundings (NewRedisReadyQueue (redis_NewClient out cfg) cfg))) (\<lambda>key.
          and_then (defer_call CloseRedis) (\<lambda>_.
          ok (RedisQueue cfg key)))))"

definition select_publisher :: "getenv \<Rightarrow> (('g, 'x) process, KafkaTopic option) act" where
  "select_publisher getenv =
     (case api_kafka getenv of
        None \<Rightarrow> ok None
      | Some cfg \<Rightarrow>
          and_then (wrap_error ''kafka topic init failed'' (lift_result (NewKafkaTopic cfg))) (\<lambda>topic.
          and_then (defer_call CloseKafka) (\<lambda>_.
          ok (Some topic))))"

definition NewAllocationOrchestrator :: "'g app_service \<Rightarrow> 'g AllocationOrchestrator" where
  "NewAllocationOrchestrator kitchen = \<lparr>orch_Kitchen = kitchen\<rparr>"

definition StartAllocationWorker ::
  "('g, 'x) outside \<Rightarrow> 'g AllocationOrchestrator \<Rightarrow> (('g, 'x) process, unit) act" where
  "StartAllocationWorker out allocator =
     and_then (call_out (RunWorker AllocationTaskQueue registered_workflows registered_activities
       \<lparr>act_Orchestrator = allocator, act_Kitchen = orch_Kitchen allocator\<rparr>)) (\<lambda>_.
     returns_error (worker_Run out))"

section \<open>The programs\<close>

text \<open>What the two programs that serve do before they start to: connect, then build the service.\<close>

definition build_service ::
  "('g, 'x) outside \<Rightarrow> getenv \<Rightarrow> (('g, 'x) process, KafkaTopic option) act \<Rightarrow>
     (('g, 'x) process, KafkaTopic option \<times> 'g app_service) act" where
  "build_service out getenv get_publisher =
     and_then (wrap_error ''postgres connection failed''
                (OpenPostgres out (EnvOrDefault getenv ''PG_DSN'' default_dsn))) (\<lambda>gormDB.
     and_then (NewKitchenRepository gormDB) (\<lambda>rp.
     and_then (select_queue out getenv) (\<lambda>q.
     and_then get_publisher (\<lambda>pub.
     and_then (new_app_service rp q pub) (\<lambda>service.
     ok (pub, service))))))"

definition api_serve ::
  "('g, 'x) outside \<Rightarrow> getenv \<Rightarrow> KafkaTopic option \<Rightarrow> 'g app_service \<Rightarrow> (('g, 'x) process, unit) act" where
  "api_serve out getenv pub service =
     and_then (case pub of
                 None \<Rightarrow> ok ()
               | Some topic \<Rightarrow> call_out (StartDispatcher NewDispatcher topic)) (\<lambda>_.
     and_then (NewKitchenController service) (\<lambda>controller.
     and_then (call_out (ListenAndServe (api_addr getenv) controller)) (\<lambda>_.
     and_then (wrap_error ''http server failed'' (returns_error (http_ListenAndServe out (api_addr getenv)))) (\<lambda>_.
     end_of_main))))"

definition api_main :: "('g, 'x) outside \<Rightarrow> getenv \<Rightarrow> (('g, 'x) process, unit) act" where
  "api_main out getenv =
     and_then (build_service out getenv (select_publisher getenv)) (\<lambda>(pub, service).
     api_serve out getenv pub service)"

definition worker_serve :: "('g, 'x) outside \<Rightarrow> 'g app_service \<Rightarrow> (('g, 'x) process, unit) act" where
  "worker_serve out kitchen =
     and_then (wrap_error ''unable to start temporal worker''
                (StartAllocationWorker out (NewAllocationOrchestrator kitchen))) (\<lambda>_.
     end_of_main)"

definition temporal_worker_main :: "('g, 'x) outside \<Rightarrow> getenv \<Rightarrow> (('g, 'x) process, unit) act" where
  "temporal_worker_main out getenv =
     and_then (call_out (DialTemporal (temporal_addr getenv))) (\<lambda>_.
     and_then (wrap_error ''unable to create temporal client''
                (returns_error (client_Dial out (temporal_addr getenv)))) (\<lambda>_.
     and_then (defer_call CloseTemporal) (\<lambda>_.
     and_then (build_service out getenv (ok None)) (\<lambda>(_, kitchen).
     worker_serve out kitchen))))"

text \<open>
  \<open>cmd/topic-consumer\<close> works on the world of the services; \<open>reads\<close> is what the reader delivers. The
  result is \<open>Reading\<close> while the consumer waits for more.
\<close>

definition topic_consumer_main ::
  "('g, 'q world) outside \<Rightarrow> getenv \<Rightarrow> env \<Rightarrow>
     (StartWorkflowOptions \<Rightarrow> workflow \<Rightarrow> DomainEvent \<Rightarrow> ('q world, unit) act) \<Rightarrow> (error + json) list \<Rightarrow>
     (('g, 'q world) process, consume_state) act" where
  "topic_consumer_main out getenv env ExecuteWorkflow reads =
     and_then (call_out (DialTemporal (temporal_addr getenv))) (\<lambda>_.
     and_then (wrap_error ''unable to create temporal client''
                (returns_error (client_Dial out (temporal_addr getenv)))) (\<lambda>_.
     and_then (defer_call CloseTemporal) (\<lambda>_.
     and_then (wrap_error ''unable to create kafka topic client''
                (lift_result (NewKafkaTopic (consumer_kafka getenv)))) (\<lambda>kafkaTopic.
     and_then (defer_call CloseKafka) (\<lambda>_.
     and_then (call_out (ConsumeTopic kafkaTopic NewTopicToTemporalBridge)) (\<lambda>_.
     and_then (on_surroundings (RunTopicConsumer env ExecuteWorkflow kafkaTopic NewTopicToTemporalBridge reads)) (\<lambda>st.
     case st of
       Reading \<Rightarrow> ok Reading
     | Finished e \<Rightarrow>
         and_then (wrap_error ''topic consumer failed'' (returns_error e)) (\<lambda>_.
         and_then end_of_main (\<lambda>_. ok (Finished None))))))))))"

text \<open>
  \<open>cmd/kafka-tail\<close> prints a line per message; \<open>decode\<close> is the JSON value of the message's bytes. It
  stops with the first read error.
\<close>

record tail_message =
  m_Offset :: int
  m_Partition :: int
  m_Key :: string
  m_Value :: string

definition raw_line :: "tail_message \<Rightarrow> string" where
  "raw_line msg = ''offset='' @ FormatInt (m_Offset msg) @ '' key='' @ m_Key msg @ '' raw='' @ m_Value msg"

definition event_line :: "tail_message \<Rightarrow> DomainEvent \<Rightarrow> string" where
  "event_line msg event = ''offset='' @ FormatInt (m_Offset msg) @ '' partition='' @ FormatInt (m_Partition msg) @
     '' key='' @ m_Key msg @ '' type='' @ Type event @ '' ts='' @ FormatInt (Timestamp event) @
     '' payload='' @ Payload event"

definition tail_line :: "(string \<Rightarrow> error + json) \<Rightarrow> tail_message \<Rightarrow> string" where
  "tail_line decode msg =
     (case decode (m_Value msg) of
        Inl _ \<Rightarrow> raw_line msg
      | Inr value \<Rightarrow> (case Unmarshal_event value of Inl _ \<Rightarrow> raw_line msg | Inr event \<Rightarrow> event_line msg event))"

fun tail_loop :: "(string \<Rightarrow> error + json) \<Rightarrow> (error + tail_message) list \<Rightarrow> (string list, unit) act" where
  "tail_loop decode [] = ok ()"
| "tail_loop decode (Inl e # reads) = fail (Errorf (''read error: '' @ error_text e))"
| "tail_loop decode (Inr msg # reads) =
     and_then (\<lambda>printed. (Inr (), printed @ [tail_line decode msg])) (\<lambda>_. tail_loop decode reads)"

definition kafka_tail_main ::
  "getenv \<Rightarrow> (string \<Rightarrow> error + json) \<Rightarrow> (ReaderConfig \<Rightarrow> (error + tail_message) list) \<Rightarrow> (string list, unit) act" where
  "kafka_tail_main getenv decode delivers = tail_loop decode (delivers (tail_reader getenv))"

section \<open>How the parts run\<close>

lemmas program_steps = call_out_def defer_call_def end_of_main_def returns_error_def on_surroundings_def
  wrap_error_def

lemma wrap_error_Inr [simp]: "wrap_error what m p = (Inr x, p') \<longleftrightarrow> m p = (Inr x, p')"
  by (cases "m p"; cases "fst (m p)") (auto simp: wrap_error_def and_then_def attempt_def)

lemma wrap_error_Inl: "wrap_error what m p = (Inl e, p') \<Longrightarrow> \<exists>e'. m p = (Inl e', p')"
  by (cases "m p"; cases "fst (m p)") (auto simp: wrap_error_def and_then_def attempt_def)

lemma call_out_run [simp]: "call_out c p = (r, p') \<longleftrightarrow> r = Inr () \<and> p' = p\<lparr>calls := calls p @ [c]\<rparr>"
  by (auto simp: call_out_def)

lemma defer_call_run [simp]: "defer_call c p = (r, p') \<longleftrightarrow> r = Inr () \<and> p' = p\<lparr>deferred := c # deferred p\<rparr>"
  by (auto simp: defer_call_def)

lemma returns_error_run [simp]:
  "returns_error e p = (Inr u, p') \<longleftrightarrow> e = None \<and> p' = p"
  "returns_error e p = (Inl x, p') \<longleftrightarrow> e = Some x \<and> p' = p"
  by (auto simp: returns_error_def split: option.splits)

lemma OpenPostgres_run:
  "OpenPostgres out dsn p = (Inr g, p') \<longleftrightarrow>
     gorm_Open out dsn = Inr g \<and> gorm_DB out g = None \<and> sql_Ping out g = None \<and>
     p' = p\<lparr>calls := calls p @ [OpenDatabase dsn, SetMaxIdleConns 10, SetMaxOpenConns 50,
       SetConnMaxLifetime (30 * Minute), PingDatabase]\<rparr>"
  by (auto simp: OpenPostgres_def and_then_Inr)

text \<open>Calls that start work; a process is idle before the first of them, and has no controller yet.\<close>

fun starts_work :: "'g call \<Rightarrow> bool" where
  "starts_work (StartDispatcher d t) = True"
| "starts_work (ListenAndServe addr svc) = True"
| "starts_work (RunWorker q wfs acts a) = True"
| "starts_work (ConsumeTopic t b) = True"
| "starts_work c = False"

definition idle :: "('g, 'x) process \<Rightarrow> bool" where
  "idle p \<longleftrightarrow> (\<forall>c \<in> set (calls p) \<union> set (deferred p). \<not> starts_work c) \<and> kitchenControllerInst p = None"

lemma idle_new [simp]: "idle (new_process x)"
  by (simp add: idle_def new_process_def)

lemma idle_steps [frame_intros]:
  "\<not> starts_work c \<Longrightarrow> keeps idle (call_out c)" "\<not> starts_work c \<Longrightarrow> keeps idle (defer_call c)"
  "keeps idle (returns_error e)" "keeps idle (on_surroundings m)" "keeps idle end_of_main"
  by (auto simp: keeps_def idle_def program_steps ok_def fail_def split: option.splits prod.splits)

lemma idle_wrap [frame_intros]: "keeps P m \<Longrightarrow> keeps P (wrap_error what m)"
  unfolding wrap_error_def by (intro frame_intros)

lemma idle_parts [frame_intros]:
  "keeps idle (NewKitchenRepository g)" "keeps idle (new_app_service rp q pub)"
  by (auto simp: keeps_def idle_def NewKitchenRepository_def new_app_service_def Let_def)

lemma idle_OpenPostgres [frame_intros]: "keeps idle (OpenPostgres out dsn)"
  unfolding OpenPostgres_def by (intro frame_intros) simp_all

lemma idle_select [frame_intros]:
  "keeps idle (select_queue out getenv)" "keeps idle (select_publisher getenv)"
  unfolding select_queue_def select_publisher_def by (intro frame_intros; simp)+

text \<open>A process that has started work got past its first step, which alone starts none.\<close>

lemma got_past:
  assumes "and_then m f p = (r, p')" and "\<not> idle p'" and "keeps idle m" and "idle p"
  obtains x p1 where "m p = (Inr x, p1)" "f x p1 = (r, p')" "idle p1"
proof -
  obtain y p1 where m: "m p = (y, p1)" by force
  then have idle: "idle p1" using assms(3,4) keepsD by metis
  show ?thesis
  proof (cases y)
    case (Inl e)
    then have "p' = p1" using assms(1) m by (simp add: and_then_def)
    then show ?thesis using idle assms(2) by simp
  next
    case (Inr x)
    then show ?thesis using that [of x p1] m idle assms(1) by (simp add: and_then_def)
  qed
qed

lemma select_queue_run:
  assumes "select_queue out getenv p = (Inr q, p')"
  shows "q = (case redis_from_env getenv of None \<Rightarrow> MemoryQueue NewInMemoryReadyQueue
    | Some cfg \<Rightarrow> RedisQueue cfg (RedisConfig.Key cfg))"
proof (cases "redis_from_env getenv")
  case (Some cfg)
  have "TrimSpace ''tasks:pending'' \<noteq> []" by code_simp
  then have "TrimSpace (RedisConfig.Key cfg) \<noteq> []" "TrimSpace (Addr cfg) \<noteq> []"
    using Some by (auto simp: redis_from_env_def EnvOrDefault_def Let_def TrimSpace_idem split: if_splits)
  then show ?thesis
    using assms Some
    by (auto simp: select_queue_def and_then_Inr on_surroundings_def NewRedisReadyQueue_def Let_def
        split: prod.splits option.splits if_splits)
qed (use assms in \<open>simp add: select_queue_def\<close>)

lemma select_publisher_run:
  assumes "select_publisher getenv p = (Inr pub, p')"
  shows "pub = (case api_kafka getenv of None \<Rightarrow> None
    | Some cfg \<Rightarrow> (case NewKafkaTopic cfg of Inl _ \<Rightarrow> None | Inr t \<Rightarrow> Some t))"
proof (cases "api_kafka getenv")
  case (Some cfg)
  then show ?thesis using assms by (cases "NewKafkaTopic cfg") (auto simp: select_publisher_def and_then_Inr)
qed (use assms in \<open>simp add: select_publisher_def\<close>)

lemma build_service_run:
  assumes "build_service out getenv m p = (Inr (pub, svc), p')" and "kitchenRepoInst p = None" "kitchenAppInst p = None"
    and "\<And>q q' y. m q = (Inr y, q') \<Longrightarrow> kitchenAppInst q' = kitchenAppInst q"
  shows "gorm_Open out (EnvOrDefault getenv ''PG_DSN'' default_dsn) = Inr (svc_repo svc) \<and>
    gorm_DB out (svc_repo svc) = None \<and> sql_Ping out (svc_repo svc) = None \<and>
    svc_readyQueue svc = (case redis_from_env getenv of None \<Rightarrow> MemoryQueue NewInMemoryReadyQueue
      | Some cfg \<Rightarrow> RedisQueue cfg (RedisConfig.Key cfg)) \<and>
    svc_publisher svc = pub \<and> svc_constants svc = NewKitchenAppService \<and> (\<exists>q q'. m q = (Inr pub, q'))"
proof -
  have frame: "kitchenAppInst q' = kitchenAppInst q" if "select_queue out getenv q = (Inr y, q')" for y q q'
    using that by (auto simp: select_queue_def and_then_Inr on_surroundings_def split: option.splits prod.splits)
  obtain g p1 rp p2 q p3 p4 where steps:
    "OpenPostgres out (EnvOrDefault getenv ''PG_DSN'' default_dsn) p = (Inr g, p1)"
    "NewKitchenRepository g p1 = (Inr rp, p2)" "select_queue out getenv p2 = (Inr q, p3)" "m p3 = (Inr pub, p4)"
    "new_app_service rp q pub p4 = (Inr svc, p')"
    using assms(1) by (auto simp: build_service_def and_then_Inr)
  have "kitchenRepoInst p1 = None" "kitchenAppInst p1 = None"
    using steps(1) assms(2,3) by (auto simp: OpenPostgres_run)
  then have "rp = g" "kitchenAppInst p2 = None"
    using steps(2) by (auto simp: NewKitchenRepository_def once_def Let_def)
  then have "svc = \<lparr>svc_repo = g, svc_readyQueue = q, svc_publisher = pub, svc_constants = NewKitchenAppService\<rparr>"
    using steps(5) frame [OF steps(3)] assms(4) [OF steps(4)] by (auto simp: new_app_service_def once_def Let_def)
  then show ?thesis using steps(1,4) select_queue_run [OF steps(3)] by (auto simp: OpenPostgres_run)
qed

lemma idle_build [frame_intros]: "keeps idle m \<Longrightarrow> keeps idle (build_service out getenv m)"
  unfolding build_service_def by (intro frame_intros)


lemma select_publisher_app: "select_publisher getenv q = (Inr y, q') \<Longrightarrow> kitchenAppInst q' = kitchenAppInst q"
  by (auto simp: select_publisher_def and_then_Inr split: option.splits)

lemma idle_calls:
  assumes "idle p"
  shows "StartDispatcher d t \<notin> set (calls p)" "ListenAndServe addr svc \<notin> set (calls p)"
    "RunWorker q wfs acts a \<notin> set (calls p)" "StartDispatcher d t \<notin> set (deferred p)"
    "ListenAndServe addr svc \<notin> set (deferred p)" "RunWorker q wfs acts a \<notin> set (deferred p)"
  using assms starts_work.simps(1-3) unfolding idle_def by blast+

lemma api_serve_run:
  assumes "api_serve out getenv pub svc p = (r, p')" and "idle p"
  shows "set (calls p') = set (calls p) \<union> {StartDispatcher NewDispatcher t |t. pub = Some t} \<union>
    {ListenAndServe (api_addr getenv) svc} \<union> (if r = Inr () then set (deferred p) else {})"
  using assms
  by (cases r) (auto simp: api_serve_def run_simps program_steps NewKitchenController_def once_def idle_def Let_def ok_def
      fail_def attempt_def split: option.splits)

lemma worker_serve_run:
  assumes "worker_serve out svc p = (r, p')"
  shows "set (calls p') = set (calls p) \<union> {RunWorker AllocationTaskQueue registered_workflows registered_activities
      \<lparr>act_Orchestrator = \<lparr>orch_Kitchen = svc\<rparr>, act_Kitchen = svc\<rparr>} \<union>
    (if r = Inr () then set (deferred p) else {})"
  using assms
  by (cases "worker_Run out") (auto simp: worker_serve_def StartAllocationWorker_def NewAllocationOrchestrator_def
      and_then_def program_steps ok_def fail_def attempt_def)

text \<open>A second call of a constructor changes nothing: the process has one service.\<close>

lemma new_app_service_twice:
  assumes "new_app_service rp q pub p = (Inr svc, p1)"
  shows "new_app_service rp' q' pub' p1 = (Inr svc, p1)"
  using assms by (auto simp: new_app_service_def once_def Let_def split: option.splits)

lemma app_publish_run:
  assumes "app_publish env svc event w = (r, w')"
  shows "db w' = db w \<and> queue w' = queue w \<and> aborted w' = aborted w \<and>
    (svc_publisher svc = None \<longrightarrow> r = Inr () \<and> w' = w)"
  using assms kafka_Publish_run [of env event w] by (auto simp: app_publish_def split: option.splits)

lemma topic_consumer_waits:
  assumes "client_Dial out (temporal_addr getenv) = None" and "NewKafkaTopic (consumer_kafka getenv) = Inr t"
    and "\<And>n. \<not> cancelled env n"
  shows "\<exists>p. topic_consumer_main out getenv env ExecuteWorkflow (map Inr vals) (new_process w) = (Inr Reading, p) \<and>
    ConsumeTopic t NewTopicToTemporalBridge \<in> set (calls p)"
proof -
  have "reader t \<noteq> None"
    using topic_roles_consumer [OF assms(2)] by auto
  then obtain w' where "RunTopicConsumer env ExecuteWorkflow t NewTopicToTemporalBridge (map Inr vals) w = (Inr Reading, w')"
    using consume_loop_returns [OF assms(3)] by (fastforce simp: RunTopicConsumer_def kafka_Consume_def)
  then show ?thesis
    using assms(1,2)
    by (simp add: topic_consumer_main_def and_then_def program_steps attempt_def ok_def lift_result_def new_process_def)
qed

text \<open>\<open>cmd/kafka-tail\<close> prints one line per message, in order, up to the first read error.\<close>

lemma tail_loop_prints:
  "tail_loop decode (map Inr msgs) printed = (Inr (), printed @ map (tail_line decode) msgs)"
  "tail_loop decode (map Inr msgs @ Inl e # reads) printed =
     (Inl (Errorf (''read error: '' @ error_text e)), printed @ map (tail_line decode) msgs)"
  by (induction msgs arbitrary: printed) (simp_all add: and_then_def ok_def fail_def)

section \<open>Properties\<close>

text \<open>
  C40: Whatever the environment and the answers of the outside, cmd/api serves requests only after the
  database has been opened and has answered a ping, with the service built on it; the service uses
  the Redis queue exactly when an address is configured; the dispatcher runs exactly when a broker is.
\<close>

theorem api_serves_when_connected:
  assumes "api_main out getenv (new_process x) = (r, p)" and "ListenAndServe addr svc \<in> set (calls p)"
  shows "addr = api_addr getenv \<and> gorm_Open out (EnvOrDefault getenv ''PG_DSN'' default_dsn) = Inr (svc_repo svc) \<and>
    gorm_DB out (svc_repo svc) = None \<and> sql_Ping out (svc_repo svc) = None \<and>
    svc_readyQueue svc = (case redis_from_env getenv of None \<Rightarrow> MemoryQueue NewInMemoryReadyQueue
      | Some cfg \<Rightarrow> RedisQueue cfg (RedisConfig.Key cfg)) \<and>
    (\<forall>d t. StartDispatcher d t \<in> set (calls p) \<longleftrightarrow> d = NewDispatcher \<and>
       (\<exists>cfg. api_kafka getenv = Some cfg \<and> NewKafkaTopic cfg = Inr t))"
proof -
  have "\<not> idle p" using assms(2) by (force simp: idle_def)
  then obtain pub svc0 p1 where b: "build_service out getenv (select_publisher getenv) (new_process x) = (Inr (pub, svc0), p1)"
      "idle p1" and rest: "api_serve out getenv pub svc0 p1 = (r, p)"
    using assms(1) unfolding api_main_def by (auto elim!: got_past intro: frame_intros)
  have built: "gorm_Open out (EnvOrDefault getenv ''PG_DSN'' default_dsn) = Inr (svc_repo svc0)"
      "gorm_DB out (svc_repo svc0) = None" "sql_Ping out (svc_repo svc0) = None"
      "svc_readyQueue svc0 = (case redis_from_env getenv of None \<Rightarrow> MemoryQueue NewInMemoryReadyQueue
        | Some cfg \<Rightarrow> RedisQueue cfg (RedisConfig.Key cfg))"
      "pub = (case api_kafka getenv of None \<Rightarrow> None
        | Some cfg \<Rightarrow> (case NewKafkaTopic cfg of Inl _ \<Rightarrow> None | Inr t \<Rightarrow> Some t))"
    using build_service_run [OF b(1)] by (auto simp: new_process_def select_publisher_app dest: select_publisher_run)
  have "svc = svc0" "addr = api_addr getenv"
    "\<And>d t. StartDispatcher d t \<in> set (calls p) \<longleftrightarrow> d = NewDispatcher \<and> pub = Some t"
    using assms(2) idle_calls [OF b(2)] by (auto simp: api_serve_run [OF rest b(2)] split: if_splits)
  then show ?thesis using built by (auto split: option.splits sum.splits)
qed


text \<open>An outside that answers everything, and an environment with a broker, for the witnesses.\<close>

definition willing :: "(nat, unit) outside" where
  "willing = \<lparr>gorm_Open = (\<lambda>dsn. Inr 7), gorm_DB = (\<lambda>g. None), sql_Ping = (\<lambda>g. None),
     redis_NewClient = (\<lambda>cfg. \<lparr>ZAdd = (\<lambda>k s m r. (None, r)), ZPopMin = (\<lambda>k n r. (Inr [], r)),
       ZCard = (\<lambda>k r. (Inr 0, r)), Ping = (\<lambda>r. (None, r)), CloseClient = (\<lambda>r. (None, r))\<rparr>),
     client_Dial = (\<lambda>addr. None), http_ListenAndServe = (\<lambda>addr. None), worker_Run = None\<rparr>"

definition with_broker :: getenv where
  "with_broker k = (if k = ''KAFKA_BROKERS'' then ''kafka:9092'' else [])"

lemma sample_trims:
  "TrimSpace ''kafka:9092'' = ''kafka:9092''" "TrimSpace ''kitchen.domain.events'' \<noteq> []" "TrimSpace [] = []"
  "Split ''kafka:9092'' (CHR '','') = [''kafka:9092'']"
  by code_simp+

lemma with_broker_env:
  "redis_from_env with_broker = None" "api_addr with_broker = '':8080''"
  "EnvOrDefault with_broker ''PG_DSN'' d = d"
  "api_kafka with_broker = Some \<lparr>Brokers = [''kafka:9092''], TopicName = ''kitchen.domain.events'',
     GroupID = [], Partition = - 1, FromBeginning = False\<rparr>"
  by (simp_all add: redis_from_env_def api_addr_def api_kafka_def EnvOrDefault_def with_broker_def sample_trims Let_def
      del: Split.simps)

lemma broker_topic:
  "NewKafkaTopic \<lparr>Brokers = [''kafka:9092''], TopicName = ''kitchen.domain.events'',
     GroupID = [], Partition = - 1, FromBeginning = False\<rparr> =
   Inr \<lparr>writer = ([''kafka:9092''], ''kitchen.domain.events''), reader = None\<rparr>"
  by (simp add: NewKafkaTopic_def sample_trims Let_def)

lemmas program_defs = build_service_def api_main_def api_serve_def temporal_worker_main_def StartAllocationWorker_def
  NewAllocationOrchestrator_def select_queue_def select_publisher_def OpenPostgres_def
  willing_def new_process_def NewKitchenRepository_def new_app_service_def NewKitchenController_def once_def
  program_steps and_then_def attempt_def ok_def fail_def lift_result_def Let_def


theorem api_serves_when_connected_witness:
  "\<exists>p svc. api_main willing with_broker (new_process ()) = (Inr (), p) \<and>
     ListenAndServe '':8080'' svc \<in> set (calls p) \<and> svc_repo svc = 7"
proof -
  have "\<exists>p svc. api_main willing with_broker (new_process ()) = (Inr (), p) \<and>
      ListenAndServe '':8080'' svc \<in> set (calls p)"
    by (simp add: program_defs with_broker_env broker_topic)
  then obtain p svc where run: "api_main willing with_broker (new_process ()) = (Inr (), p)"
      "ListenAndServe '':8080'' svc \<in> set (calls p)" by blast
  then have "svc_repo svc = 7"
    using api_serves_when_connected [OF run] by (simp add: willing_def)
  then show ?thesis using run by blast
qed

text \<open>
  C39: cmd/temporal-worker registers every workflow that the bridge may start, on the task queue it
  starts them on, and every activity those workflows execute; its activities allocate and complete
  through one service without a publisher. That service has the queue an API with the same environment
  has: the same Redis key when an address is configured, otherwise a new queue in its own memory.
\<close>

theorem worker_serves_bridge:
  assumes "temporal_worker_main out getenv (new_process x) = (r, p)" and "RunWorker q wfs acts a \<in> set (calls p)"
  shows "q = TaskQueue NewTopicToTemporalBridge \<and> fst (choose_workflow NewTopicToTemporalBridge event) \<in> set wfs \<and>
    (\<forall>wf \<in> set wfs. set (executed_activities wf) \<subseteq> set acts) \<and>
    act_Kitchen a = orch_Kitchen (act_Orchestrator a) \<and> svc_publisher (act_Kitchen a) = None \<and>
    svc_readyQueue (act_Kitchen a) = (case redis_from_env getenv of None \<Rightarrow> MemoryQueue NewInMemoryReadyQueue
      | Some cfg \<Rightarrow> RedisQueue cfg (RedisConfig.Key cfg))"
proof -
  let ?p0 = "(new_process x)\<lparr>calls := [DialTemporal (temporal_addr getenv)], deferred := [CloseTemporal]\<rparr>"
  have idle: "idle ?p0" "\<not> idle p" using assms(2) by (force simp: idle_def new_process_def)+
  have "client_Dial out (temporal_addr getenv) = None"
    using assms by (auto simp: temporal_worker_main_def and_then_def program_steps attempt_def fail_def
        new_process_def split: option.splits)
  then have "and_then (build_service out getenv (ok None)) (\<lambda>(_, kitchen). worker_serve out kitchen) ?p0 = (r, p)"
    using assms(1) by (simp add: temporal_worker_main_def and_then_def program_steps attempt_def ok_def new_process_def)
  from got_past [OF this idle(2) idle_build [OF keeps_ok] idle(1)] obtain y p1
    where y: "build_service out getenv (ok None) ?p0 = (Inr y, p1)" "idle p1"
      "(case y of (_, kitchen) \<Rightarrow> worker_serve out kitchen) p1 = (r, p)" by blast
  obtain pub svc where "y = (pub, svc)" by force
  then have b: "build_service out getenv (ok None) ?p0 = (Inr (pub, svc), p1)" "idle p1"
    and rest: "worker_serve out svc p1 = (r, p)" using y by simp_all
  have "a = \<lparr>act_Orchestrator = \<lparr>orch_Kitchen = svc\<rparr>, act_Kitchen = svc\<rparr>"
    "q = AllocationTaskQueue" "wfs = registered_workflows" "acts = registered_activities"
    using assms(2) idle_calls [OF b(2)] by (auto simp: worker_serve_run [OF rest] split: if_splits)
  then show ?thesis
    using build_service_run [OF b(1)]
    by (auto simp: new_process_def NewTopicToTemporalBridge_def choose_workflow_def registered_workflows_def
        registered_activities_def)
qed

theorem worker_serves_bridge_witness:
  "\<exists>p wfs acts a. temporal_worker_main willing with_broker (new_process ()) = (Inr (), p) \<and>
     RunWorker AllocationTaskQueue wfs acts a \<in> set (calls p) \<and> svc_publisher (act_Kitchen a) = None"
proof -
  have "\<exists>p wfs acts a. temporal_worker_main willing with_broker (new_process ()) = (Inr (), p) \<and>
      RunWorker AllocationTaskQueue wfs acts a \<in> set (calls p)"
    by (simp add: program_defs worker_serve_def with_broker_env)
  then obtain p wfs acts a where run: "temporal_worker_main willing with_broker (new_process ()) = (Inr (), p)"
      "RunWorker AllocationTaskQueue wfs acts a \<in> set (calls p)" by blast
  have "svc_publisher (act_Kitchen a) = None" using worker_serves_bridge [OF run] by blast
  then show ?thesis using run by blast
qed

end
