(* ===== verification/Spec2Isabelle.thy ===== *)
theory Spec2Isabelle imports
  Typing
  Queued
  Drain
  Workflows
  Api
  Programs
begin

text \<open>
  A verification development of the kitchen scheduling engine (the Go module under \<open>src/\<close>).

  \<^bold>\<open>The program.\<close> Clients confirm orders over HTTP. An order is exploded into tasks, one per recipe
  step and copy, with dependencies between them. Tasks without an open dependency enter a ready
  queue (in memory or a Redis sorted set), scored by priority and age. An allocation run pops
  the least scores and assigns each task, in a database transaction, to a member of staff, a
  counter and a machine with free capacity. Tasks are started and completed; completing one gives
  its resources back, releases its dependents and advances the order. Each change inserts an
  event into an outbox table in its own transaction; a dispatcher publishes the outbox to Kafka,
  a consumer starts a Temporal workflow per event, and the workflows call the services again: to
  allocate, or to complete a started task after its estimate.

  \<^bold>\<open>Theories and code.\<close>
  Foundations: \<open>Prelude\<close> (errors, the combinators of operations, lists), \<open>GoLib\<close> (strings, strconv,
  time, 64-bit arithmetic), \<open>Float64\<close> (rounding of float64), \<open>Models\<close> (\<open>internal/models\<close>, JSON of
  events), \<open>Store\<close> (the tables of \<open>db/schema.sql\<close>, statements, transactions, the environment).
  Repositories (\<open>internal/repository\<close>): \<open>EventRepo\<close>, \<open>AllocationRepo\<close>, \<open>TaskRepo\<close> (task_lifecycle_repo.go),
  \<open>OrderRepo\<close>, \<open>RecipeRepo\<close>; one definition per method, under its name.
  Queue and messages: \<open>ReadyQueue\<close> (\<open>internal/queue\<close>), \<open>Messaging\<close> (\<open>internal/messaging\<close>).
  Services (\<open>internal/application\<close>): \<open>Scoring\<close> (kitchen_service.go, priority_service.go, staff_service.go),
  \<open>DependencyAnalyzer\<close>, \<open>OrderService\<close>, \<open>TaskService\<close>, \<open>AllocationService\<close>, and \<open>Outbox\<close>
  (\<open>internal/outbox\<close>).
  Edges: \<open>Temporal\<close> (\<open>internal/orchestrator\<close>, \<open>internal/temporalx\<close>), \<open>Api\<close> (\<open>internal/api\<close>), \<open>Config\<close>
  (\<open>internal/config\<close> and what the programs read with it), \<open>Programs\<close> (the mains under \<open>cmd/\<close>,
  \<open>internal/db\<close>, the singletons of a process).

  \<^bold>\<open>How the model corresponds to the code.\<close> An operation takes the world and returns a result or an
  error with the new world (type \<open>act\<close>), \<open>and_then\<close> is the early return of an error. A world
  holds the tables, the queue, what the broker has accepted and a counter of interactions with
  the environment; \<open>env\<close> says for each interaction what the clock shows, whether a statement or a
  commit fails (before or after taking effect), whether a write to the broker fails (accepted or
  not), which rows others hold locked, and in which order rows and map keys come where the program leaves
  it open. \<open>transaction\<close> restores the tables on an error but neither the queue nor the broker. A
  program's \<open>main\<close> is an operation on its process, with the answers of the outside as a parameter.

  \<^bold>\<open>What the lemmas show.\<close>
  \<open>Lifecycle\<close> is the abstract specification: a step relation on the set of queued ids and the tables,
  with the invariant \<open>kitchen_ok\<close>; \<open>Resources\<close> and \<open>KitchenInvariant\<close> prove that every step keeps it.
  \<open>Refinement\<close> and \<open>OrderRefinement\<close> show that each service, in every environment and with every
  queue that keeps the contract \<open>ready_queue\<close>, runs as steps of it, and \<open>OutboxFrame\<close> and \<open>Outbox\<close>
  that a published event was accepted. \<open>Kitchen\<close> composes the services in any order and derives the
  system properties of this theory. \<open>Services\<close>, \<open>Confirmation\<close> and \<open>Allocation\<close> state what a
  successful call does, row by row, and which calls are refused; \<open>Typing\<close> that the stored rows stay
  well formed; \<open>Queued\<close> that no task that can be allocated is forgotten while no statement fails and
  the queue loses nothing; \<open>Drain\<close> that the dispatcher's loop empties the outbox; \<open>Workflows\<close> that whatever Temporal
  repeats or interrupts is a run of the services. The locales are the interfaces: \<open>ready_queue\<close>,
  \<open>exact_ready_queue\<close>, \<open>storing_queue\<close> and \<open>keeping_queue\<close> (interpreted for the in-memory queue, the first also
  proved of the Redis queue under the documented laws of its commands), \<open>publisher\<close> (Kafka) and
  \<open>resource\<close> (counters, machines, staff). \<open>Samples\<close> holds the small kitchen of the witnesses.

  \<^bold>\<open>Bounds and fuel.\<close> Loops without a bound in the code are driven by a list: the reads of the Kafka
  consumer and of kafka-tail, the rounds of the in-memory consumer, the ticks of the dispatcher;
  the theorems hold for every list, so no fuel can run out. Publishing and handling a message
  make three attempts, as in the code, and every other recursion is structural or has its
  measure. Integers that can wrap are reduced by \<open>int64\<close>; columns are checked against the ranges of the
  schema.

  \<^bold>\<open>Not modelled.\<close> Interleaving of two transactions statement by statement: operations are atomic
  against each other in the order of their commits, as the row locks of the code intend, and rows
  that others hold show up only through \<open>FOR UPDATE SKIP LOCKED\<close> and as failing statements.
  Infinities and NaN of float64 (no value comes near), characters beyond ASCII in \<open>strings\<close>, the
  rounding of timestamps to microseconds by PostgreSQL, decimal rounding of base priorities. Third-party code:
  gorm and PostgreSQL beyond the statements issued, kafka-go, go-redis, chi and its middlewares,
  the Temporal server and SDK (all parameters, or the environment's choice). Logging, pauses
  between retries, timeouts and the pool behind the settings of the connection; the scheduling of goroutines
  (the API's server and its dispatcher appear as independent services); the integration test.
\<close>

section \<open>The system\<close>



text \<open>
  C2: A task leaves the status UNASSIGNED only after everything it depends on is COMPLETED, and
  stays so: in every reachable state the prerequisites of a task that is assigned, started or
  completed are completed tasks.
\<close>

theorem dependencies_completed_first:
  assumes "ready_queue ops ids" and "service_run ops s w w'" and "world_ok ids w"
    and "t \<in> set (tasks (db w'))" and "t_Status t \<noteq> TaskUnassigned"
    and "td \<in> set (task_dependencies (db w'))" and "td_TaskID td = t_ID t"
  shows "\<exists>p \<in> set (tasks (db w')). t_ID p = td_DependsOnTaskID td \<and> t_Status p = TaskCompleted"
proof -
  have "kitchen_ok (ready_ids ids (queue w') \<union> {}, db w')"
    using ready_queue.service_run_ok [OF assms(1-3)] by (simp add: world_ok_def kitchen_state_def)
  from kitchen_gate [OF this assms(4-7)] show ?thesis by (simp add: is_done_def)
qed

theorem dependencies_completed_first_witness:
  "\<exists>w. StartTask calm 2 (world_of second_course) = (Inr (), w) \<and>
     (\<exists>p \<in> set (tasks (db w)). t_ID p = 1 \<and> t_Status p = TaskCompleted)"
proof -
  obtain w where w: "StartTask calm 2 (world_of second_course) = (Inr (), w)"
      "start_row 100000000000 (held_task 2 TaskAssigned) \<in> set (tasks (db w))"
      "\<lparr>td_TaskID = 2, td_DependsOnTaskID = 1\<rparr> \<in> set (task_dependencies (db w))"
    by (rule second_started) (simp add: second_course_defs)
  have "service_run in_memory NewKitchenAppService (world_of second_course) w"
    using w(1) by (rule service_run_start)
  from dependencies_completed_first [OF mem_contract this sample_worlds(2) w(2) _ w(3)] w(1)
  show ?thesis by (simp add: start_row_def held_task_def tea_task_def)
qed





text \<open>
  C5: The life of a task: no task disappears or changes its order, description, counter or machine;
  its status only moves UNASSIGNED, ASSIGNED, STARTED, COMPLETED or from ASSIGNED back to
  UNASSIGNED; from STARTED on it never goes back, so a started task is never taken away and a
  completed one stays completed.
\<close>

theorem task_life_cycle:
  assumes "ready_queue ops ids" and "service_run ops s w w'" and "world_ok ids w"
    and "t \<in> set (tasks (db w))"
  shows "\<exists>t' \<in> set (tasks (db w')). same_task t t' \<and> status_next\<^sup>*\<^sup>* (t_Status t) (t_Status t') \<and>
    (TaskStarted \<le> t_Status t \<longrightarrow> t_Status t \<le> t_Status t')"
proof -
  have "kitchen_run (kitchen_state ids {} w) (kitchen_state ids {} w')"
    using ready_queue.service_run_ok [OF assms(1-3)] by blast
  moreover have "kitchen_ok (kitchen_state ids {} w)" using assms(3) by (simp add: world_ok_def)
  ultimately have "task_path (db w) (db w')" using kitchen_run_path by (fastforce simp: kitchen_state_def)
  then show ?thesis using assms(4) started_climbs by (fastforce simp: task_path_def)
qed

theorem task_life_cycle_witness:
  "\<exists>w. StartTask calm 1 (world_of (kitchen_at TaskAssigned)) = (Inr (), w) \<and>
     (\<exists>t' \<in> set (tasks (db w)). same_task (held_task 1 TaskAssigned) t')"
proof -
  obtain w where w: "StartTask calm 1 (world_of (kitchen_at TaskAssigned)) = (Inr (), w)"
    by (rule started_sample)
  have "service_run in_memory NewKitchenAppService (world_of (kitchen_at TaskAssigned)) w"
    using w by (rule service_run_start)
  moreover have "held_task 1 TaskAssigned \<in> set (tasks (db (world_of (kitchen_at TaskAssigned))))"
    by (simp add: world_of_def kitchen_at_def)
  ultimately show ?thesis using task_life_cycle [OF mem_contract _ sample_worlds(3)] w by blast
qed

text \<open>
  C6: An event row of the outbox that is marked as published has been accepted by the broker: a
  message with its type as key and its encoding as value is in the topic.
\<close>

theorem published_was_accepted:
  assumes "ready_queue ops ids" and "service_run ops s w w'" and "world_ok ids w"
    and "e \<in> set (domain_events (db w'))" and "e_PublishedAt e \<noteq> None"
  shows "\<exists>ev. Unmarshal_event (e_Payload e) = Inr ev \<and>
    (\<exists>m \<in> set (published w'). g_Key m = Type ev \<and> g_Value m = Marshal_event ev)"
proof -
  have "outbox_ok (domain_events (db w')) (published w')"
    using ready_queue.service_run_ok [OF assms(1-3)] by (simp add: world_ok_def)
  then show ?thesis using assms(4,5) by (auto simp: outbox_ok_def delivered_def carries_def)
qed

theorem published_was_accepted_witness:
  "\<exists>ev. Unmarshal_event (Marshal_event ready_event) = Inr ev \<and>
     (\<exists>m \<in> set (published told_world). g_Key m = Type ev)"
  using published_was_accepted [OF mem_contract service_run_refl told_world_ok,
      of "(event_row 1 ''task'' ''7'' ready_event 0)\<lparr>e_PublishedAt := Some 5\<rparr>"]
  by (auto simp: told_world_def world_of_def event_row_def)



end
